(* ===== verification/Prelude.thy ===== *)
theory Prelude
  imports Main "HOL-Library.Word" "HOL-Library.Monad_Syntax"
begin

text \<open>
  Shared vocabulary of the development: the machine integer types of the code, the collections
  of rewrite rules, the shapes of its counting loops, and generic facts on words.

  An \<open>int\<close> of the code is \<open>i32\<close>, a 32-bit word read with \<open>sint\<close>; the kernel is compiled
  without optimisation, so its overflow is the wrap-around of the machine.  \<open>size_t\<close>,
  \<open>uint64_t\<close> and pointers are \<open>u64\<close>.
\<close>

type_synonym u8 = "8 word"
type_synonym u16 = "16 word"
type_synonym u32 = "32 word"
type_synonym u64 = "64 word"
type_synonym i32 = "32 word"
type_synonym i64 = "64 word"

named_theorems op_defs \<open>definitions of operations, unfolded together\<close>
named_theorems frame \<open>what an operation leaves unchanged\<close>
named_theorems load_store \<open>reads of memory after writes\<close>

text \<open>
  What can stop the kernel: a panic (\<open>KernelPanic\<close> never returns) and a division by zero
  (a fault of the processor).
\<close>

datatype kerror =
    OutOfMemory        \<comment> \<open>\<open>KernelPanic("Out of memory")\<close>\<close>
  | InitMissing        \<comment> \<open>\<open>KernelPanic("moldInit is missing or corrupt.")\<close>\<close>
  | DivideError
  | Hang               \<comment> \<open>a loop of the code that does not end\<close>

type_synonym 'a result = "kerror + 'a"

definition rbind :: "'a result \<Rightarrow> ('a \<Rightarrow> 'b result) \<Rightarrow> 'b result" where
  "rbind r f = (case r of Inl e \<Rightarrow> Inl e | Inr x \<Rightarrow> f x)"

lemma rbind_simps [simp]: "rbind (Inl e) f = Inl e" "rbind (Inr x) f = f x"
  by (simp_all add: rbind_def)

lemma rbind_Inr: "rbind r f = Inr y \<longleftrightarrow> (\<exists>x. r = Inr x \<and> f x = Inr y)"
  by (cases r) simp_all

section \<open>Words\<close>

lemma unat_less_2p64: "unat (x :: u64) < 18446744073709551616"
  using unsigned_less [of x] by simp

lemma unat_less_2p32: "unat (x :: u32) < 4294967296"
  using unsigned_less [of x] by simp

lemma unat_less_256: "unat (x :: u8) < 256"
  using unsigned_less [of x] by simp

lemma unat_less_65536: "unat (x :: u16) < 65536"
  using unsigned_less [of x] by simp

lemma of_nat_minus_1: "0 < n \<Longrightarrow> (of_nat (n - 1) :: 'a::len word) + 1 = of_nat n"
  by (cases n) simp_all

lemma of_nat_unat_id: "(of_nat (unat x) :: 'a::len word) = x"
  by simp

lemma ucast_eq_of_nat: "(ucast (x :: 'a::len word) :: 'b::len word) = of_nat (unat x)"
  by simp

lemma unat_diff64:
  "unat (x - y :: u64) =
     (if unat y \<le> unat x then unat x - unat y
      else unat x + 18446744073709551616 - unat y)"
  by (simp add: unat_sub_if_size size_word.rep_eq)

lemma unat_add_small:
  fixes x y :: "'a::len word"
  shows "unat x + unat y < 2 ^ LENGTH('a) \<Longrightarrow> unat (x + y) = unat x + unat y"
  by (simp add: unat_add_lem [THEN iffD1])

lemma unat_diff_le:
  fixes x y :: "'a::len word"
  shows "y \<le> x \<Longrightarrow> unat (x - y) = unat x - unat y"
  by (simp add: unat_sub)

lemma unat_of_nat64: "n < 18446744073709551616 \<Longrightarrow> unat (of_nat n :: u64) = n"
  by (simp add: unat_of_nat)

lemma unat_of_nat32: "n < 4294967296 \<Longrightarrow> unat (of_nat n :: u32) = n"
  by (simp add: unat_of_nat)

lemma word_less_of_nat: "(of_nat i :: u64) < n \<longleftrightarrow> i < unat n" if "i < 18446744073709551616"
  using that by (simp add: word_less_nat_alt unat_of_nat64)

lemma unat_mult_4096:
  "unat (x :: u64) * 4096 < 18446744073709551616 \<Longrightarrow> unat (x * 4096) = unat x * 4096"
  by (simp add: unat_word_ariths)

lemma word_diff_self_add [simp]: "(a + b) - a = (b :: 'a::len word)"
  by simp

lemma eq_base_plus:
  "n < 18446744073709551616 \<Longrightarrow> a = p + of_nat n \<longleftrightarrow> unat (a - p :: u64) = n"
proof
  assume n: "n < 18446744073709551616"
  then show "a = p + of_nat n \<Longrightarrow> unat (a - p) = n"
    by (simp add: unat_of_nat64)
  assume "unat (a - p) = n"
  then have "of_nat n = a - p"
    by (simp only: of_nat_unat_id flip: \<open>unat (a - p) = n\<close>)
  then show "a = p + of_nat n" by simp
qed

lemma of_nat_eq64:
  assumes "i < 18446744073709551616" and "j < 18446744073709551616"
  shows "of_nat i = (of_nat j :: u64) \<longleftrightarrow> i = j"
  using assms by (metis unat_of_nat64)

text \<open>Distinct small offsets from a base give distinct addresses.\<close>

lemma offset_inj:
  fixes p :: u64
  assumes "i < 18446744073709551616" and "j < 18446744073709551616"
  shows "p + of_nat i = p + of_nat j \<longleftrightarrow> i = j"
proof -
  have "of_nat i = (of_nat j :: u64) \<longleftrightarrow> unat (of_nat i :: u64) = unat (of_nat j :: u64)"
    by (simp only: word_unat_eq_iff)
  with assms show ?thesis
    by (simp add: unat_of_nat64)
qed

section \<open>Signed readings of a word\<close>

lemma sint_split: "sint (v :: 'a::len word) = uint v - 2 ^ LENGTH('a) * of_bool (bit v (LENGTH('a) - 1))"
proof -
  have "sint v = signed_take_bit (LENGTH('a) - 1) (uint v)" by (simp add: sint_uint)
  also have "\<dots> = take_bit (LENGTH('a)) (uint v) - 2 ^ LENGTH('a) * of_bool (bit (uint v) (LENGTH('a) - 1))"
    using signed_take_bit_eq_take_bit_minus [of "LENGTH('a) - 1" "uint v"] by simp
  also have "take_bit (LENGTH('a)) (uint v) = uint v"
    by (rule take_bit_int_eq_self) (simp_all add: unsigned_less)
  finally show ?thesis by (simp add: bit_uint_iff)
qed
lemma sint_nonneg: "0 \<le> sint (v :: 'a::len word) \<Longrightarrow> sint v = int (unat v)"
proof (cases "bit v (LENGTH('a) - 1)")
  case True
  have "uint v < 2 ^ LENGTH('a)" by (rule unsigned_less)
  with True have "sint v < 0" by (simp add: sint_split del: unsigned_less)
  then show "0 \<le> sint v \<Longrightarrow> ?thesis" by simp
qed (simp add: sint_split)
lemma sint_neg: "sint (v :: 'a::len word) < 0 \<Longrightarrow> sint v = int (unat v) - 2 ^ LENGTH('a)"
  by (cases "bit v (LENGTH('a) - 1)") (simp_all add: sint_split)
lemma unat_uminus: "v \<noteq> 0 \<Longrightarrow> unat (- v :: u64) = 18446744073709551616 - unat v"
  using unat_diff64 [of 0 v] by (auto simp: unat_eq_zero)
section \<open>The sign extension of an int\<close>

text \<open>The conversion of an \<open>int\<close> to \<open>uint64_t\<close> (or to a pointer offset) extends its sign.\<close>

definition sext :: "i32 \<Rightarrow> u64" where
  "sext i = scast i"

lemma sext_of_nat: "n < 2147483648 \<Longrightarrow> sext (of_nat n) = of_nat n"
proof -
  assume n: "n < 2147483648"
  have "sint (of_nat n :: i32) = int n"
    using n by (simp add: sint_uint take_bit_nat_eq_self unsigned_of_nat
        signed_take_bit_int_eq_self flip: take_bit_of_nat)
  then show ?thesis
    by (simp add: sext_def scast_eq)
qed

lemma sint_of_nat32: "n < 2147483648 \<Longrightarrow> sint (of_nat n :: i32) = int n"
  by (simp add: sint_uint take_bit_nat_eq_self unsigned_of_nat
      signed_take_bit_int_eq_self flip: take_bit_of_nat)

lemma sint_of_int32:
  "- 2147483648 \<le> k \<Longrightarrow> k < 2147483648 \<Longrightarrow> sint (word_of_int k :: i32) = k"
  by (simp add: signed_of_int signed_take_bit_int_eq_self)

lemma sint_u8_small: "c < 128 \<Longrightarrow> sint (c :: u8) = uint c"
proof -
  assume "c < 128"
  then have "uint c < 128" by (simp add: word_less_def)
  moreover have "(- 128 :: int) \<le> uint c"
    by (rule order_trans [OF _ uint_ge_0]) simp
  ultimately have "signed_take_bit 7 (uint c) = uint c"
    by (intro signed_take_bit_int_eq_self) simp_all
  then show ?thesis by (simp add: sint_uint)
qed

section \<open>Counting loops\<close>

text \<open>
  \<open>for (uint64_t i = 0; i < n; i++) body\<close>, where the body does not change \<open>i\<close>.
\<close>

definition for_u64 :: "u64 \<Rightarrow> (u64 \<Rightarrow> 's \<Rightarrow> 's) \<Rightarrow> 's \<Rightarrow> 's" where
  "for_u64 n body s = fold (\<lambda>i. body (of_nat i)) [0..<unat n] s"

text \<open>
  \<open>for (int t = 0; t < n; t++) body\<close> with an unsigned 64-bit bound: the comparison extends
  the sign of \<open>t\<close>, so a counter that wraps to a negative number compares as a huge one.
\<close>

lemma sext_max [simp]: "sext (- 1) = - 1"
  by (simp add: sext_def)

lemma sext_less_not_max: "sext t < n \<Longrightarrow> t \<noteq> - 1"
  using word_order.extremum_strict by fastforce

lemma unat_Suc_not_max: "t \<noteq> - 1 \<Longrightarrow> unat (t + 1 :: 'a::len word) = Suc (unat t)"
  by (metis add.commute unatSuc add_eq_0_iff add.inverse_inverse)

function for_int_from :: "i32 \<Rightarrow> u64 \<Rightarrow> (i32 \<Rightarrow> 's \<Rightarrow> 's) \<Rightarrow> 's \<Rightarrow> 's" where
  "for_int_from t n body s =
     (if sext t < n then for_int_from (t + 1) n body (body t s) else s)"
  by pat_completeness auto
termination
proof (relation "measure (\<lambda>(t, n, body, s). 4294967296 - unat t)")
  fix t :: i32 and n :: u64 and body :: "i32 \<Rightarrow> 's \<Rightarrow> 's" and s
  assume "sext t < n"
  then have "unat (t + 1) = Suc (unat t)"
    by (intro unat_Suc_not_max sext_less_not_max)
  with unat_less_2p32 [of "t + 1"]
  show "((t + 1, n, body, body t s), t, n, body, s)
      \<in> measure (\<lambda>(t, n, body, s). 4294967296 - unat t)"
    by simp
qed simp

declare for_int_from.simps [simp del]

definition for_int :: "u64 \<Rightarrow> (i32 \<Rightarrow> 's \<Rightarrow> 's) \<Rightarrow> 's \<Rightarrow> 's" where
  "for_int n body s = for_int_from 0 n body s"

lemma for_int_from_fold:
  assumes "unat n \<le> 2147483648" and "i \<le> unat n"
  shows "for_int_from (of_nat i) n body s = fold (\<lambda>j. body (of_nat j)) [i..<unat n] s"
  using assms(2)
proof (induction "unat n - i" arbitrary: i s)
  case 0
  then have "i = unat n" by simp
  moreover have "\<not> sext (of_nat (unat n)) < n"
  proof (cases "unat n = 2147483648")
    case True
    then have "sext (of_nat (unat n)) = 0xFFFFFFFF80000000"
      by (simp add: sext_def)
    moreover have "n = 0x80000000"
      using True by (metis of_nat_numeral of_nat_unat_id)
    ultimately show ?thesis by simp
  next
    case False
    with assms(1) have "sext (of_nat (unat n)) = of_nat (unat n)"
      by (intro sext_of_nat) simp
    then show ?thesis by (simp only: of_nat_unat_id)
  qed
  ultimately show ?case by (simp add: for_int_from.simps)
next
  case (Suc k)
  then have i: "i < unat n" by simp
  with assms(1) have "sext (of_nat i) < n"
    by (simp add: sext_of_nat word_less_of_nat)
  moreover have "of_nat i + 1 = (of_nat (Suc i) :: i32)" by simp
  moreover have "for_int_from (of_nat (Suc i)) n body (body (of_nat i) s)
      = fold (\<lambda>j. body (of_nat j)) [Suc i..<unat n] (body (of_nat i) s)"
    using Suc i by (intro Suc.hyps) auto
  ultimately show ?case
    using i by (subst for_int_from.simps) (simp add: upt_conv_Cons add.commute)
qed

lemma for_int_fold:
  "unat n \<le> 2147483648 \<Longrightarrow>
     for_int n body s = fold (\<lambda>i. body (of_nat i)) [0..<unat n] s"
  using for_int_from_fold [of n 0] by (simp add: for_int_def)

text \<open>An invariant that every iteration keeps holds after the loop.\<close>

lemma fold_invariant:
  "P s \<Longrightarrow> (\<And>x s. x \<in> set xs \<Longrightarrow> P s \<Longrightarrow> P (f x s)) \<Longrightarrow> P (fold f xs s)"
  by (induction xs arbitrary: s) auto

lemma for_int_from_invariant:
  "P s \<Longrightarrow> (\<And>t s. P s \<Longrightarrow> P (body t s)) \<Longrightarrow> P (for_int_from t n body s)"
proof (induction t n body s rule: for_int_from.induct)
  case (1 t n body s)
  then show ?case
    by (subst for_int_from.simps) auto
qed

lemma for_int_invariant:
  "P s \<Longrightarrow> (\<And>t s. P s \<Longrightarrow> P (body t s)) \<Longrightarrow> P (for_int n body s)"
  unfolding for_int_def by (rule for_int_from_invariant)

section \<open>Loops that return early\<close>

text \<open>
  The same loop with a body that may return from the function (\<open>Inl\<close>) or go on (\<open>Inr\<close>), and may
  itself not return (\<open>None\<close>).
\<close>

function loop_int_from ::
    "i32 \<Rightarrow> u64 \<Rightarrow> (i32 \<Rightarrow> 's \<Rightarrow> ('r + 's) option) \<Rightarrow> 's \<Rightarrow> ('r + 's) option" where
  "loop_int_from t n body s =
     (if sext t < n
      then (case body t s of
              None \<Rightarrow> None
            | Some (Inl r) \<Rightarrow> Some (Inl r)
            | Some (Inr s) \<Rightarrow> loop_int_from (t + 1) n body s)
      else Some (Inr s))"
  by pat_completeness auto
termination
proof (relation "measure (\<lambda>(t, n, body, s). 4294967296 - unat t)")
  fix t :: i32 and n :: u64 and body :: "i32 \<Rightarrow> 's \<Rightarrow> ('r + 's) option" and s :: 's
    and x :: "'r + 's" and s' :: 's
  assume "sext t < n"
  then have "unat (t + 1) = Suc (unat t)"
    by (intro unat_Suc_not_max sext_less_not_max)
  with unat_less_2p32 [of "t + 1"]
  show "((t + 1, n, body, s'), t, n, body, s)
      \<in> measure (\<lambda>(t, n, body, s). 4294967296 - unat t)"
    by simp
qed simp

declare loop_int_from.simps [simp del]

definition loop_int ::
    "u64 \<Rightarrow> (i32 \<Rightarrow> 's \<Rightarrow> ('r + 's) option) \<Rightarrow> 's \<Rightarrow> ('r + 's) option" where
  "loop_int n body s = loop_int_from 0 n body s"

text \<open>The loop over a list of counters, and the two as one for fewer than \<open>2 ^ 31\<close> rounds.\<close>

fun loop_list :: "'x list \<Rightarrow> ('x \<Rightarrow> 's \<Rightarrow> ('r + 's) option) \<Rightarrow> 's \<Rightarrow> ('r + 's) option" where
  "loop_list [] body s = Some (Inr s)"
| "loop_list (x # xs) body s =
     (case body x s of
        None \<Rightarrow> None
      | Some (Inl r) \<Rightarrow> Some (Inl r)
      | Some (Inr s) \<Rightarrow> loop_list xs body s)"

lemma loop_int_from_list:
  assumes "unat n < 2147483648" and "i \<le> unat n"
  shows "loop_int_from (of_nat i) n body s = loop_list [i..<unat n] (\<lambda>j. body (of_nat j)) s"
  using assms(2)
proof (induction "unat n - i" arbitrary: i s)
  case 0
  then have "i = unat n" by simp
  moreover have "\<not> sext (of_nat (unat n)) < n"
    using sext_of_nat [OF assms(1)] by (simp only: of_nat_unat_id)
  ultimately show ?case by (simp add: loop_int_from.simps)
next
  case (Suc k)
  then have i: "i < unat n" by simp
  with assms(1) have lt: "sext (of_nat i) < n"
    by (simp add: sext_of_nat word_less_of_nat)
  have up: "of_nat i + 1 = (of_nat (Suc i) :: i32)" by simp
  have "loop_int_from (of_nat i + 1) n body s' = loop_list [Suc i..<unat n] (\<lambda>j. body (of_nat j)) s'"
    for s'
    unfolding up using Suc i by (intro Suc.hyps) auto
  then show ?case
    using lt i by (subst loop_int_from.simps) (simp add: upt_conv_Cons split: option.splits sum.splits)
qed

lemma loop_int_list:
  "unat n < 2147483648 \<Longrightarrow> loop_int n body s = loop_list [0..<unat n] (\<lambda>j. body (of_nat j)) s"
  using loop_int_from_list [of n 0] by (simp add: loop_int_def)

end
