(* ===== verification/Memory.thy ===== *)
theory Memory
  imports Prelude
begin

unbundle bit_operations_syntax

text \<open>
  The flat memory of the machine and the routines of \<open>memory/memory.cpp\<close>.  The kernel runs with
  physical memory mapped one to one, so an address is a \<open>u64\<close> and every address holds a byte;
  address arithmetic wraps.  A range \<open>[d, d + n)\<close> holds the address \<open>a\<close> exactly when
  \<open>a - d < n\<close>, in words.
\<close>

type_synonym mem = "u64 \<Rightarrow> u8"

section \<open>Little-endian loads and stores\<close>

fun load_le :: "nat \<Rightarrow> mem \<Rightarrow> u64 \<Rightarrow> 'w::len word" where
  "load_le 0 m a = 0"
| "load_le (Suc k) m a = load_le k m a OR push_bit (8 * k) (ucast (m (a + of_nat k)))"

definition store_le :: "nat \<Rightarrow> u64 \<Rightarrow> 'w::len word \<Rightarrow> mem \<Rightarrow> mem" where
  "store_le k a w m =
     (\<lambda>x. if unat (x - a) < k then ucast (drop_bit (8 * unat (x - a)) w) else m x)"

definition load16 :: "mem \<Rightarrow> u64 \<Rightarrow> u16" where "load16 m a = load_le 2 m a"
definition load32 :: "mem \<Rightarrow> u64 \<Rightarrow> u32" where "load32 m a = load_le 4 m a"
definition load64 :: "mem \<Rightarrow> u64 \<Rightarrow> u64" where "load64 m a = load_le 8 m a"
definition store32 :: "u64 \<Rightarrow> u32 \<Rightarrow> mem \<Rightarrow> mem" where "store32 a w m = store_le 4 a w m"
definition store64 :: "u64 \<Rightarrow> u64 \<Rightarrow> mem \<Rightarrow> mem" where "store64 a w m = store_le 8 a w m"

text \<open>The loads byte by byte, for evaluation.\<close>

lemma load_bytes:
  "load16 m a = ucast (m a) OR push_bit 8 (ucast (m (a + 1)))"
  "load32 m a = ucast (m a) OR push_bit 8 (ucast (m (a + 1))) OR push_bit 16 (ucast (m (a + 2)))
     OR push_bit 24 (ucast (m (a + 3)))"
  "load64 m a = ucast (m a) OR push_bit 8 (ucast (m (a + 1))) OR push_bit 16 (ucast (m (a + 2)))
     OR push_bit 24 (ucast (m (a + 3))) OR push_bit 32 (ucast (m (a + 4)))
     OR push_bit 40 (ucast (m (a + 5))) OR push_bit 48 (ucast (m (a + 6)))
     OR push_bit 56 (ucast (m (a + 7)))"
proof -
  have n: "8 = Suc (Suc (Suc (Suc 4)))" "4 = Suc (Suc 2)" "2 = Suc (Suc 0)" by simp_all
  show "load16 m a = ucast (m a) OR push_bit 8 (ucast (m (a + 1)))"
    unfolding load16_def by (subst n(3), simp only: load_le.simps) simp
  show "load32 m a = ucast (m a) OR push_bit 8 (ucast (m (a + 1))) OR push_bit 16 (ucast (m (a + 2)))
     OR push_bit 24 (ucast (m (a + 3)))"
    unfolding load32_def by (subst n(2), subst n(3), simp only: load_le.simps) (simp add: or.assoc)
  show "load64 m a = ucast (m a) OR push_bit 8 (ucast (m (a + 1))) OR push_bit 16 (ucast (m (a + 2)))
     OR push_bit 24 (ucast (m (a + 3))) OR push_bit 32 (ucast (m (a + 4)))
     OR push_bit 40 (ucast (m (a + 5))) OR push_bit 48 (ucast (m (a + 6)))
     OR push_bit 56 (ucast (m (a + 7)))"
    unfolding load64_def
    by (subst n(1), subst n(2), subst n(3), simp only: load_le.simps) (simp add: or.assoc)
qed

lemma bit_load_le:
  "bit (load_le k m a :: 'w::len word) n \<longleftrightarrow>
     n < 8 * k \<and> n < LENGTH('w) \<and> bit (m (a + of_nat (n div 8))) (n mod 8)"
proof (induction k)
  case 0
  then show ?case by simp
next
  case (Suc k)
  have "8 * k \<le> n \<Longrightarrow> n < 8 * k + 8 \<Longrightarrow> n div 8 = k \<and> n mod 8 = n - 8 * k"
    by (auto simp: div_nat_eqI modulo_nat_def)
  moreover have "bit (b :: u8) (n - 8 * k) \<Longrightarrow> n < 8 * k + 8" for b
    using bit_imp_le_length [of b "n - 8 * k"] by auto
  ultimately show ?case
    by (auto simp: bit_simps Suc)
qed

lemma load_store_le [load_store]:
  "LENGTH('w) \<le> 8 * k \<Longrightarrow> k < 18446744073709551616 \<Longrightarrow>
     load_le k (store_le k a w m) a = (w :: 'w::len word)"
proof (rule bit_word_eqI)
  fix n
  assume "LENGTH('w) \<le> 8 * k" "k < 18446744073709551616" "n < LENGTH('w)"
  then have "n div 8 < k" and "n < 8 * k" by auto
  with \<open>k < _\<close> have "unat (of_nat (n div 8) :: u64) = n div 8"
    by (intro unat_of_nat64) auto
  with \<open>n div 8 < k\<close> \<open>n < 8 * k\<close> \<open>n < LENGTH('w)\<close>
  show "bit (load_le k (store_le k a w m) a :: 'w word) n = bit w n"
    by (simp add: bit_load_le store_le_def bit_simps)
qed

lemma store_le_other [load_store]:
  "k \<le> unat (x - a) \<Longrightarrow> store_le k a w m x = m x"
  by (simp add: store_le_def)

lemma store_le_load:
  "k \<le> 8 \<Longrightarrow> store_le k a (load_le 8 m b :: u64) m' =
     (\<lambda>x. if unat (x - a) < k then m (b + (x - a)) else m' x)"
proof (rule ext)
  fix x
  assume k: "k \<le> 8"
  let ?i = "unat (x - a)"
  have "ucast (drop_bit (8 * ?i) (load_le 8 m b :: u64)) = m (b + (x - a))" if "?i < k"
  proof (rule bit_word_eqI)
    fix n assume n: "n < LENGTH(8)"
    then have "(n + 8 * ?i) div 8 = ?i" "(n + 8 * ?i) mod 8 = n" by simp_all
    then show "bit (ucast (drop_bit (8 * ?i) (load_le 8 m b :: u64)) :: u8) n
        = bit (m (b + (x - a))) n"
      using n that k by (simp add: bit_simps bit_load_le add.commute [of "8 * ?i"])
  qed
  then show "store_le k a (load_le 8 m b :: u64) m' x =
      (if ?i < k then m (b + (x - a)) else m' x)"
    by (simp add: store_le_def)
qed

section \<open>memset\<close>

definition memset :: "u64 \<Rightarrow> u8 \<Rightarrow> u64 \<Rightarrow> mem \<Rightarrow> mem" where
  "memset start v num m = for_u64 num (\<lambda>i m. m(start + i := v)) m"

lemma memset_fold:
  "n < 18446744073709551616 \<Longrightarrow>
     fold (\<lambda>i m. m((start :: u64) + of_nat i := v)) [0..<n] m =
       (\<lambda>a. if unat (a - start) < n then v else m a)"
proof (induction n)
  case 0
  then show ?case by simp
next
  case (Suc n)
  have "a = start + of_nat n \<longleftrightarrow> unat (a - start) = n" for a
    by (rule eq_base_plus) (use Suc.prems in simp)
  with Suc show ?case
    by (auto simp: fun_eq_iff less_Suc_eq)
qed

lemma memset_eq [load_store]:
  "memset start v num m = (\<lambda>a. if a - start < num then v else m a)"
  by (simp add: memset_def for_u64_def memset_fold unat_less_2p64 word_less_nat_alt)

section \<open>memcpy\<close>

text \<open>
  \<open>rep movsq\<close> copies \<open>n >> 3\<close> quad words upwards, \<open>rep movsb\<close> the remaining \<open>n & 7\<close> bytes;
  both advance the two pointers.
\<close>

fun movsq :: "nat \<Rightarrow> u64 \<Rightarrow> u64 \<Rightarrow> mem \<Rightarrow> mem" where
  "movsq 0 d s m = m"
| "movsq (Suc k) d s m = movsq k (d + 8) (s + 8) (store64 d (load64 m s) m)"

fun movsb :: "nat \<Rightarrow> u64 \<Rightarrow> u64 \<Rightarrow> mem \<Rightarrow> mem" where
  "movsb 0 d s m = m"
| "movsb (Suc k) d s m = movsb k (d + 1) (s + 1) (m(d := m s))"

definition memcpy :: "u64 \<Rightarrow> u64 \<Rightarrow> u64 \<Rightarrow> mem \<Rightarrow> mem" where
  "memcpy d s n m =
     (let q = drop_bit 3 n
      in movsb (unat (n AND 7)) (d + 8 * q) (s + 8 * q) (movsq (unat q) d s m))"

text \<open>
  What a copy should do: the range \<open>[d, d + n)\<close> gets the old bytes of \<open>[s, s + n)\<close>.  Copying
  upwards does this unless the destination starts inside the source, after its first byte.
\<close>

definition copied :: "u64 \<Rightarrow> u64 \<Rightarrow> nat \<Rightarrow> mem \<Rightarrow> mem" where
  "copied d s n m = (\<lambda>a. if unat (a - d) < n then m (s + (a - d)) else m a)"

definition forward_ok :: "u64 \<Rightarrow> u64 \<Rightarrow> nat \<Rightarrow> bool" where
  "forward_ok d s n \<longleftrightarrow> unat (s - d) + n \<le> 18446744073709551616"

lemma forward_ok_iff:
  "n \<le> 18446744073709551616 \<Longrightarrow> forward_ok d s n \<longleftrightarrow> d = s \<or> n \<le> unat (d - s)"
proof (cases "d = s")
  case False
  then have "unat d \<noteq> unat s" by (simp add: word_unat_eq_iff)
  then have "unat (s - d) = 18446744073709551616 - unat (d - s)"
    using unat_less_2p64 [of d] unat_less_2p64 [of s] by (simp add: unat_diff64 [of s d] unat_diff64 [of d s], linarith)
  with unat_less_2p64 [of "d - s"] False show ?thesis
    by (auto simp: forward_ok_def)
qed (simp add: forward_ok_def)

lemma unat_shift:
  fixes x d :: u64
  assumes "k \<le> unat (x - d)"
  shows "unat (x - (d + of_nat k)) = unat (x - d) - k"
proof -
  have k: "unat (of_nat k :: u64) = k"
    using assms unat_less_2p64 [of "x - d"] by (intro unat_of_nat64) simp
  have "x - (d + of_nat k) = (x - d) - of_nat k" by (simp add: diff_diff_add)
  then show ?thesis
    using assms by (simp only: unat_diff64 [of "x - d"] k) simp
qed

lemma unat_shift_wrap:
  fixes x d :: u64
  assumes "unat (x - d) < k" and "k + n \<le> 18446744073709551616"
  shows "n \<le> unat (x - (d + of_nat k))"
proof (cases "k = 18446744073709551616")
  case True
  with assms show ?thesis by simp
next
  case False
  with assms(2) have k: "unat (of_nat k :: u64) = k"
    by (intro unat_of_nat64) simp
  have "x - (d + of_nat k) = (x - d) - of_nat k" by (simp add: diff_diff_add)
  then show ?thesis
    using assms by (simp only: unat_diff64 [of "x - d"] k) simp
qed

lemma copied_0 [simp]: "copied d s 0 m = m"
  by (simp add: copied_def)

lemma copied_add:
  assumes "forward_ok d s (k + n)" and "k + n \<le> 18446744073709551616"
  shows "copied (d + of_nat k) (s + of_nat k) n (copied d s k m) = copied d s (k + n) m"
proof (rule ext)
  fix a
  let ?x = "a - d"
  have sum: "s + of_nat k + (a - (d + of_nat k)) = s + (a - d)" by simp
  have src: "\<not> unat (s + (a - d) - d) < k" if "k \<le> unat ?x" "unat ?x < k + n"
  proof -
    have "unat ((s - d) + ?x) = unat (s - d) + unat ?x"
      using that assms(1) by (intro unat_add_small) (simp add: forward_ok_def)
    moreover have "(s - d) + ?x = s + (a - d) - d" by simp
    ultimately show ?thesis using that by simp
  qed
  show "copied (d + of_nat k) (s + of_nat k) n (copied d s k m) a = copied d s (k + n) m a"
  proof (cases "unat ?x < k")
    case True
    with assms(2) have "\<not> unat (a - (d + of_nat k)) < n"
      using unat_shift_wrap [of a d k n] by simp
    with True show ?thesis by (simp add: copied_def)
  next
    case False
    then have "unat (a - (d + of_nat k)) = unat ?x - k"
      by (intro unat_shift) simp
    with False src sum show ?thesis
      by (auto simp: copied_def)
  qed
qed

lemma store64_load64: "store64 d (load64 m s) m = copied d s 8 m"
  by (simp add: store64_def load64_def store_le_load copied_def)

lemma byte_copied: "m(d := m s) = copied d s 1 m"
  by (auto simp: copied_def fun_eq_iff unat_eq_zero)

lemma forward_ok_le: "forward_ok d s n \<Longrightarrow> k \<le> n \<Longrightarrow> forward_ok d s k"
  by (simp add: forward_ok_def)

lemma forward_ok_shift: "forward_ok (d + k) (s + k) n \<longleftrightarrow> forward_ok d s n"
  by (simp add: forward_ok_def)

lemma movsb_copied:
  "forward_ok d s k \<Longrightarrow> k \<le> 18446744073709551616 \<Longrightarrow> movsb k d s m = copied d s k m"
proof (induction k arbitrary: d s m)
  case 0
  then show ?case by simp
next
  case (Suc k)
  have "movsb k (d + 1) (s + 1) (copied d s 1 m)
      = copied (d + 1) (s + 1) k (copied d s 1 m)"
    using Suc.prems by (intro Suc.IH) (auto simp: forward_ok_shift intro: forward_ok_le)
  also have "\<dots> = copied d s (1 + k) m"
    using copied_add [of d s 1 k m] Suc.prems by simp
  finally show ?case by (simp add: byte_copied)
qed

lemma movsq_copied:
  "forward_ok d s (8 * k) \<Longrightarrow> 8 * k \<le> 18446744073709551616 \<Longrightarrow>
     movsq k d s m = copied d s (8 * k) m"
proof (induction k arbitrary: d s m)
  case 0
  then show ?case by simp
next
  case (Suc k)
  have "movsq k (d + 8) (s + 8) (copied d s 8 m)
      = copied (d + 8) (s + 8) (8 * k) (copied d s 8 m)"
    using Suc.prems by (intro Suc.IH) (auto simp: forward_ok_shift intro: forward_ok_le)
  also have "\<dots> = copied d s (8 + 8 * k) m"
    using copied_add [of d s 8 "8 * k" m] Suc.prems by simp
  finally show ?case by (simp add: store64_load64)
qed

lemma unat_split8: "8 * unat (drop_bit 3 n :: u64) + unat (n AND 7) = unat n"
proof -
  have "n AND 7 = take_bit 3 n"
    by (simp add: take_bit_eq_mask mask_eq_exp_minus_1)
  moreover have "unat (n div 8) = unat n div 8" "unat (n mod 8) = unat n mod 8"
    using unat_div [of n 8] unat_mod [of n 8] by simp_all
  ultimately show ?thesis
    by (simp add: drop_bit_eq_div take_bit_eq_mod)
qed

lemma memcpy_eq [load_store]:
  assumes "forward_ok d s (unat n)"
  shows "memcpy d s n m = copied d s (unat n) m"
proof -
  let ?q = "unat (drop_bit 3 n)" and ?r = "unat (n AND 7)"
  have n: "8 * ?q + ?r = unat n" by (rule unat_split8)
  have le: "unat n \<le> 18446744073709551616" using unat_less_2p64 [of n] by simp
  have q: "8 * drop_bit 3 n = (of_nat (8 * ?q) :: u64)" by simp
  have "movsq ?q d s m = copied d s (8 * ?q) m"
    using assms n le by (intro movsq_copied) (auto intro: forward_ok_le)
  moreover have "movsb ?r (d + of_nat (8 * ?q)) (s + of_nat (8 * ?q)) (copied d s (8 * ?q) m)
      = copied (d + of_nat (8 * ?q)) (s + of_nat (8 * ?q)) ?r (copied d s (8 * ?q) m)"
    using assms n le
    by (intro movsb_copied) (auto simp only: forward_ok_shift intro: forward_ok_le)
  moreover have "\<dots> = copied d s (unat n) m"
    using copied_add [of d s "8 * ?q" ?r m] assms n le by simp
  ultimately show ?thesis
    by (simp only: memcpy_def Let_def q)
qed

lemma copied_in:
  "unat i < n \<Longrightarrow> copied d s n m (d + i) = m (s + i)"
  by (simp add: copied_def)

lemma copied_out:
  "n \<le> unat (a - d) \<Longrightarrow> copied d s n m a = m a"
  by (simp add: copied_def)

section \<open>memcmp\<close>

text \<open>The bytes are unsigned; the counter \<open>i\<close> is a \<open>size_t\<close> and stops at \<open>n\<close>.\<close>

fun memcmp_loop :: "mem \<Rightarrow> u64 \<Rightarrow> u64 \<Rightarrow> u64 \<Rightarrow> nat \<Rightarrow> i32" where
  "memcmp_loop m a b i 0 = 0"
| "memcmp_loop m a b i (Suc k) =
     (if m (a + i) < m (b + i) then - 1
      else if m (a + i) > m (b + i) then 1
      else memcmp_loop m a b (i + 1) k)"

definition memcmp :: "mem \<Rightarrow> u64 \<Rightarrow> u64 \<Rightarrow> u64 \<Rightarrow> i32" where
  "memcmp m a b n = memcmp_loop m a b 0 (unat n)"

definition bytes_at :: "mem \<Rightarrow> u64 \<Rightarrow> nat \<Rightarrow> u8 list" where
  "bytes_at m a n = map (\<lambda>i. m (a + of_nat i)) [0..<n]"

lemma length_bytes_at [simp]: "length (bytes_at m a n) = n"
  by (simp add: bytes_at_def)

lemma nth_bytes_at [simp]: "i < n \<Longrightarrow> bytes_at m a n ! i = m (a + of_nat i)"
  by (simp add: bytes_at_def)

lemma bytes_at_0 [simp]: "bytes_at m a 0 = []"
  by (simp add: bytes_at_def)

lemma bytes_at_Suc: "bytes_at m a (Suc n) = m a # bytes_at m (a + 1) n"
  by (rule nth_equalityI) (auto simp: nth_Cons algebra_simps split: nat.splits)

lemma memcmp_loop_sign:
  "memcmp_loop m a b i k =
     (let xs = bytes_at m (a + i) k; ys = bytes_at m (b + i) k
      in if xs = ys then 0 else if (xs, ys) \<in> lexord {(x, y). x < y} then - 1 else 1)"
proof (induction k arbitrary: i)
  case 0
  then show ?case by simp
next
  case (Suc k)
  then show ?case
    by (auto simp: bytes_at_Suc Let_def add.assoc)
qed

text \<open>\<open>memcmp\<close> is the lexicographic order of the two ranges as unsigned bytes.\<close>

lemma memcmp_order:
  "memcmp m a b n =
     (if bytes_at m a (unat n) = bytes_at m b (unat n) then 0
      else if (bytes_at m a (unat n), bytes_at m b (unat n)) \<in> lexord {(x, y). x < y}
      then - 1 else 1)"
  by (simp add: memcmp_def memcmp_loop_sign Let_def)

lemma memcmp_zero: "memcmp m a b n = 0 \<longleftrightarrow> bytes_at m a (unat n) = bytes_at m b (unat n)"
  by (simp add: memcmp_order)

text \<open>The copy, seen byte by byte.\<close>

lemma unat_past: "unat k \<le> unat (a - d) \<Longrightarrow> unat (a - (d + k)) = unat (a - d) - unat k" for a :: u64
  by (simp add: diff_diff_eq [symmetric] unat_sub word_le_nat_alt)

lemma movsq_frame: "8 * k \<le> unat (a - d) \<Longrightarrow> movsq k d s m a = m a"
proof (induction k arbitrary: d s m)
  case (Suc k)
  then show ?case using unat_past [of 8 a d] by (simp add: store64_def store_le_other)
qed simp

lemma movsb_frame: "k \<le> unat (a - d) \<Longrightarrow> movsb k d s m a = m a"
proof (induction k arbitrary: d s m)
  case (Suc k)
  then have "a \<noteq> d" by auto
  then show ?case using Suc unat_past [of 1 a d] by simp
qed simp

lemma memcpy_frame:
  assumes "unat n \<le> unat (a - d)"
  shows "memcpy d s n m a = m a"
proof -
  let ?q = "drop_bit 3 n"
  have n: "8 * unat ?q + unat (n AND 7) = unat n" by (rule unat_split8)
  then have q: "unat (8 * ?q) = 8 * unat ?q"
    using unat_less_2p64 [of n] by (subst unat_mult_lem [THEN iffD1]) simp_all
  have "unat (n AND 7) \<le> unat (a - (d + 8 * ?q))" using unat_past [of "8 * ?q" a d] n q assms by simp
  then show ?thesis using n assms by (simp add: memcpy_def Let_def movsb_frame movsq_frame)
qed

lemma memcpy_bytes:
  assumes "d = s \<or> unat n \<le> unat (d - s)"
  shows "bytes_at (memcpy d s n m) d (unat n) = bytes_at m s (unat n)"
proof -
  have "unat (of_nat i :: u64) = i" if "i < unat n" for i
    using that unat_less_2p64 [of n] by (intro unat_of_nat64) simp
  then show ?thesis
    using assms unat_less_2p64 [of n] by (simp add: memcpy_eq forward_ok_iff bytes_at_def copied_in)
qed

section \<open>Properties\<close>

text \<open>
  C27: \<open>memcpy\<close> copies \<open>n\<close> bytes and nothing else whenever the destination does not start
  inside the source range behind its first byte; overlap towards lower addresses is allowed.
  The quadword part of the copy and the byte part together are one copy of \<open>n\<close> bytes.
\<close>

theorem memcpy_copies:
  assumes "d = s \<or> unat n \<le> unat (d - s)"
  shows "bytes_at (memcpy d s n m) d (unat n) = bytes_at m s (unat n) \<and>
    (\<forall>a. memcpy d s n m a \<noteq> m a \<longrightarrow> unat (a - d) < unat n)"
  using memcpy_bytes [OF assms] memcpy_frame by (metis linorder_not_less)

theorem memcpy_copies_witness:
  "bytes_at (memcpy 0x1000 0x1004 19 (\<lambda>a. ucast a)) 0x1000 (unat (19 :: u64)) =
     bytes_at (\<lambda>a. ucast a) 0x1004 (unat (19 :: u64))"
  using memcpy_copies [of "0x1000" "0x1004" 19 "\<lambda>a. ucast a"] by simp

lemma load64_store64_same [simp]: "load64 (store64 a w m) a = w"
  by (simp add: load64_def store64_def load_store_le)

lemma load_le_cong:
  "(\<And>i. i < k \<Longrightarrow> m (a + of_nat i) = m' (a + of_nat i)) \<Longrightarrow> load_le k m a = load_le k m' a"
  by (induction k) auto

lemma load64_cong:
  "(\<And>i. i < 8 \<Longrightarrow> m (a + of_nat i) = m' (a + of_nat i)) \<Longrightarrow> load64 m a = load64 m' a"
  unfolding load64_def by (rule load_le_cong)

end
