(* ===== verification/BitmapModel.thy ===== *)
theory BitmapModel
  imports Prelude
begin

unbundle bit_operations_syntax

text \<open>
  \<open>misc/bitmap/bitmap.cpp\<close>: a bit per index, the most significant bit of a byte first.
  \<open>Buffer\<close> is a pointer into flat memory, so the model gives a byte at every offset; the bytes
  from offset \<open>Size\<close> on are whatever lies behind the buffer.
\<close>

record bitmap =
  Size :: u64
  Buffer :: "u64 \<Rightarrow> u8"

text \<open>The literal \<open>0b10000000\<close>.\<close>

definition top_bit :: "'a::len word" where
  "top_bit = 128"

definition Get :: "bitmap \<Rightarrow> u64 \<Rightarrow> bool" where
  "Get B index =
     (if index > Size B * 8 then False
      else Buffer B (index div 8) AND drop_bit (unat (index mod 8)) top_bit > 0)"

text \<open>
  The masks are \<open>int\<close>s: \<open>~0b10000000 >> k\<close> is the arithmetic shift of the complement, and the
  result is cut to a byte when it is stored.
\<close>

definition Set :: "bitmap \<Rightarrow> u64 \<Rightarrow> bool \<Rightarrow> bool \<times> bitmap" where
  "Set B index v =
     (if index > Size B * 8 then (False, B)
      else
        let k = unat (index mod 8);
            b = Buffer B (index div 8);
            b = ucast ((ucast b :: i32) AND signed_drop_bit k (NOT top_bit));
            b = (if v then ucast ((ucast b :: i32) OR drop_bit k top_bit) else b)
        in (True, B\<lparr>Buffer := (Buffer B)(index div 8 := b)\<rparr>))"

section \<open>The masks\<close>

lemma bit_top_bit: "bit (top_bit :: 'a::len word) n \<longleftrightarrow> n = 7 \<and> 7 < LENGTH('a)"
proof -
  have m: "(top_bit :: 'a word) = push_bit 7 1" by (simp add: top_bit_def)
  show ?thesis unfolding m by (simp only: bit_push_bit_iff bit_1_iff) auto
qed

text \<open>The bit of a byte that holds the index.\<close>

definition page_bit :: "bitmap \<Rightarrow> u64 \<Rightarrow> bool" where
  "page_bit B index = bit (Buffer B (index div 8)) (7 - unat (index mod 8))"

lemma unat_mod_8: "unat (index mod 8 :: u64) < 8"
  by (simp add: unat_mod)

lemma and_mask_pos:
  assumes "k < 8"
  shows "(b :: u8) AND drop_bit k top_bit > 0 \<longleftrightarrow> bit b (7 - k)"
proof -
  have "b AND drop_bit k top_bit \<noteq> 0 \<longleftrightarrow> (\<exists>n < 8. bit b n \<and> k + n = 7)"
    by (auto simp: bit_eq_iff bit_and_iff bit_drop_bit_eq bit_top_bit)
  also have "\<dots> \<longleftrightarrow> bit b (7 - k)"
  proof -
    have "k + n = 7 \<longleftrightarrow> n = 7 - k" for n using assms by arith
    then show ?thesis by simp (auto dest: bit_imp_le_length)
  qed
  finally show ?thesis
    by (simp add: word_neq_0_conv)
qed

lemma set_byte_bit:
  assumes "k < 8" and "n < 8"
  shows "bit (ucast ((ucast (b :: u8) :: i32) AND signed_drop_bit k (NOT top_bit)) :: u8) n
           \<longleftrightarrow> n \<noteq> 7 - k \<and> bit b n"
    and "bit (ucast ((ucast (b :: u8) :: i32) OR drop_bit k top_bit) :: u8) n
           \<longleftrightarrow> n = 7 - k \<or> bit b n"
  using assms
  by (auto simp: bit_unsigned_iff bit_and_iff bit_or_iff bit_signed_drop_bit_iff bit_not_iff
      bit_drop_bit_eq bit_top_bit)

lemma same_byte_bit:
  "index div 8 = index' div 8 \<Longrightarrow> 7 - unat (index mod 8) = 7 - unat (index' mod 8) \<Longrightarrow>
     index = (index' :: u64)"
proof -
  assume d: "index div 8 = index' div 8" and "7 - unat (index mod 8) = 7 - unat (index' mod 8)"
  then have "unat (index mod 8) = unat (index' mod 8)"
    using unat_mod_8 [of index] unat_mod_8 [of index'] by linarith
  then have "index mod 8 = index' mod 8" by (simp only: word_unat_eq_iff)
  with d show ?thesis by (metis div_mult_mod_eq)
qed

lemma Get_page_bit: "Get B index \<longleftrightarrow> index \<le> Size B * 8 \<and> page_bit B index"
  by (auto simp: Get_def page_bit_def and_mask_pos unat_mod_8)

lemma Set_fst: "fst (Set B index v) \<longleftrightarrow> index \<le> Size B * 8"
  by (auto simp: Set_def Let_def)

lemma Set_Size [simp]: "Size (snd (Set B index v)) = Size B"
  by (simp add: Set_def Let_def)

text \<open>\<open>Set\<close> changes the one bit of its index, whatever the other bits of the byte.\<close>

lemma page_bit_Set:
  assumes "index \<le> Size B * 8"
  shows "page_bit (snd (Set B index v)) = (page_bit B)(index := v)"
proof (rule ext)
  fix i :: u64
  let ?k = "unat (index mod 8)" and ?n = "7 - unat (i mod 8)"
  have lt: "?k < 8" "?n < 8" using unat_mod_8 [of index] by simp_all
  show "page_bit (snd (Set B index v)) i = ((page_bit B)(index := v)) i"
  proof (cases "i div 8 = index div 8")
    case True
    have "i = index \<longleftrightarrow> ?n = 7 - ?k"
      using True same_byte_bit by blast
    with True assms lt show ?thesis
      by (simp add: page_bit_def Set_def Let_def set_byte_bit leD)
  next
    case False
    then show ?thesis
      by (simp add: page_bit_def Set_def Let_def) auto
  qed
qed

section \<open>The interface\<close>

text \<open>
  What the users of a bit set rely on: \<open>get\<close> reads what \<open>set\<close> last wrote at a valid index, and
  an invalid index reads as clear and is refused by \<open>set\<close>.
\<close>

locale bit_set =
  fixes get :: "'b \<Rightarrow> u64 \<Rightarrow> bool"
    and put :: "'b \<Rightarrow> u64 \<Rightarrow> bool \<Rightarrow> bool \<times> 'b"
    and valid :: "'b \<Rightarrow> u64 \<Rightarrow> bool"
  assumes put_ok: "fst (put b i v) = valid b i"
    and put_refused: "\<not> valid b i \<Longrightarrow> snd (put b i v) = b"
    and valid_put: "valid (snd (put b i v)) = valid b"
    and get_put: "valid b i \<Longrightarrow> get (snd (put b i v)) j = (if j = i then v else get b j)"
    and get_invalid: "\<not> valid b i \<Longrightarrow> \<not> get b i"
begin

definition members :: "'b \<Rightarrow> u64 set" where
  "members b = {i. get b i}"

lemma members_put_True: "valid b i \<Longrightarrow> members (snd (put b i True)) = insert i (members b)"
  by (auto simp: members_def get_put)

lemma members_put_False: "members (snd (put b i False)) = members b - {i}"
proof (cases "valid b i")
  case True
  then show ?thesis by (auto simp: members_def get_put)
next
  case False
  then show ?thesis using get_invalid [of b i] by (auto simp: members_def put_refused)
qed

lemma finite_members: "finite (members b)"
  by (rule finite)

lemma card_put_True:
  "valid b i \<Longrightarrow> \<not> get b i \<Longrightarrow> card (members (snd (put b i True))) = Suc (card (members b))"
  by (simp add: members_put_True finite_members) (simp add: members_def)

lemma card_put_False:
  "get b i \<Longrightarrow> Suc (card (members (snd (put b i False)))) = card (members b)"
proof -
  assume "get b i"
  then have "i \<in> members b" by (simp add: members_def)
  then have "0 < card (members b)"
    using finite_members by (auto simp: card_gt_0_iff)
  with \<open>i \<in> members b\<close> show ?thesis
    by (simp add: members_put_False card_Diff_singleton)
qed

end

definition valid_index :: "bitmap \<Rightarrow> u64 \<Rightarrow> bool" where
  "valid_index B index \<longleftrightarrow> index \<le> Size B * 8"

interpretation bm: bit_set Get Set valid_index
proof unfold_locales
  fix b i v j
  show "fst (Set b i v) = valid_index b i"
    by (simp add: Set_fst valid_index_def)
  show "\<not> valid_index b i \<Longrightarrow> snd (Set b i v) = b"
    by (simp add: Set_def valid_index_def)
  show "valid_index (snd (Set b i v)) = valid_index b"
    by (simp add: valid_index_def fun_eq_iff)
  show "valid_index b i \<Longrightarrow> Get (snd (Set b i v)) j = (if j = i then v else Get b j)"
    by (simp add: Get_page_bit valid_index_def page_bit_Set)
  show "\<not> valid_index b i \<Longrightarrow> \<not> Get b i"
    by (simp add: Get_page_bit valid_index_def)
qed

text \<open>
  C19: \<open>Set\<close> succeeds exactly for an index up to and including \<open>Size * 8\<close>, one more than the
  buffer holds, and then \<open>Get\<close> reads the value at that index and every other bit as before;
  a refused \<open>Set\<close> changes nothing.
\<close>

theorem bitmap_get_set:
  "fst (Set B i v) = (i \<le> Size B * 8) \<and>
   Get (snd (Set B i v)) j = (if i \<le> Size B * 8 \<and> j = i then v else Get B j) \<and>
   Size (snd (Set B i v)) = Size B"
  using bm.get_put [of B i v j] bm.put_refused [of B i v]
  by (cases "i \<le> Size B * 8") (simp_all add: Set_fst valid_index_def)

end
