(* ===== verification/PageFrameAllocator.thy ===== *)
theory PageFrameAllocator
  imports Memory BitmapModel
begin

unbundle bit_operations_syntax

text \<open>
  The physical page allocator, \<open>memory/pfa.cpp\<close>, with \<open>GetMemorySize\<close> of \<open>memory/memory.cpp\<close>.
  The state holds the bitmap, the address of its buffer, the three byte counters, the search
  hint \<open>pageBitmapIndex\<close> and the static variable of \<open>GetMemorySize\<close>.

  The bitmap lives in the page frames it describes.  Its bytes are kept in the bitmap record
  rather than in the flat memory: nothing else in the kernel writes to those frames, which
  \<open>ReadEFIMemoryMap\<close> locks.
\<close>

record pfa =
  PageBitmap :: bitmap
  BitmapBuffer :: u64          \<comment> \<open>the pointer \<open>PageBitmap.Buffer\<close>\<close>
  freeMemory :: u64
  reservedMemory :: u64
  usedMemory :: u64
  pageBitmapIndex :: u64
  memorySizeBytes :: u64       \<comment> \<open>the static variable of \<open>GetMemorySize\<close>\<close>

section \<open>Single pages\<close>

definition FreePage :: "u64 \<Rightarrow> pfa \<Rightarrow> pfa" where
  "FreePage address p =
     (let index = address div 4096
      in if \<not> Get (PageBitmap p) index then p
         else
           let (ok, b) = Set (PageBitmap p) index False;
               p = p\<lparr>PageBitmap := b\<rparr>
           in if ok
              then
                let p = p\<lparr>freeMemory := freeMemory p + 4096, usedMemory := usedMemory p - 4096\<rparr>
                in if pageBitmapIndex p > index then p\<lparr>pageBitmapIndex := index\<rparr> else p
              else p)"

definition LockPage :: "u64 \<Rightarrow> pfa \<Rightarrow> pfa" where
  "LockPage address p =
     (let index = address div 4096
      in if Get (PageBitmap p) index then p
         else
           let (ok, b) = Set (PageBitmap p) index True;
               p = p\<lparr>PageBitmap := b\<rparr>
           in if ok
              then p\<lparr>freeMemory := freeMemory p - 4096, usedMemory := usedMemory p + 4096\<rparr>
              else p)"

definition UnreservePage :: "u64 \<Rightarrow> pfa \<Rightarrow> pfa" where
  "UnreservePage address p =
     (let index = address div 4096
      in if \<not> Get (PageBitmap p) index then p
         else
           let (ok, b) = Set (PageBitmap p) index False;
               p = p\<lparr>PageBitmap := b\<rparr>
           in if ok
              then
                let p = p\<lparr>freeMemory := freeMemory p + 4096,
                          reservedMemory := reservedMemory p - 4096\<rparr>
                in if pageBitmapIndex p > index then p\<lparr>pageBitmapIndex := index\<rparr> else p
              else p)"

definition ReservePage :: "u64 \<Rightarrow> pfa \<Rightarrow> pfa" where
  "ReservePage address p =
     (let index = address div 4096
      in if Get (PageBitmap p) index then p
         else
           let (ok, b) = Set (PageBitmap p) index True;
               p = p\<lparr>PageBitmap := b\<rparr>
           in if ok
              then p\<lparr>freeMemory := freeMemory p - 4096,
                     reservedMemory := reservedMemory p + 4096\<rparr>
              else p)"

section \<open>Ranges of pages\<close>

text \<open>The counter \<open>t\<close> is an \<open>int\<close>, so \<open>t * 4096\<close> is computed in 32 bits.\<close>

definition FreePages :: "u64 \<Rightarrow> u64 \<Rightarrow> pfa \<Rightarrow> pfa" where
  "FreePages address pageCount p =
     for_int pageCount (\<lambda>t. FreePage (address + sext (t * 4096))) p"

definition LockPages :: "u64 \<Rightarrow> u64 \<Rightarrow> pfa \<Rightarrow> pfa" where
  "LockPages address pageCount p =
     for_int pageCount (\<lambda>t. LockPage (address + sext (t * 4096))) p"

definition UnreservePages :: "u64 \<Rightarrow> u64 \<Rightarrow> pfa \<Rightarrow> pfa" where
  "UnreservePages address pageCount p =
     for_int pageCount (\<lambda>t. UnreservePage (address + sext (t * 4096))) p"

definition ReservePages :: "u64 \<Rightarrow> u64 \<Rightarrow> pfa \<Rightarrow> pfa" where
  "ReservePages address pageCount p =
     for_int pageCount (\<lambda>t. ReservePage (address + sext (t * 4096))) p"

section \<open>Requests\<close>

function RequestPage :: "pfa \<Rightarrow> (u64 \<times> pfa) result" where
  "RequestPage p =
     (if pageBitmapIndex p < Size (PageBitmap p) * 8
      then if Get (PageBitmap p) (pageBitmapIndex p)
           then RequestPage (p\<lparr>pageBitmapIndex := pageBitmapIndex p + 1\<rparr>)
           else Inr (pageBitmapIndex p * 4096, LockPage (pageBitmapIndex p * 4096) p)
      else Inl OutOfMemory)"
  by pat_completeness auto

lemma word_less_not_max: "x < (y :: u64) \<Longrightarrow> x \<noteq> - 1"
  using word_order.extremum_strict by fastforce

lemma unat_Suc_less: "x < (y :: u64) \<Longrightarrow> unat (x + 1) = Suc (unat x)"
  by (intro unat_Suc_not_max word_less_not_max)

termination RequestPage
proof (relation "measure (\<lambda>p. 18446744073709551616 - unat (pageBitmapIndex p))")
  fix p :: pfa
  assume "pageBitmapIndex p < Size (PageBitmap p) * 8"
  then show "(p\<lparr>pageBitmapIndex := pageBitmapIndex p + 1\<rparr>, p)
      \<in> measure (\<lambda>p. 18446744073709551616 - unat (pageBitmapIndex p))"
    using unat_less_2p64 [of "pageBitmapIndex p + 1"] by (simp add: unat_Suc_less)
qed simp

declare RequestPage.simps [simp del]

text \<open>The inner loop of \<open>RequestPages\<close>: the first taken page of the candidate range, if any.\<close>

fun first_taken :: "bitmap \<Rightarrow> u64 \<Rightarrow> u64 \<Rightarrow> nat \<Rightarrow> u64 option" where
  "first_taken B index j 0 = None"
| "first_taken B index j (Suc k) =
     (if Get B (index + j) then Some j else first_taken B index (j + 1) k)"

partial_function (option) RequestPages :: "u64 \<Rightarrow> pfa \<Rightarrow> (u64 \<times> pfa) option" where
  "RequestPages pages p =
     (if pageBitmapIndex p < Size (PageBitmap p)
      then case first_taken (PageBitmap p) (pageBitmapIndex p) 0 (unat pages) of
             Some j \<Rightarrow> RequestPages pages (p\<lparr>pageBitmapIndex := pageBitmapIndex p + (j + 1)\<rparr>)
           | None \<Rightarrow>
               let page = pageBitmapIndex p * 4096;
                   p = p\<lparr>pageBitmapIndex := pageBitmapIndex p + pages\<rparr>
               in Some (page, LockPages page pages p)
      else Some (0, p))"

definition GetFreeRAM :: "pfa \<Rightarrow> u64" where "GetFreeRAM p = freeMemory p"
definition GetUsedRAM :: "pfa \<Rightarrow> u64" where "GetUsedRAM p = usedMemory p"
definition GetReservedRAM :: "pfa \<Rightarrow> u64" where "GetReservedRAM p = reservedMemory p"

section \<open>The memory map of the firmware\<close>

record efi_desc =
  dtype :: u32
  physAddr :: u64
  virtAddr :: u64
  numPages :: u64
  attribs :: u64

definition read_desc :: "mem \<Rightarrow> u64 \<Rightarrow> efi_desc" where
  "read_desc m a = \<lparr>dtype = load32 m a, physAddr = load64 m (a + 8),
     virtAddr = load64 m (a + 16), numPages = load64 m (a + 24), attribs = load64 m (a + 32)\<rparr>"

definition GetMemorySize :: "mem \<Rightarrow> u64 \<Rightarrow> u64 \<Rightarrow> u64 \<Rightarrow> pfa \<Rightarrow> u64 \<times> pfa" where
  "GetMemorySize m mMap mMapEntries mMapDescSize p =
     (if memorySizeBytes p > 0 then (memorySizeBytes p, p)
      else
        let size' = for_int mMapEntries
              (\<lambda>i s. s + numPages (read_desc m (mMap + sext i * mMapDescSize)) * 4096)
              (memorySizeBytes p)
        in (size', p\<lparr>memorySizeBytes := size'\<rparr>))"

definition InitBitmap :: "mem \<Rightarrow> u64 \<Rightarrow> u64 \<Rightarrow> pfa \<Rightarrow> pfa" where
  "InitBitmap m bitmapSize bufferAddress p =
     p\<lparr>PageBitmap := \<lparr>Size = bitmapSize,
           Buffer = (\<lambda>i. memset bufferAddress 0 bitmapSize m (bufferAddress + i))\<rparr>,
       BitmapBuffer := bufferAddress\<rparr>"

text \<open>The first loop: the largest segment of conventional memory (type 7), as address and size.\<close>

definition largest_free :: "mem \<Rightarrow> u64 \<Rightarrow> u64 \<Rightarrow> u64 \<Rightarrow> u64 \<times> u64" where
  "largest_free m mMap mMapEntries mMapDescSize =
     for_int mMapEntries
       (\<lambda>i (seg, size').
         let desc = read_desc m (mMap + sext i * mMapDescSize)
         in if dtype desc = 7 \<and> numPages desc * 4096 > size'
            then (physAddr desc, numPages desc * 4096) else (seg, size'))
       (0, 0)"

definition unreserve_free :: "mem \<Rightarrow> u64 \<Rightarrow> u64 \<Rightarrow> u64 \<Rightarrow> pfa \<Rightarrow> pfa" where
  "unreserve_free m mMap mMapEntries mMapDescSize p =
     for_int mMapEntries
       (\<lambda>i p.
         let desc = read_desc m (mMap + sext i * mMapDescSize)
         in if dtype desc = 7 then UnreservePages (physAddr desc) (numPages desc) p else p) p"

definition ReadEFIMemoryMap :: "mem \<Rightarrow> u64 \<Rightarrow> u64 \<Rightarrow> u64 \<Rightarrow> pfa \<Rightarrow> pfa result" where
  "ReadEFIMemoryMap m mMap mMapSize mMapDescSize p =
     (if mMapDescSize = 0 then Inl DivideError
      else
        let mMapEntries = mMapSize div mMapDescSize;
            (largestFreeMemSeg, largestFreeMemSegSize) =
              largest_free m mMap mMapEntries mMapDescSize;
            (memorySize, p) = GetMemorySize m mMap mMapEntries mMapDescSize p;
            p = p\<lparr>freeMemory := memorySize\<rparr>;
            bitmapSize = memorySize div 4096 div 8 + 1;
            p = InitBitmap m bitmapSize largestFreeMemSeg p;
            p = ReservePages largestFreeMemSeg ((memorySize div 4096 div 8 + 1) div 4096) p;
            p = ReservePages 0 (memorySize div 4096 + 1) p;
            p = unreserve_free m mMap mMapEntries mMapDescSize p;
            p = ReservePages 0 0x100 p
        in Inr (LockPages (BitmapBuffer p) (Size (PageBitmap p) div 4096 + 1) p))"

section \<open>Pages taken\<close>

definition taken :: "pfa \<Rightarrow> u64 set" where
  "taken p = bm.members (PageBitmap p)"

abbreviation last_index :: "pfa \<Rightarrow> u64" where
  "last_index p \<equiv> Size (PageBitmap p) * 8"

lemma Get_taken: "Get (PageBitmap p) i \<longleftrightarrow> i \<in> taken p"
  by (simp add: taken_def bm.members_def)

lemma taken_le: "i \<in> taken p \<Longrightarrow> i \<le> last_index p"
  by (auto simp: taken_def bm.members_def Get_page_bit)

text \<open>Each operation without the refused case of \<open>Set\<close>, which leaves the state as it is.\<close>

lemma LockPage_eq:
  "LockPage a p =
     (let i = a div 4096
      in if i \<in> taken p \<or> last_index p < i then p
         else p\<lparr>PageBitmap := snd (Set (PageBitmap p) i True),
                freeMemory := freeMemory p - 4096, usedMemory := usedMemory p + 4096\<rparr>)"
  by (simp add: LockPage_def Let_def case_prod_unfold Set_fst Get_taken bm.put_refused
      valid_index_def not_less)

lemma ReservePage_eq:
  "ReservePage a p =
     (let i = a div 4096
      in if i \<in> taken p \<or> last_index p < i then p
         else p\<lparr>PageBitmap := snd (Set (PageBitmap p) i True),
                freeMemory := freeMemory p - 4096, reservedMemory := reservedMemory p + 4096\<rparr>)"
  by (simp add: ReservePage_def Let_def case_prod_unfold Set_fst Get_taken bm.put_refused
      valid_index_def not_less)

lemma FreePage_eq:
  "FreePage a p =
     (let i = a div 4096
      in if i \<notin> taken p then p
         else p\<lparr>PageBitmap := snd (Set (PageBitmap p) i False),
                freeMemory := freeMemory p + 4096, usedMemory := usedMemory p - 4096,
                pageBitmapIndex := min (pageBitmapIndex p) i\<rparr>)"
  using taken_le [of "a div 4096" p]
  by (auto simp: FreePage_def Let_def case_prod_unfold Set_fst Get_taken min_def not_less)

lemma UnreservePage_eq:
  "UnreservePage a p =
     (let i = a div 4096
      in if i \<notin> taken p then p
         else p\<lparr>PageBitmap := snd (Set (PageBitmap p) i False),
                freeMemory := freeMemory p + 4096, reservedMemory := reservedMemory p - 4096,
                pageBitmapIndex := min (pageBitmapIndex p) i\<rparr>)"
  using taken_le [of "a div 4096" p]
  by (auto simp: UnreservePage_def Let_def case_prod_unfold Set_fst Get_taken min_def not_less)

lemmas page_op_eqs = LockPage_eq ReservePage_eq FreePage_eq UnreservePage_eq

lemma taken_update:
  "i \<le> last_index p \<Longrightarrow> bm.members (snd (Set (PageBitmap p) i True)) = insert i (taken p)"
  "bm.members (snd (Set (PageBitmap p) i False)) = taken p - {i}"
  by (simp_all add: taken_def bm.members_put_True valid_index_def bm.members_put_False)

lemma taken_LockPage:
  "taken (LockPage a p) = taken p \<union> ({a div 4096} \<inter> {..last_index p})"
  and taken_ReservePage:
  "taken (ReservePage a p) = taken p \<union> ({a div 4096} \<inter> {..last_index p})"
  and taken_FreePage: "taken (FreePage a p) = taken p - {a div 4096}"
  and taken_UnreservePage: "taken (UnreservePage a p) = taken p - {a div 4096}"
  by (auto simp: page_op_eqs Let_def taken_update not_less taken_def [of "_\<lparr>PageBitmap := _\<rparr>"]
      taken_def [of "pfa.more_update _ _"] dest: taken_le) (auto simp: taken_def taken_update)

lemma last_index_ops [simp, frame]:
  "Size (PageBitmap (LockPage a p)) = Size (PageBitmap p)"
  "Size (PageBitmap (ReservePage a p)) = Size (PageBitmap p)"
  "Size (PageBitmap (FreePage a p)) = Size (PageBitmap p)"
  "Size (PageBitmap (UnreservePage a p)) = Size (PageBitmap p)"
  by (simp_all add: page_op_eqs Let_def)

lemma index_ops [frame]:
  "pageBitmapIndex (LockPage a p) = pageBitmapIndex p"
  "pageBitmapIndex (ReservePage a p) = pageBitmapIndex p"
  by (simp_all add: page_op_eqs Let_def)

section \<open>The counters\<close>

text \<open>
  Every taken page is accounted for: \<open>T\<close> is the total, \<open>J\<close> what was marked before counting
  began (all modulo \<open>2 ^ 64\<close>, as the counters are).
\<close>

definition accounted :: "u64 \<Rightarrow> u64 \<Rightarrow> pfa \<Rightarrow> bool" where
  "accounted T J p \<longleftrightarrow>
     freeMemory p = T - 4096 * of_nat (card (taken p)) \<and>
     usedMemory p + reservedMemory p = 4096 * of_nat (card (taken p)) - J"

lemma card_remove_taken:
  "i \<in> taken p \<Longrightarrow> (of_nat (card (taken p - {i})) :: u64) = of_nat (card (taken p)) - 1"
  by (metis (no_types, lifting) add_diff_cancel_left' card_Suc_Diff1 finite of_nat_Suc)

lemma page_op_counters:
  fixes a :: u64
  defines "i \<equiv> a div 4096"
  shows "i \<notin> taken p \<Longrightarrow> i \<le> last_index p \<Longrightarrow>
      freeMemory (LockPage a p) = freeMemory p - 4096 \<and>
      usedMemory (LockPage a p) = usedMemory p + 4096 \<and>
      reservedMemory (LockPage a p) = reservedMemory p"
    and "i \<notin> taken p \<Longrightarrow> i \<le> last_index p \<Longrightarrow>
      freeMemory (ReservePage a p) = freeMemory p - 4096 \<and>
      usedMemory (ReservePage a p) = usedMemory p \<and>
      reservedMemory (ReservePage a p) = reservedMemory p + 4096"
    and "i \<in> taken p \<Longrightarrow>
      freeMemory (FreePage a p) = freeMemory p + 4096 \<and>
      usedMemory (FreePage a p) = usedMemory p - 4096 \<and>
      reservedMemory (FreePage a p) = reservedMemory p"
    and "i \<in> taken p \<Longrightarrow>
      freeMemory (UnreservePage a p) = freeMemory p + 4096 \<and>
      usedMemory (UnreservePage a p) = usedMemory p \<and>
      reservedMemory (UnreservePage a p) = reservedMemory p - 4096"
  by (simp_all add: page_op_eqs Let_def i_def leD)

lemma page_op_same:
  "a div 4096 \<in> taken p \<or> last_index p < a div 4096 \<Longrightarrow> LockPage a p = p"
  "a div 4096 \<in> taken p \<or> last_index p < a div 4096 \<Longrightarrow> ReservePage a p = p"
  "a div 4096 \<notin> taken p \<Longrightarrow> FreePage a p = p"
  "a div 4096 \<notin> taken p \<Longrightarrow> UnreservePage a p = p"
  by (simp_all add: page_op_eqs Let_def)

lemma accounted_insert:
  assumes "accounted T J p" and "i \<notin> taken p" and "taken q = insert i (taken p)"
    and "freeMemory q = freeMemory p - 4096"
    and "usedMemory q + reservedMemory q = usedMemory p + reservedMemory p + 4096"
  shows "accounted T J q"
proof -
  have c: "(of_nat (card (taken q)) :: u64) = of_nat (card (taken p)) + 1"
    using assms(2,3) by simp
  have f: "freeMemory p = T - 4096 * of_nat (card (taken p))"
    and u: "usedMemory p + reservedMemory p = 4096 * of_nat (card (taken p)) - J"
    using assms(1) by (simp_all add: accounted_def)
  show ?thesis
    unfolding accounted_def c assms(4,5) f u by (simp add: algebra_simps)
qed

lemma accounted_remove:
  assumes "accounted T J p" and "i \<in> taken p" and "taken q = taken p - {i}"
    and "freeMemory q = freeMemory p + 4096"
    and "usedMemory q + reservedMemory q = usedMemory p + reservedMemory p - 4096"
  shows "accounted T J q"
proof -
  have c: "(of_nat (card (taken q)) :: u64) = of_nat (card (taken p)) - 1"
    using assms(2,3) by (simp only: card_remove_taken)
  have f: "freeMemory p = T - 4096 * of_nat (card (taken p))"
    and u: "usedMemory p + reservedMemory p = 4096 * of_nat (card (taken p)) - J"
    using assms(1) by (simp_all add: accounted_def)
  show ?thesis
    unfolding accounted_def c assms(4,5) f u by (simp add: algebra_simps)
qed

lemma accounted_LockPage: "accounted T J p \<Longrightarrow> accounted T J (LockPage a p)"
proof (cases "a div 4096 \<in> taken p \<or> last_index p < a div 4096")
  case False
  then have i: "a div 4096 \<notin> taken p" "a div 4096 \<le> last_index p" by auto
  assume "accounted T J p"
  then show ?thesis
    using page_op_counters(1) [OF i] i taken_LockPage [of a p]
    by (auto intro: accounted_insert)
qed (simp add: page_op_same)

lemma accounted_ReservePage: "accounted T J p \<Longrightarrow> accounted T J (ReservePage a p)"
proof (cases "a div 4096 \<in> taken p \<or> last_index p < a div 4096")
  case False
  then have i: "a div 4096 \<notin> taken p" "a div 4096 \<le> last_index p" by auto
  assume "accounted T J p"
  then show ?thesis
    using page_op_counters(2) [OF i] i taken_ReservePage [of a p]
    by (auto intro: accounted_insert)
qed (simp add: page_op_same)

lemma accounted_FreePage: "accounted T J p \<Longrightarrow> accounted T J (FreePage a p)"
proof (cases "a div 4096 \<in> taken p")
  case True
  assume "accounted T J p"
  then show ?thesis
    using page_op_counters(3) [OF True] True
    by (auto intro: accounted_remove simp: taken_FreePage)
qed (simp add: page_op_same)

lemma accounted_UnreservePage: "accounted T J p \<Longrightarrow> accounted T J (UnreservePage a p)"
proof (cases "a div 4096 \<in> taken p")
  case True
  assume "accounted T J p"
  then show ?thesis
    using page_op_counters(4) [OF True] True
    by (auto intro: accounted_remove simp: taken_UnreservePage)
qed (simp add: page_op_same)

lemma accounted_ranges:
  assumes "accounted T J p"
  shows "accounted T J (LockPages a n p)" "accounted T J (ReservePages a n p)"
    "accounted T J (FreePages a n p)" "accounted T J (UnreservePages a n p)"
  unfolding LockPages_def ReservePages_def FreePages_def UnreservePages_def
  using assms
  by (auto intro!: for_int_invariant [where P = "accounted T J"] accounted_LockPage
      accounted_ReservePage accounted_FreePage accounted_UnreservePage)

lemma accounted_index [simp]: "accounted T J (p\<lparr>pageBitmapIndex := i\<rparr>) = accounted T J p"
  by (simp add: accounted_def taken_def)

section \<open>Ranges of pages\<close>

text \<open>
  The pages of a range, and the ranges whose loop counter stays clear of the overflow of
  \<open>t * 4096\<close>: at most \<open>2 ^ 19\<close> pages, two gigabytes.
\<close>

definition page_range :: "u64 \<Rightarrow> u64 \<Rightarrow> u64 set" where
  "page_range a n = {i. unat a div 4096 \<le> unat i \<and> unat i < unat a div 4096 + unat n}"

definition int_range :: "u64 \<Rightarrow> u64 \<Rightarrow> bool" where
  "int_range a n \<longleftrightarrow> unat n \<le> 524288 \<and> unat a + 4096 * unat n \<le> 18446744073709551616"

lemma page_of_counter:
  assumes "int_range a n" and "t < unat n"
  shows "unat ((a + sext (of_nat t * 4096)) div 4096) = unat a div 4096 + t"
proof -
  have t: "t * 4096 < 2147483648" using assms by (simp add: int_range_def)
  have "of_nat t * 4096 = (of_nat (t * 4096) :: i32)" by simp
  then have s: "sext (of_nat t * 4096) = of_nat (t * 4096)"
    using sext_of_nat [OF t] by simp
  have "unat a + t * 4096 < 18446744073709551616"
    using assms by (simp add: int_range_def)
  moreover have "unat (of_nat (t * 4096) :: u64) = t * 4096"
    using t by (intro unat_of_nat64) simp
  ultimately have "unat (a + of_nat (t * 4096)) = unat a + t * 4096"
    by (subst unat_add_small) simp_all
  then show ?thesis
    by (simp add: s unat_div)
qed

lemma less_Suc_range:
  "{i :: u64. x \<le> unat i \<and> unat i < x + Suc k} = {i. x \<le> unat i \<and> unat i < x + k} \<union> {i. unat i = x + k}"
  by auto

lemma range_taken:
  assumes taken: "\<And>a p. taken (f a p) = (if add then taken p \<union> ({a div 4096} \<inter> {..last_index p})
                                        else taken p - {a div 4096})"
    and sz: "\<And>a p. Size (PageBitmap (f a p)) = Size (PageBitmap p)"
    and fits: "int_range a n"
  shows "taken (for_int n (\<lambda>t. f (a + sext (t * 4096))) p) =
          (if add then taken p \<union> (page_range a n \<inter> {..last_index p}) else taken p - page_range a n)
       \<and> Size (PageBitmap (for_int n (\<lambda>t. f (a + sext (t * 4096))) p)) = Size (PageBitmap p)"
proof -
  let ?P = "\<lambda>k. {i :: u64. unat a div 4096 \<le> unat i \<and> unat i < unat a div 4096 + k}"
  have "taken (fold (\<lambda>t. f (a + sext (of_nat t * 4096))) [0..<k] p) =
          (if add then taken p \<union> (?P k \<inter> {..last_index p}) else taken p - ?P k)
       \<and> Size (PageBitmap (fold (\<lambda>t. f (a + sext (of_nat t * 4096))) [0..<k] p)) = Size (PageBitmap p)"
    if "k \<le> unat n" for k
    using that
  proof (induction k)
    case 0
    then show ?case by auto
  next
    case (Suc k)
    let ?i = "(a + sext (of_nat k * 4096)) div 4096"
    have i: "unat ?i = unat a div 4096 + k"
      using fits Suc.prems by (intro page_of_counter) auto
    then have "{i. unat i = unat a div 4096 + k} = {?i}"
      by (auto simp: word_unat_eq_iff)
    then have step: "?P (Suc k) = ?P k \<union> {?i}"
      by (simp only: less_Suc_range)
    show ?case
      using Suc.IH Suc.prems unfolding step by (auto simp: taken sz)
  qed
  from this [of "unat n"] show ?thesis
    using fits by (simp add: for_int_fold int_range_def page_range_def)
qed

lemma taken_ranges:
  assumes "int_range a n"
  shows taken_LockPages: "taken (LockPages a n p) = taken p \<union> (page_range a n \<inter> {..last_index p})"
    and taken_ReservePages: "taken (ReservePages a n p) = taken p \<union> (page_range a n \<inter> {..last_index p})"
    and taken_FreePages: "taken (FreePages a n p) = taken p - page_range a n"
    and taken_UnreservePages: "taken (UnreservePages a n p) = taken p - page_range a n"
  using range_taken [of LockPage True a n p] range_taken [of ReservePage True a n p]
    range_taken [of FreePage False a n p] range_taken [of UnreservePage False a n p] assms
  by (simp_all add: LockPages_def ReservePages_def FreePages_def UnreservePages_def taken_LockPage
      taken_ReservePage taken_FreePage taken_UnreservePage)

lemma Size_ranges [simp, frame]:
  "Size (PageBitmap (LockPages a n p)) = Size (PageBitmap p)"
  "Size (PageBitmap (ReservePages a n p)) = Size (PageBitmap p)"
  "Size (PageBitmap (FreePages a n p)) = Size (PageBitmap p)"
  "Size (PageBitmap (UnreservePages a n p)) = Size (PageBitmap p)"
  unfolding LockPages_def ReservePages_def FreePages_def UnreservePages_def
  by (rule for_int_invariant [where P = "\<lambda>q. Size (PageBitmap q) = Size (PageBitmap p)"]; simp)+

lemma index_ranges [simp, frame]:
  "pageBitmapIndex (LockPages a n p) = pageBitmapIndex p"
  "pageBitmapIndex (ReservePages a n p) = pageBitmapIndex p"
  unfolding LockPages_def ReservePages_def
  by (rule for_int_invariant [where P = "\<lambda>q. pageBitmapIndex q = pageBitmapIndex p"];
      simp add: index_ops)+

section \<open>RequestPage\<close>

lemma taken_index [simp]: "taken (p\<lparr>pageBitmapIndex := i\<rparr>) = taken p"
  by (simp add: taken_def)

lemma LockPage_index:
  "LockPage a (p\<lparr>pageBitmapIndex := i\<rparr>) = (LockPage a p)\<lparr>pageBitmapIndex := i\<rparr>"
  by (simp add: LockPage_eq Let_def)

lemma index_id: "pageBitmapIndex q = i \<Longrightarrow> q\<lparr>pageBitmapIndex := i\<rparr> = q"
  by (cases q) simp

text \<open>The search stops at the first free index from the hint on, or runs out.\<close>

lemma RequestPage_Inr:
  "RequestPage p = Inr (pg, p') \<Longrightarrow>
     \<exists>i. pageBitmapIndex p \<le> i \<and> i < last_index p \<and> i \<notin> taken p \<and> pg = i * 4096 \<and>
         (\<forall>j. pageBitmapIndex p \<le> j \<longrightarrow> j < i \<longrightarrow> j \<in> taken p) \<and>
         p' = (LockPage (i * 4096) p)\<lparr>pageBitmapIndex := i\<rparr>"
proof (induction p rule: RequestPage.induct)
  case (1 p)
  let ?i = "pageBitmapIndex p" and ?q = "p\<lparr>pageBitmapIndex := pageBitmapIndex p + 1\<rparr>"
  have lt: "?i < last_index p"
    using "1.prems" by (auto simp: RequestPage.simps [of p] split: if_splits)
  show ?case
  proof (cases "?i \<in> taken p")
    case True
    with lt "1.prems" have "RequestPage ?q = Inr (pg, p')"
      by (simp add: RequestPage.simps [of p] Get_taken)
    with "1.IH" lt True obtain i where i: "?i + 1 \<le> i" "i < last_index p" "i \<notin> taken p"
        "pg = i * 4096" "\<forall>j. ?i + 1 \<le> j \<longrightarrow> j < i \<longrightarrow> j \<in> taken p"
        "p' = (LockPage (i * 4096) p)\<lparr>pageBitmapIndex := i\<rparr>"
      by (auto simp: Get_taken LockPage_index)
    have step: "?i \<le> j \<longleftrightarrow> j = ?i \<or> ?i + 1 \<le> j" for j
      using unat_Suc_less [OF lt] by (auto simp: word_le_nat_alt word_unat_eq_iff)
    with i True show ?thesis by auto
  next
    case False
    with lt "1.prems" have pg: "pg = ?i * 4096" and p': "p' = LockPage (?i * 4096) p"
      by (auto simp: RequestPage.simps [of p] Get_taken)
    show ?thesis
      unfolding pg p' using lt False
      by (intro exI [of _ ?i]) (auto simp: index_ops(1) index_id)
  qed
qed

lemma RequestPage_Inl:
  "RequestPage p = Inl e \<Longrightarrow>
     e = OutOfMemory \<and> (\<forall>j. pageBitmapIndex p \<le> j \<longrightarrow> j < last_index p \<longrightarrow> j \<in> taken p)"
proof (induction p rule: RequestPage.induct)
  case (1 p)
  let ?i = "pageBitmapIndex p" and ?q = "p\<lparr>pageBitmapIndex := pageBitmapIndex p + 1\<rparr>"
  show ?case
  proof (cases "?i < last_index p")
    case True
    with "1.prems" have "?i \<in> taken p" and q: "RequestPage ?q = Inl e"
      by (auto simp: RequestPage.simps [of p] Get_taken split: if_splits)
    have step: "?i \<le> j \<longleftrightarrow> j = ?i \<or> ?i + 1 \<le> j" for j
      using unat_Suc_less [OF True] by (auto simp: word_le_nat_alt word_unat_eq_iff)
    from "1.IH" True \<open>?i \<in> taken p\<close> q
    have "e = OutOfMemory" "\<forall>j. ?i + 1 \<le> j \<longrightarrow> j < last_index p \<longrightarrow> j \<in> taken p"
      by (auto simp: Get_taken)
    with step \<open>?i \<in> taken p\<close> show ?thesis by auto
  next
    case False
    with "1.prems" show ?thesis
      by (auto simp: RequestPage.simps [of p])
  qed
qed


section \<open>The search hint\<close>

text \<open>Every page below the hint is taken, so that the search need not look there.\<close>

definition hint_ok :: "pfa \<Rightarrow> bool" where
  "hint_ok p \<longleftrightarrow> (\<forall>j < pageBitmapIndex p. j \<in> taken p)"

lemma index_frees:
  "pageBitmapIndex (FreePage a p) =
     (if a div 4096 \<in> taken p then min (pageBitmapIndex p) (a div 4096) else pageBitmapIndex p)"
  "pageBitmapIndex (UnreservePage a p) =
     (if a div 4096 \<in> taken p then min (pageBitmapIndex p) (a div 4096) else pageBitmapIndex p)"
  by (simp_all add: page_op_eqs Let_def)

lemma hint_ok_ops:
  assumes "hint_ok p"
  shows "hint_ok (LockPage a p)" "hint_ok (ReservePage a p)"
    "hint_ok (FreePage a p)" "hint_ok (UnreservePage a p)"
  using assms
  by (auto simp: hint_ok_def index_ops index_frees taken_LockPage taken_ReservePage
      taken_FreePage taken_UnreservePage)

lemma hint_ok_ranges:
  assumes "hint_ok p"
  shows "hint_ok (LockPages a n p)" "hint_ok (ReservePages a n p)"
    "hint_ok (FreePages a n p)" "hint_ok (UnreservePages a n p)"
  unfolding LockPages_def ReservePages_def FreePages_def UnreservePages_def
  using assms by (auto intro!: for_int_invariant [where P = hint_ok] hint_ok_ops)

text \<open>The pages a bitmap of this size describes have addresses below \<open>2 ^ 64\<close>.\<close>

definition addressable :: "pfa \<Rightarrow> bool" where
  "addressable p \<longleftrightarrow> unat (Size (PageBitmap p)) \<le> 562949953421311"

lemma unat_last_index: "addressable p \<Longrightarrow> unat (last_index p) = unat (Size (PageBitmap p)) * 8"
  unfolding addressable_def by (subst unat_mult_lem [THEN iffD1]) auto

lemma index_address:
  assumes "addressable p" and "i \<le> last_index p"
  shows "i * 4096 div 4096 = i" and "unat (i * 4096) = unat i * 4096"
proof -
  have "unat i \<le> 4503599627370488"
    using assms unat_last_index [of p] by (auto simp: word_le_nat_alt addressable_def)
  then show u: "unat (i * 4096) = unat i * 4096"
    by (subst unat_mult_lem [THEN iffD1]) auto
  show "i * 4096 div 4096 = i"
    by (rule word_unat_eq_iff [THEN iffD2]) (simp add: unat_div u)
qed

lemma RequestPage_fresh:
  assumes "addressable p" and "RequestPage p = Inr (pg, p')"
  shows "pg div 4096 \<notin> taken p" "unat pg mod 4096 = 0" "pg div 4096 < last_index p"
    "taken p' = insert (pg div 4096) (taken p)"
    "last_index p' = last_index p"
    "hint_ok p \<Longrightarrow> hint_ok p'" "accounted T J p \<Longrightarrow> accounted T J p'"
proof -
  from RequestPage_Inr [OF assms(2)] obtain i where i: "i < last_index p" "i \<notin> taken p"
      "pg = i * 4096" "\<forall>j. pageBitmapIndex p \<le> j \<longrightarrow> j < i \<longrightarrow> j \<in> taken p"
      "p' = (LockPage (i * 4096) p)\<lparr>pageBitmapIndex := i\<rparr>" "pageBitmapIndex p \<le> i" by blast
  have ad: "i * 4096 div 4096 = i" "unat (i * 4096) = unat i * 4096"
    using index_address [of p i] assms(1) i(1) by auto
  show "pg div 4096 \<notin> taken p" "pg div 4096 < last_index p" using i ad by auto
  show "unat pg mod 4096 = 0" using i(3) ad(2) by simp
  show t: "taken p' = insert (pg div 4096) (taken p)"
    using i ad by (auto simp: taken_LockPage)
  show "last_index p' = last_index p" using i by simp
  show "hint_ok p \<Longrightarrow> hint_ok p'"
    using i(4) unfolding hint_ok_def t by (simp add: i(5)) (meson linorder_not_le)
  show "accounted T J p \<Longrightarrow> accounted T J p'"
    using i by (simp add: accounted_LockPage)
qed

lemma RequestPage_exhausted:
  assumes "hint_ok p"
  shows "RequestPage p = Inl OutOfMemory \<longleftrightarrow> {..<last_index p} \<subseteq> taken p"
proof
  assume "RequestPage p = Inl OutOfMemory"
  from RequestPage_Inl [OF this] assms show "{..<last_index p} \<subseteq> taken p"
    by (auto simp: hint_ok_def) (meson linorder_not_le)
next
  assume sub: "{..<last_index p} \<subseteq> taken p"
  show "RequestPage p = Inl OutOfMemory"
  proof (cases "RequestPage p")
    case (Inl e)
    then show ?thesis using RequestPage_Inl by blast
  next
    case (Inr x)
    then obtain pg p' where "RequestPage p = Inr (pg, p')" by (cases x) auto
    from RequestPage_Inr [OF this] sub show ?thesis by blast
  qed
qed

lemma addressable_cong:
  "Size (PageBitmap q) = Size (PageBitmap p) \<Longrightarrow> addressable p \<Longrightarrow> addressable q"
  by (simp add: addressable_def)


section \<open>RequestPages\<close>

lemma all_from_Suc:
  "(\<forall>l. j \<le> l \<and> l < j + Suc k \<longrightarrow> P l) \<longleftrightarrow>
     P j \<and> (\<forall>l. Suc j \<le> l \<and> l < Suc j + k \<longrightarrow> P l)"
proof -
  have "j \<le> l \<and> l < j + Suc k \<longleftrightarrow> l = j \<or> Suc j \<le> l \<and> l < Suc j + k" for l by auto
  then show ?thesis by auto
qed

lemma first_taken_None:
  "first_taken B i (of_nat j) k = None \<longleftrightarrow> (\<forall>l. j \<le> l \<and> l < j + k \<longrightarrow> \<not> Get B (i + of_nat l))"
proof (induction k arbitrary: j)
  case 0
  then show ?case by auto
next
  case (Suc k)
  have "of_nat j + 1 = (of_nat (Suc j) :: u64)" by simp
  with Suc.IH [of "Suc j"] show ?case
    by (subst all_from_Suc) (simp del: of_nat_Suc)
qed

lemma first_taken_Some:
  "first_taken B i (of_nat j) k = Some x \<Longrightarrow>
     \<exists>l. j \<le> l \<and> l < j + k \<and> x = of_nat l \<and> Get B (i + x) \<and>
       (\<forall>l'. j \<le> l' \<and> l' < l \<longrightarrow> \<not> Get B (i + of_nat l'))"
proof (induction k arbitrary: j)
  case 0
  then show ?case by simp
next
  case (Suc k)
  have j: "of_nat j + 1 = (of_nat (Suc j) :: u64)" by simp
  show ?case
  proof (cases "Get B (i + of_nat j)")
    case True
    with Suc.prems show ?thesis by (intro exI [of _ j]) auto
  next
    case False
    with Suc.prems j have "first_taken B i (of_nat (Suc j)) k = Some x" by simp
    from Suc.IH [OF this] obtain l where l: "Suc j \<le> l" "l < Suc j + k" "x = of_nat l"
        "Get B (i + x)" "\<forall>l'. Suc j \<le> l' \<and> l' < l \<longrightarrow> \<not> Get B (i + of_nat l')" by blast
    have "\<not> Get B (i + of_nat l')" if "j \<le> l'" "l' < l" for l'
      using that l(5) False by (cases "l' = j") auto
    with l show ?thesis by (intro exI [of _ l]) auto
  qed
qed

text \<open>
  What a call with fewer than \<open>2 ^ 62\<close> pages does: it returns; the page it gives is the first of
  \<open>pages\<close> free ones, of index below \<open>Size\<close>, a number of bytes; or it gives the null pointer.
\<close>

definition pages_spec :: "u64 \<Rightarrow> pfa \<Rightarrow> u64 \<times> pfa \<Rightarrow> bool" where
  "pages_spec pages p = (\<lambda>(page, p').
     (\<exists>i. page = i * 4096 \<and> pageBitmapIndex p \<le> i \<and> i < Size (PageBitmap p) \<and>
        (\<forall>k < unat pages. i + of_nat k \<notin> taken p) \<and>
        p' = LockPages page pages (p\<lparr>pageBitmapIndex := i + pages\<rparr>))
     \<or> (\<exists>i \<ge> Size (PageBitmap p). page = 0 \<and> p' = p\<lparr>pageBitmapIndex := i\<rparr>))"

lemma RequestPages_spec:
  assumes "addressable p" and "unat pages \<le> 4611686018427387904"
  shows "\<exists>r. RequestPages pages p = Some r \<and> pages_spec pages p r"
  using assms(1)
proof (induction "unat (Size (PageBitmap p)) - unat (pageBitmapIndex p)" arbitrary: p
    rule: less_induct)
  case less
  let ?i = "pageBitmapIndex p" and ?B = "PageBitmap p"
  show ?case
  proof (cases "?i < Size ?B")
    case False
    then have "RequestPages pages p = Some (0, p)" by (simp add: RequestPages.simps [of _ p])
    moreover have "p = p\<lparr>pageBitmapIndex := ?i\<rparr>" by (simp add: index_id)
    ultimately show ?thesis
      using False by (auto simp: pages_spec_def not_less intro!: exI [of _ ?i])
  next
    case True
    then have lt: "unat ?i < unat (Size ?B)" by (simp add: word_less_nat_alt)
    show ?thesis
    proof (cases "first_taken ?B ?i 0 (unat pages)")
      case None
      with True have r: "RequestPages pages p =
          Some (?i * 4096, LockPages (?i * 4096) pages (p\<lparr>pageBitmapIndex := ?i + pages\<rparr>))"
        by (simp add: RequestPages.simps [of _ p] Let_def)
      from None first_taken_None [of ?B ?i 0 "unat pages"]
      have "\<forall>k < unat pages. ?i + of_nat k \<notin> taken p" by (simp add: Get_taken)
      with True r show ?thesis by (auto simp: pages_spec_def)
    next
      case (Some x)
      then obtain l where l: "l < unat pages" "x = of_nat l"
        using first_taken_Some [of ?B ?i 0 "unat pages" x] by auto
      let ?q = "p\<lparr>pageBitmapIndex := ?i + (x + 1)\<rparr>"
      have r: "RequestPages pages p = RequestPages pages ?q"
        using True Some by (simp add: RequestPages.simps [of _ p])
      have "unat (of_nat (l + 1) :: u64) = l + 1"
        using l assms(2) by (intro unat_of_nat64) simp
      then have x: "unat (x + 1) = l + 1" using l by (simp add: add.commute)
      have i': "unat (?i + (x + 1)) = unat ?i + (l + 1)"
        using lt less.prems l(1) assms(2) x
        by (subst unat_add_small) (simp_all add: addressable_def)
      have "unat (Size (PageBitmap ?q)) - unat (pageBitmapIndex ?q)
          < unat (Size ?B) - unat ?i"
        using lt i' by simp
      moreover have "addressable ?q" using less.prems by (simp add: addressable_def)
      ultimately obtain r' where r': "RequestPages pages ?q = Some r'" "pages_spec pages ?q r'"
        using less.hyps by blast
      have le: "?i \<le> ?i + (x + 1)" using i' by (simp add: word_le_nat_alt)
      obtain pg p' where pr: "r' = (pg, p')" by (cases r')
      from r'(2) have "pages_spec pages p r'"
      proof (unfold pages_spec_def pr prod.case, elim disjE exE conjE, goal_cases)
        case (1 i)
        with le show ?case
          by (intro disjI1 exI [of _ i]) (auto intro: order_trans simp: taken_def)
      next
        case (2 i)
        then show ?case by (intro disjI2 exI [of _ i]) simp
      qed
      with r r'(1) show ?thesis by simp
    qed
  qed
qed

section \<open>Ranges past two gigabytes\<close>

text \<open>
  From the counter \<open>2 ^ 19\<close> on the product \<open>t * 4096\<close> is negative, and the address it gives
  lies in the last two gigabytes of the address space.
\<close>

lemma sext_neg_pages:
  assumes "524288 \<le> t" and "t < 1048576"
  shows "unat (sext (of_nat t * 4096)) = 18446744069414584320 + t * 4096"
proof -
  have t: "t * 4096 < 4294967296" "2147483648 \<le> t * 4096" using assms by simp_all
  have "of_nat t * 4096 = (of_nat (t * 4096) :: i32)" by simp
  moreover have "unat (of_nat (t * 4096) :: i32) = t * 4096"
    using t by (intro unat_of_nat32) simp
  ultimately have u: "unat (of_nat t * 4096 :: i32) = t * 4096" by (simp only:)
  have "\<not> 0 \<le> sint (of_nat t * 4096 :: i32)"
  proof
    assume "0 \<le> sint (of_nat t * 4096 :: i32)"
    from sint_nonneg [OF this] have "sint (of_nat t * 4096 :: i32) = int (t * 4096)"
      by (simp only: u)
    with t(2) sint_lt [of "of_nat t * 4096 :: i32"] show False by simp
  qed
  then have "sint (of_nat t * 4096 :: i32) = int (t * 4096) - 4294967296"
    using sint_neg [of "of_nat t * 4096 :: i32"] unfolding u by simp
  moreover have "sext (of_nat t * 4096) = of_int (sint (of_nat t * 4096 :: i32))"
    unfolding sext_def by (rule of_int_sint [symmetric])
  ultimately have "sext (of_nat t * 4096) = word_of_int (int (t * 4096) - 4294967296)"
    by (simp only:)
  also have "\<dots> = of_nat (18446744069414584320 + t * 4096)"
  proof -
    have n: "(18446744069414584320 :: u64) = - 4294967296" by simp
    show ?thesis
      by (simp only: of_int_diff of_int_of_nat_eq of_nat_add of_int_numeral of_nat_numeral n)
         (simp only: diff_conv_add_uminus add.commute)
  qed
  finally show ?thesis using t by (simp add: unat_of_nat64 del: of_nat_add)
qed

lemma wrapped_page:
  assumes "524288 \<le> t" and "t < 1048576"
  shows "4503599626846208 \<le> unat ((0 + sext (of_nat t * 4096)) div 4096)"
  using sext_neg_pages [OF assms] assms by (simp add: unat_div)

lemma fold_LockPage_wrapped:
  assumes "k \<le> unat n" and "unat n \<le> 1048576" and "unat (Size (PageBitmap p)) \<le> 1099511627776"
  shows "taken (fold (\<lambda>t. LockPage (0 + sext (of_nat t * 4096))) [0..<k] p) =
           taken p \<union> {i. unat i < k \<and> unat i < 524288 \<and> i \<le> last_index p} \<and>
         Size (PageBitmap (fold (\<lambda>t. LockPage (0 + sext (of_nat t * 4096))) [0..<k] p)) =
           Size (PageBitmap p)"
  using assms(1)
proof (induction k)
  case 0
  then show ?case by simp
next
  case (Suc k)
  let ?i = "(0 + sext (of_nat k * 4096)) div 4096 :: u64"
  have last: "unat (last_index p) \<le> 8796093022208"
    using assms(3) unat_last_index [of p] by (simp add: addressable_def)
  have "{i. unat i < Suc k \<and> unat i < 524288 \<and> i \<le> last_index p} =
        {i. unat i < k \<and> unat i < 524288 \<and> i \<le> last_index p} \<union> ({?i} \<inter> {..last_index p})"
  proof (cases "k < 524288")
    case True
    then have "unat ?i = k"
      using page_of_counter [of 0 "524288" k] by (simp add: int_range_def)
    then show ?thesis
      using True by (auto simp: less_Suc_eq word_unat_eq_iff)
  next
    case False
    then have "4503599626846208 \<le> unat ?i"
      using Suc.prems assms(2) by (intro wrapped_page) auto
    with last have "\<not> ?i \<le> last_index p" by (simp add: word_le_nat_alt)
    with False show ?thesis by auto
  qed
  with Suc show ?case by (auto simp: taken_LockPage)
qed

section \<open>Properties\<close>

text \<open>
  C7: Locking, reserving, freeing and unreserving pages, one or a range of any length, keeps the
  counters in step with the bitmap: every page that becomes taken or free moves 4096 bytes out
  of or into \<open>freeMemory\<close>, and the sum of the three counters never changes.
\<close>

theorem page_counters_follow_bitmap:
  "\<forall>q \<in> {LockPage a p, ReservePage a p, FreePage a p, UnreservePage a p,
          LockPages a n p, ReservePages a n p, FreePages a n p, UnreservePages a n p}.
     freeMemory q + 4096 * of_nat (card (taken q)) =
       freeMemory p + 4096 * of_nat (card (taken p)) \<and>
     freeMemory q + usedMemory q + reservedMemory q =
       freeMemory p + usedMemory p + reservedMemory p"
proof -
  define T where "T = freeMemory p + 4096 * of_nat (card (taken p))"
  define J where "J = 4096 * of_nat (card (taken p)) - (usedMemory p + reservedMemory p)"
  have p: "accounted T J p" by (simp add: accounted_def T_def J_def)
  have "freeMemory q + 4096 * of_nat (card (taken q)) = T \<and>
      freeMemory q + usedMemory q + reservedMemory q =
      freeMemory p + usedMemory p + reservedMemory p" if "accounted T J q" for q
    using that p by (auto simp: accounted_def add.assoc)
  moreover have "\<forall>q \<in> {LockPage a p, ReservePage a p, FreePage a p, UnreservePage a p,
      LockPages a n p, ReservePages a n p, FreePages a n p, UnreservePages a n p}. accounted T J q"
    using p by (simp add: accounted_LockPage accounted_ReservePage accounted_FreePage
        accounted_UnreservePage accounted_ranges)
  ultimately show ?thesis
    unfolding T_def [symmetric] by (meson ballI bspec)
qed

definition some_pages :: pfa where
  "some_pages = \<lparr>PageBitmap = \<lparr>Size = 1, Buffer = (\<lambda>i. 0xB0)\<rparr>, BitmapBuffer = 0,
     freeMemory = 0, reservedMemory = 0, usedMemory = 0, pageBitmapIndex = 1, memorySizeBytes = 0\<rparr>"

theorem page_counters_follow_bitmap_witness:
  "freeMemory (LockPage 0x1000 some_pages) + 4096 * of_nat (card (taken (LockPage 0x1000 some_pages)))
     = 4096 * of_nat (card (taken some_pages))"
  using page_counters_follow_bitmap [of "0x1000" some_pages 1] by (simp add: some_pages_def)

lemma some_pages_ok: "addressable some_pages" "hint_ok some_pages"
proof -
  show "addressable some_pages" by (simp add: addressable_def some_pages_def)
  have "0 \<in> taken some_pages"
    unfolding Get_taken [symmetric] by (simp add: some_pages_def Get_def top_bit_def)
  moreover have "j < pageBitmapIndex some_pages \<Longrightarrow> j = 0" for j
    by (simp add: some_pages_def word_less_1)
  ultimately show "hint_ok some_pages" by (auto simp: hint_ok_def)
qed

text \<open>
  C4: With a sound search hint \<open>RequestPage\<close> is first fit: it takes the lowest free page, which
  no earlier call has handed out, marks exactly that page, and leaves the hint sound; it reports
  that memory is exhausted exactly when every page of the bitmap is taken.
\<close>

theorem RequestPage_first_fit:
  assumes "addressable p" and "hint_ok p"
  shows "case RequestPage p of
      Inl e \<Rightarrow> e = OutOfMemory \<and> {..<Size (PageBitmap p) * 8} \<subseteq> taken p
    | Inr (pg, p') \<Rightarrow> (\<exists>i < Size (PageBitmap p) * 8. unat pg = 4096 * unat i \<and> i \<notin> taken p \<and>
        (\<forall>j < i. j \<in> taken p) \<and> taken p' = insert i (taken p) \<and> hint_ok p' \<and>
        freeMemory p' = freeMemory p - 4096 \<and> usedMemory p' = usedMemory p + 4096)"
proof (cases "RequestPage p")
  case (Inl e)
  with RequestPage_Inl [OF Inl] RequestPage_exhausted [OF assms(2)] show ?thesis by simp
next
  case (Inr x)
  then obtain pg p' where x: "RequestPage p = Inr (pg, p')" by (cases x) auto
  from RequestPage_Inr [OF x] obtain i where i: "i < last_index p" "i \<notin> taken p"
      "pg = i * 4096" "\<forall>j. pageBitmapIndex p \<le> j \<longrightarrow> j < i \<longrightarrow> j \<in> taken p"
      "p' = (LockPage (i * 4096) p)\<lparr>pageBitmapIndex := i\<rparr>" by blast
  have d: "i * 4096 div 4096 = i" "unat (i * 4096) = unat i * 4096"
    using index_address [of p i] assms(1) i(1) by auto
  have low: "\<forall>j < i. j \<in> taken p"
    using i(4) assms(2) unfolding hint_ok_def by (meson linorder_not_le)
  have "hint_ok p'" "taken p' = insert i (taken p)"
    using RequestPage_fresh [OF assms(1) x] assms(2) i(3) d(1) by auto
  moreover have "freeMemory p' = freeMemory p - 4096" "usedMemory p' = usedMemory p + 4096"
    using page_op_counters(1) [of "i * 4096" p] i d(1) by auto
  ultimately show ?thesis
    using x i low d(2) by (simp add: mult.commute) blast
qed

theorem RequestPage_first_fit_witness:
  "case RequestPage some_pages of
      Inl e \<Rightarrow> e = OutOfMemory \<and> {..<Size (PageBitmap some_pages) * 8} \<subseteq> taken some_pages
    | Inr (pg, p') \<Rightarrow> hint_ok p'"
  using RequestPage_first_fit [OF some_pages_ok] by (auto split: sum.splits)



text \<open>
  The loop counter of \<open>LockPages\<close> is an \<open>int\<close>, so \<open>t * 4096\<close> turns negative at two
  gigabytes: of a range that starts at address zero and is up to four gigabytes long, only the
  first \<open>2 ^ 19\<close> pages are locked.
\<close>

theorem LockPages_two_gigabytes:
  assumes "unat n \<le> 1048576" and "unat (Size (PageBitmap p)) \<le> 1099511627776"
  shows "taken (LockPages 0 n p) =
    taken p \<union> {i. unat i < unat n \<and> unat i < 524288 \<and> i \<le> Size (PageBitmap p) * 8}"
proof -
  have "LockPages 0 n p = fold (\<lambda>t. LockPage (0 + sext (of_nat t * 4096))) [0..<unat n] p"
    using assms(1) by (simp add: LockPages_def for_int_fold)
  then show ?thesis
    using fold_LockPage_wrapped [OF order_refl assms] by simp
qed

theorem LockPages_two_gigabytes_witness:
  "524287 \<in> taken (LockPages 0 0x100000 (some_pages\<lparr>PageBitmap := \<lparr>Size = 0x20000, Buffer = (\<lambda>i. 0)\<rparr>\<rparr>))
   \<and> 524288 \<notin> taken (LockPages 0 0x100000 (some_pages\<lparr>PageBitmap := \<lparr>Size = 0x20000, Buffer = (\<lambda>i. 0)\<rparr>\<rparr>))"
proof -
  let ?p = "some_pages\<lparr>PageBitmap := \<lparr>Size = 0x20000, Buffer = (\<lambda>i. 0)\<rparr>\<rparr>"
  have "524288 \<notin> taken ?p"
    unfolding Get_taken [symmetric] by (simp add: Get_def)
  then show ?thesis
    using LockPages_two_gigabytes [of "0x100000" ?p] by simp
qed

end
