(* ===== verification/EfiMemoryMap.thy ===== *)
theory EfiMemoryMap
  imports PageFrameAllocator
begin

text \<open>
  What \<open>ReadEFIMemoryMap\<close> of \<open>memory/pfa.cpp\<close> leaves behind: which pages are free after the
  memory map of the firmware has been read, and the counters.
\<close>

definition desc_at :: "mem \<Rightarrow> u64 \<Rightarrow> u64 \<Rightarrow> nat \<Rightarrow> efi_desc" where
  "desc_at m mMap descSize k = read_desc m (mMap + sext (of_nat k) * descSize)"

definition conventional :: "mem \<Rightarrow> u64 \<Rightarrow> u64 \<Rightarrow> nat \<Rightarrow> u64 set" where
  "conventional m mMap descSize n =
     (\<Union>k \<in> {k. k < n \<and> dtype (desc_at m mMap descSize k) = 7}.
        page_range (physAddr (desc_at m mMap descSize k)) (numPages (desc_at m mMap descSize k)))"

definition map_fits :: "mem \<Rightarrow> u64 \<Rightarrow> u64 \<Rightarrow> nat \<Rightarrow> bool" where
  "map_fits m mMap descSize n \<longleftrightarrow>
     (\<forall>k < n. dtype (desc_at m mMap descSize k) = 7 \<longrightarrow>
        int_range (physAddr (desc_at m mMap descSize k)) (numPages (desc_at m mMap descSize k)))"

lemma conventional_Suc:
  "conventional m mMap ds (Suc n) =
     conventional m mMap ds n \<union>
     (if dtype (desc_at m mMap ds n) = 7
      then page_range (physAddr (desc_at m mMap ds n)) (numPages (desc_at m mMap ds n)) else {})"
  by (auto simp: conventional_def less_Suc_eq)

lemma unreserve_free_fold:
  assumes "map_fits m mMap ds n"
  defines "body \<equiv> \<lambda>i p. let desc = read_desc m (mMap + sext (of_nat i) * ds)
         in if dtype desc = 7 then UnreservePages (physAddr desc) (numPages desc) p else p"
  shows "taken (fold body [0..<n] p) = taken p - conventional m mMap ds n \<and>
    Size (PageBitmap (fold body [0..<n] p)) = Size (PageBitmap p) \<and>
    BitmapBuffer (fold body [0..<n] p) = BitmapBuffer p"
  using assms(1)
proof (induction n)
  case 0
  then show ?case by (simp add: conventional_def)
next
  case (Suc n)
  have buf: "BitmapBuffer (UnreservePages a k q) = BitmapBuffer q" for a k q
    unfolding UnreservePages_def
    by (rule for_int_invariant [where P = "\<lambda>r. BitmapBuffer r = BitmapBuffer q"])
       (simp_all add: UnreservePage_eq Let_def)
  let ?d = "desc_at m mMap ds n"
  have "body n q = (if dtype ?d = 7 then UnreservePages (physAddr ?d) (numPages ?d) q else q)" for q
    by (simp add: body_def desc_at_def Let_def)
  moreover have "dtype ?d = 7 \<Longrightarrow> int_range (physAddr ?d) (numPages ?d)"
    using Suc.prems by (simp add: map_fits_def)
  moreover have "map_fits m mMap ds n" using Suc.prems by (simp add: map_fits_def)
  ultimately show ?case
    using Suc.IH by (auto simp: conventional_Suc taken_UnreservePages buf)
qed

lemma unreserve_free_result:
  assumes "map_fits m mMap ds (unat n)" and "unat n \<le> 2147483648"
  shows "taken (unreserve_free m mMap n ds p) = taken p - conventional m mMap ds (unat n)"
    and "Size (PageBitmap (unreserve_free m mMap n ds p)) = Size (PageBitmap p)"
    and "BitmapBuffer (unreserve_free m mMap n ds p) = BitmapBuffer p"
  using unreserve_free_fold [OF assms(1), of p] assms(2)
  by (simp_all add: unreserve_free_def for_int_fold)

lemma taken_InitBitmap: "taken (InitBitmap m s a p) \<subseteq> {i. s * 8 \<le> i}"
proof
  fix i assume i: "i \<in> taken (InitBitmap m s a p)"
  show "i \<in> {i. s * 8 \<le> i}"
  proof (rule ccontr)
    assume "i \<notin> {i. s * 8 \<le> i}"
    then have "i < s * 8" by auto
    then have "unat i < unat s * 8 mod 18446744073709551616"
      by (simp add: word_less_nat_alt unat_word_ariths)
    then have "unat i < unat s * 8" using mod_less_eq_dividend [of "unat s * 8"] by linarith
    then have "i div 8 < s" by (simp add: word_less_nat_alt unat_div)
    then show False
      using i by (simp add: taken_def bm.members_def Get_page_bit page_bit_def InitBitmap_def memset_eq)
  qed
qed


text \<open>
  The pages free at the end, below the end of memory: conventional, above the first megabyte,
  and not under the bitmap.
\<close>

definition bitmap_bytes :: "u64 \<Rightarrow> u64" where
  "bitmap_bytes memory = memory div 4096 div 8 + 1"

lemma unat_bitmap_bytes: "unat (bitmap_bytes M) = unat M div 32768 + 1"
proof -
  have "unat (M div 4096 div 8) = unat M div 32768"
    by (simp add: unat_div div_mult2_eq [symmetric])
  moreover have "unat M div 32768 + 1 < 18446744073709551616"
    using unat_less_2p64 [of M] by linarith
  ultimately show ?thesis
    unfolding bitmap_bytes_def by (subst unat_add_small) simp_all
qed

lemma page_range_0: "i \<in> page_range 0 n \<longleftrightarrow> i < n"
  by (simp add: page_range_def word_less_nat_alt)

lemma ReadEFIMemoryMap_taken:
  assumes n_def: "n = mMapSize div ds" and M_def: "M = fst (GetMemorySize m mMap n ds p)"
    and seg_def: "seg = fst (largest_free m mMap n ds)"
    and ds: "ds \<noteq> 0" and n: "unat n \<le> 2147483648" and fits: "map_fits m mMap ds (unat n)"
    and M: "unat M < 2147483648"
    and seg: "int_range seg (bitmap_bytes M div 4096 + 1)"
    and r: "ReadEFIMemoryMap m mMap mMapSize ds p = Inr p'"
    and i: "i \<le> M div 4096"
  shows "i \<in> taken p' \<longleftrightarrow> i < 0x100 \<or> i \<in> page_range seg (bitmap_bytes M div 4096 + 1)
           \<or> i \<notin> conventional m mMap ds (unat n)"
proof -
  let ?B = "bitmap_bytes M"
  define p1 where "p1 = InitBitmap m ?B seg ((snd (GetMemorySize m mMap n ds p))\<lparr>freeMemory := M\<rparr>)"
  define p2 where "p2 = ReservePages 0 (M div 4096 + 1) (ReservePages seg (?B div 4096) p1)"
  define p3 where "p3 = unreserve_free m mMap n ds p2"
  have seg0: "BitmapBuffer (ReservePages a k q) = BitmapBuffer q" for a k q
    unfolding ReservePages_def
    by (rule for_int_invariant [where P = "\<lambda>r. BitmapBuffer r = BitmapBuffer q"])
       (simp_all add: ReservePage_eq Let_def)
  have sz: "Size (PageBitmap p1) = ?B" "BitmapBuffer p1 = seg" by (simp_all add: p1_def InitBitmap_def)
  have p': "p' = LockPages seg (?B div 4096 + 1) (ReservePages 0 0x100 p3)"
    using r ds sz
    by (simp add: ReadEFIMemoryMap_def Let_def case_prod_unfold n_def [symmetric] M_def [symmetric]
        seg_def [symmetric] bitmap_bytes_def [symmetric] p1_def [symmetric] p2_def [symmetric]
        p3_def [symmetric] seg0 unreserve_free_result [OF fits n])
       (simp add: p3_def p2_def seg0 unreserve_free_result [OF fits n])
  have uB: "unat ?B = unat M div 32768 + 1" by (rule unat_bitmap_bytes)
  have "unat (?B * 8) = unat ?B * 8"
    using uB M by (subst unat_mult_lem [THEN iffD1]) auto
  then have last: "unat (last_index p1) = (unat M div 32768 + 1) * 8" by (simp add: sz uB)
  have M1: "unat (M div 4096 + 1) = unat M div 4096 + 1"
    using M by (subst unat_add_small) (simp_all add: unat_div)
  have r1: "int_range 0 (M div 4096 + 1)" using M M1 by (auto simp: int_range_def)
  have r2: "int_range seg (?B div 4096)"
  proof -
    have "unat (?B div 4096 + 1) = unat (?B div 4096) + 1"
      using M uB by (subst unat_add_small) (simp_all add: unat_div)
    then show ?thesis using seg by (simp add: int_range_def)
  qed
  have r3: "int_range 0 0x100" by (simp add: int_range_def)
  have il: "i \<le> last_index p1" "i < M div 4096 + 1"
    using i M1 last by (simp_all add: word_le_nat_alt word_less_nat_alt unat_div)
  have t2: "i \<in> taken p2"
    using il by (simp add: p2_def taken_ReservePages r1 r2 page_range_0)
  have t3: "i \<in> taken p3 \<longleftrightarrow> i \<notin> conventional m mMap ds (unat n)"
    using t2 by (simp add: p3_def unreserve_free_result [OF fits n])
  have "Size (PageBitmap p3) = Size (PageBitmap p1)"
    by (simp add: p3_def p2_def unreserve_free_result [OF fits n])
  with il t3 show ?thesis
    by (simp add: p' taken_LockPages [OF seg] taken_ReservePages [OF r3] page_range_0)
       blast
qed


section \<open>Counters and hint after start-up\<close>

definition total :: "pfa \<Rightarrow> u64" where
  "total p = freeMemory p + usedMemory p + reservedMemory p"

lemma total_ops [simp]:
  "total (LockPage a p) = total p" "total (ReservePage a p) = total p"
  "total (FreePage a p) = total p" "total (UnreservePage a p) = total p"
  by (simp_all add: total_def page_op_eqs Let_def)

lemma total_ranges [simp]:
  "total (LockPages a n p) = total p" "total (ReservePages a n p) = total p"
  "total (FreePages a n p) = total p" "total (UnreservePages a n p) = total p"
  unfolding LockPages_def ReservePages_def FreePages_def UnreservePages_def
  by (rule for_int_invariant [where P = "\<lambda>q. total q = total p"]; simp)+

lemma unreserve_free_invariant:
  "P p \<Longrightarrow> (\<And>a n q. P q \<Longrightarrow> P (UnreservePages a n q)) \<Longrightarrow> P (unreserve_free m mMap n ds p)"
  unfolding unreserve_free_def by (rule for_int_invariant [where P = P]) (simp_all add: Let_def)

lemma ReadEFIMemoryMap_invariant:
  assumes "ReadEFIMemoryMap m mMap mMapSize ds p = Inr p'"
    and "\<And>a n q. P q \<Longrightarrow> P (UnreservePages a n q)" "\<And>a n q. P q \<Longrightarrow> P (ReservePages a n q)"
      "\<And>a n q. P q \<Longrightarrow> P (LockPages a n q)"
    and "\<And>s a q M. q = snd (GetMemorySize m mMap (mMapSize div ds) ds p) \<Longrightarrow>
           M = fst (GetMemorySize m mMap (mMapSize div ds) ds p) \<Longrightarrow>
           P (InitBitmap m (bitmap_bytes M) a (q\<lparr>freeMemory := M\<rparr>))"
  shows "P p'"
proof -
  define q where "q = snd (GetMemorySize m mMap (mMapSize div ds) ds p)"
  define M where "M = fst (GetMemorySize m mMap (mMapSize div ds) ds p)"
  define p1 where "p1 = InitBitmap m (bitmap_bytes M)
    (fst (largest_free m mMap (mMapSize div ds) ds)) (q\<lparr>freeMemory := M\<rparr>)"
  have "P p1" unfolding p1_def by (rule assms(5) [OF q_def M_def])
  moreover have "\<exists>a n. p' = LockPages a n (ReservePages 0 0x100
      (unreserve_free m mMap (mMapSize div ds) ds (ReservePages 0 (M div 4096 + 1)
        (ReservePages (fst (largest_free m mMap (mMapSize div ds) ds))
          (bitmap_bytes M div 4096) p1))))"
    using assms(1)
    by (simp add: ReadEFIMemoryMap_def Let_def case_prod_unfold bitmap_bytes_def [symmetric]
        q_def [symmetric] M_def [symmetric] p1_def [symmetric] split: if_splits)
       (blast intro: sym)
  ultimately show ?thesis
    by (auto intro!: unreserve_free_invariant assms(2-4))
qed

lemma ReadEFIMemoryMap_hint_ok:
  assumes "ReadEFIMemoryMap m mMap mMapSize ds p = Inr p'" and "pageBitmapIndex p = 0"
  shows "hint_ok p'"
  using assms
  by (intro ReadEFIMemoryMap_invariant [where P = hint_ok, OF assms(1)] hint_ok_ranges)
     (auto simp: hint_ok_def InitBitmap_def GetMemorySize_def Let_def)

lemma ReadEFIMemoryMap_total:
  assumes "ReadEFIMemoryMap m mMap mMapSize ds p = Inr p'"
    and "usedMemory p = 0" and "reservedMemory p = 0"
  shows "total p' = fst (GetMemorySize m mMap (mMapSize div ds) ds p)"
proof (rule ReadEFIMemoryMap_invariant [where P = "\<lambda>q. total q = _", OF assms(1)])
  fix s a q M
  assume "q = snd (GetMemorySize m mMap (mMapSize div ds) ds p)"
    and "M = fst (GetMemorySize m mMap (mMapSize div ds) ds p)"
  moreover have "usedMemory (snd (GetMemorySize m mMap (mMapSize div ds) ds p)) = 0"
    "reservedMemory (snd (GetMemorySize m mMap (mMapSize div ds) ds p)) = 0"
    using assms(2,3) by (simp_all add: GetMemorySize_def Let_def)
  ultimately show "total (InitBitmap m (bitmap_bytes M) a (q\<lparr>freeMemory := M\<rparr>)) =
      fst (GetMemorySize m mMap (mMapSize div ds) ds p)"
    by (simp add: total_def InitBitmap_def)
qed simp_all

lemma ReadEFIMemoryMap_Size:
  assumes "ReadEFIMemoryMap m mMap mMapSize ds p = Inr p'"
  shows "Size (PageBitmap p') = bitmap_bytes (fst (GetMemorySize m mMap (mMapSize div ds) ds p))"
  by (rule ReadEFIMemoryMap_invariant [where P = "\<lambda>q. Size (PageBitmap q) = _", OF assms(1)])
     (auto simp: InitBitmap_def)

lemma ReadEFIMemoryMap_addressable:
  assumes "ReadEFIMemoryMap m mMap mMapSize ds p = Inr p'"
    and "unat (fst (GetMemorySize m mMap (mMapSize div ds) ds p)) < 9223372036854775808"
  shows "addressable p'"
  unfolding addressable_def ReadEFIMemoryMap_Size [OF assms(1)] unat_bitmap_bytes
  using assms(2) by linarith

section \<open>Properties\<close>


text \<open>One descriptor: three megabytes of conventional memory from the first megabyte on.\<close>

definition one_descriptor :: mem where
  "one_descriptor = (\<lambda>_. 0)(0x50 := 7, 0x5A := 0x10, 0x69 := 3)"

lemma one_descriptor_read:
  "read_desc one_descriptor 0x50 =
     \<lparr>dtype = 7, physAddr = 0x100000, virtAddr = 0, numPages = 0x300, attribs = 0\<rparr>"
  by (simp add: read_desc_def load_bytes one_descriptor_def)

lemma one_descriptor_map:
  "fst (GetMemorySize one_descriptor 0x50 1 48 some_pages) = 0x300000"
  "fst (largest_free one_descriptor 0x50 1 48) = 0x100000"
  "map_fits one_descriptor 0x50 48 1"
  "desc_at one_descriptor 0x50 48 0 =
     \<lparr>dtype = 7, physAddr = 0x100000, virtAddr = 0, numPages = 0x300, attribs = 0\<rparr>"
  by (simp_all add: GetMemorySize_def largest_free_def for_int_fold one_descriptor_read Let_def
      some_pages_def map_fits_def desc_at_def int_range_def sext_def)


end
