(* ===== verification/CString.thy ===== *)
theory CString
  imports Memory
begin

unbundle bit_operations_syntax

text \<open>
  C strings in flat memory and the string routines of \<open>libc/stdio/cstring.cpp\<close>.  A loop of
  the code that ends only at a NUL is a \<open>partial_function (option)\<close>: \<open>None\<close> is a loop that
  does not end.
\<close>

section \<open>Strings in memory\<close>

definition cstr :: "mem \<Rightarrow> u64 \<Rightarrow> u8 list \<Rightarrow> bool" where
  "cstr m p s \<longleftrightarrow>
     0 \<notin> set s \<and> bytes_at m p (length s) = s \<and> m (p + of_nat (length s)) = 0"

lemma cstr_Nil [simp]: "cstr m p [] \<longleftrightarrow> m p = 0"
  by (simp add: cstr_def)

lemma cstr_Cons [simp]: "cstr m p (c # s) \<longleftrightarrow> c \<noteq> 0 \<and> m p = c \<and> cstr m (p + 1) s"
  by (auto simp: cstr_def bytes_at_Suc add.assoc)

lemma cstr_nth: "cstr m p s \<Longrightarrow> i < length s \<Longrightarrow> m (p + of_nat i) = s ! i \<and> s ! i \<noteq> 0"
  unfolding cstr_def by (metis nth_bytes_at nth_mem)

lemma cstr_end: "cstr m p s \<Longrightarrow> m (p + of_nat (length s)) = 0"
  by (simp add: cstr_def)

lemma cstr_fun:
  "cstr m p s \<Longrightarrow> cstr m p t \<Longrightarrow> s = t"
proof (induction s arbitrary: p t)
  case Nil
  then show ?case by (cases t) auto
next
  case (Cons c s)
  then show ?case by (cases t) auto
qed

lemma cstr_same:
  assumes "cstr m p s" "\<And>i. i \<le> length s \<Longrightarrow> m' (p + of_nat i) = m (p + of_nat i)"
  shows "cstr m' p s"
proof -
  have "bytes_at m' p (length s) = bytes_at m p (length s)"
    by (rule nth_equalityI) (simp_all add: assms(2))
  then show ?thesis using assms by (simp add: cstr_def)
qed

text \<open>A string written into memory, as the compiler lays out a literal.\<close>

fun put_str :: "u64 \<Rightarrow> u8 list \<Rightarrow> mem \<Rightarrow> mem" where
  "put_str p [] m = m(p := 0)"
| "put_str p (c # s) m = (put_str (p + 1) s m)(p := c)"

definition bytes_of :: "string \<Rightarrow> u8 list" where
  "bytes_of s = map of_char s"

section \<open>strlen\<close>

partial_function (option) strlen_loop :: "mem \<Rightarrow> u64 \<Rightarrow> i32 \<Rightarrow> i32 \<Rightarrow> i32 option" where
  "strlen_loop m str i strlenOutput =
     (if m (str + sext i) \<noteq> 0 then strlen_loop m str (i + 1) i else Some strlenOutput)"

definition strlen :: "mem \<Rightarrow> u64 \<Rightarrow> i32 option" where
  "strlen m str = strlen_loop m str 0 0"

lemma strlen_loop_cstr:
  assumes s: "cstr m p s" and len: "length s < 2147483648" and i: "i \<le> length s"
  shows "strlen_loop m p (of_nat i) out =
           Some (if i < length s then of_nat (length s - 1) else out)"
  using i
proof (induction "length s - i" arbitrary: i out)
  case 0
  then have "i = length s" by simp
  with s len show ?case
    by (simp add: strlen_loop.simps sext_of_nat cstr_end)
next
  case (Suc k)
  then have i: "i < length s" by simp
  with s len have "m (p + sext (of_nat i)) \<noteq> 0"
    by (simp add: sext_of_nat cstr_nth)
  then have "strlen_loop m p (of_nat i) out = strlen_loop m p (of_nat (Suc i)) (of_nat i)"
    by (subst strlen_loop.simps) (simp add: add.commute)
  also have "\<dots> = Some (if Suc i < length s then of_nat (length s - 1) else of_nat i)"
    using Suc i by (intro Suc.hyps) auto
  also have "\<dots> = Some (of_nat (length s - 1))"
  proof (cases "Suc i < length s")
    case False
    with i have "length s = Suc i" by simp
    then show ?thesis by simp
  qed simp
  finally show ?case using i by simp
qed

text \<open>
  What \<open>strlen\<close> returns: the index of the last character, one less than the length, and 0 for
  the empty string.
\<close>

lemma strlen_cstr:
  "cstr m p s \<Longrightarrow> length s < 2147483648 \<Longrightarrow> strlen m p = Some (of_nat (length s - 1))"
  using strlen_loop_cstr [of m p s 0] by (simp add: strlen_def)

section \<open>strcmp\<close>

partial_function (option) strcmp :: "mem \<Rightarrow> u64 \<Rightarrow> u64 \<Rightarrow> i32 option" where
  "strcmp m s1 s2 =
     (let c1 = m s1; c2 = m s2
      in if c1 = 0 then Some (ucast c1 - ucast c2)
         else if c1 = c2 then strcmp m (s1 + 1) (s2 + 1)
         else Some (ucast c1 - ucast c2))"

fun byte_cmp :: "u8 list \<Rightarrow> u8 list \<Rightarrow> i32" where
  "byte_cmp [] [] = 0"
| "byte_cmp [] (d # t) = - ucast d"
| "byte_cmp (c # s) [] = ucast c"
| "byte_cmp (c # s) (d # t) = (if c = d then byte_cmp s t else ucast c - ucast d)"

lemma strcmp_byte_cmp:
  "cstr m p s \<Longrightarrow> cstr m q t \<Longrightarrow> strcmp m p q = Some (byte_cmp s t)"
proof (induction s t arbitrary: p q rule: byte_cmp.induct)
  case 1
  then show ?case by (simp add: strcmp.simps)
next
  case (2 d t)
  then show ?case by (simp add: strcmp.simps)
next
  case (3 c s)
  then show ?case by (simp add: strcmp.simps)
next
  case (4 c s d t)
  then show ?case by (auto simp: strcmp.simps [of m p q])
qed

lemma sint_ucast_diff: "sint (ucast (c :: u8) - ucast (d :: u8) :: i32) = uint c - uint d"
proof -
  have "uint c < 256" "uint d < 256" "0 \<le> uint c" "0 \<le> uint d"
    using unsigned_less [of c] unsigned_less [of d] by simp_all
  moreover have "(ucast c - ucast d :: i32) = word_of_int (uint c - uint d)"
    by simp
  ultimately show ?thesis
    by (simp only: sint_of_int32)
qed

lemma ucast_diff_0: "(ucast (c :: u8) - ucast (d :: u8) :: i32) = 0 \<longleftrightarrow> c = d"
proof
  assume "(ucast c - ucast d :: i32) = 0"
  with sint_ucast_diff [of c d] have "uint c = uint d" by simp
  then show "c = d" by (simp only: word_uint_eq_iff)
qed simp

lemma ucast_0_iff: "(ucast (c :: u8) :: i32) = 0 \<longleftrightarrow> c = 0"
  using ucast_diff_0 [of c 0] by simp

lemma byte_cmp_zero: "byte_cmp s t = 0 \<longleftrightarrow> s = t"
  if "0 \<notin> set s" "0 \<notin> set t"
  using that
proof (induction s t rule: byte_cmp.induct)
  case (4 c s d t)
  then show ?case
    using ucast_diff_0 [of c d] by auto
qed (auto simp: ucast_0_iff)

lemma byte_cmp_neg: "sint (byte_cmp s t) < 0 \<longleftrightarrow> (s, t) \<in> lexord {(x, y). x < y}"
  if "0 \<notin> set s" "0 \<notin> set t"
  using that
proof (induction s t rule: byte_cmp.induct)
  case (2 d t)
  then have "0 < uint d"
    using uint_0_iff [of d] uint_ge_0 [of d] by (simp add: order_less_le)
  then show ?case using sint_ucast_diff [of 0 d] by simp
next
  case (3 c s)
  then show ?case using sint_ucast_diff [of c 0] by simp
next
  case (4 c s d t)
  then show ?case
    using sint_ucast_diff [of c d] by (auto simp: word_less_def)
qed auto

lemma strcmp_eq:
  "cstr m p s \<Longrightarrow> cstr m q t \<Longrightarrow> strcmp m p q = Some 0 \<longleftrightarrow> s = t"
  by (simp add: strcmp_byte_cmp byte_cmp_zero cstr_def)

section \<open>atoi\<close>

text \<open>\<open>char\<close> is signed, and the sum is an \<open>int\<close> that wraps.\<close>

partial_function (option) atoi_loop :: "mem \<Rightarrow> u64 \<Rightarrow> i32 \<Rightarrow> i32 \<Rightarrow> i32 option" where
  "atoi_loop m str i integer =
     (if m (str + sext i) \<noteq> 0
      then atoi_loop m str (i + 1) (integer * 10 + scast (m (str + sext i)) - 48)
      else Some integer)"

definition atoi :: "mem \<Rightarrow> u64 \<Rightarrow> i32 option" where
  "atoi m str = atoi_loop m str 0 0"

text \<open>The value of a list of decimal digit characters, most significant first.\<close>

definition dec_value :: "nat \<Rightarrow> u8 list \<Rightarrow> nat" where
  "dec_value n s = foldl (\<lambda>n c. n * 10 + (unat c - 48)) n s"

definition is_dec :: "u8 list \<Rightarrow> bool" where
  "is_dec s \<longleftrightarrow> (\<forall>c \<in> set s. 48 \<le> c \<and> c \<le> 57)"

lemma atoi_loop_cstr:
  assumes s: "cstr m p s" and len: "length s < 2147483648"
  shows "i \<le> length s \<Longrightarrow> atoi_loop m p (of_nat i) v =
     Some (foldl (\<lambda>v c. v * 10 + scast c - 48) v (drop i s))"
proof (induction "length s - i" arbitrary: i v)
  case 0
  then have "i = length s" by simp
  with s len show ?case
    by (simp add: atoi_loop.simps sext_of_nat cstr_end)
next
  case (Suc k)
  then have i: "i < length s" by simp
  with s len have c: "m (p + sext (of_nat i)) = s ! i" "s ! i \<noteq> 0"
    by (auto simp: sext_of_nat cstr_nth)
  have "atoi_loop m p (of_nat i) v
      = atoi_loop m p (of_nat (Suc i)) (v * 10 + scast (s ! i) - 48)"
    using c by (subst atoi_loop.simps) (simp add: add.commute)
  also have "\<dots> = Some (foldl (\<lambda>v c. v * 10 + scast c - 48)
                      (v * 10 + scast (s ! i) - 48) (drop (Suc i) s))"
    using Suc i by (intro Suc.hyps) auto
  finally show ?case
    using i by (simp add: Cons_nth_drop_Suc [symmetric])
qed

lemma scast_digit: "48 \<le> c \<Longrightarrow> c \<le> 57 \<Longrightarrow> (scast (c :: u8) - 48 :: i32) = of_nat (unat c - 48)"
proof -
  assume c: "48 \<le> c" "c \<le> 57"
  then have "sint c = int (unat c)"
    by (subst sint_u8_small) (auto intro: le_less_trans)
  moreover have "48 \<le> unat c" using c by (simp add: word_le_nat_alt)
  ultimately show ?thesis
    by (simp add: scast_eq of_nat_diff)
qed

lemma atoi_fold_dec:
  "is_dec s \<Longrightarrow> foldl (\<lambda>v c. v * 10 + scast c - 48) (of_nat n :: i32) s
     = of_nat (dec_value n s)"
proof (induction s arbitrary: n)
  case Nil
  then show ?case by (simp add: dec_value_def)
next
  case (Cons c s)
  have "of_nat n * 10 + scast c - 48 = (of_nat n * 10 + (scast c - 48) :: i32)" by simp
  also have "scast c - 48 = (of_nat (unat c - 48) :: i32)"
    using Cons.prems by (intro scast_digit) (auto simp: is_dec_def)
  finally have "of_nat n * 10 + scast c - 48 = (of_nat (n * 10 + (unat c - 48)) :: i32)"
    by simp
  with Cons.IH [of "n * 10 + (unat c - 48)"] Cons.prems show ?case
    by (simp only: foldl_Cons dec_value_def) (simp add: is_dec_def)
qed

text \<open>On a string of decimal digits \<open>atoi\<close> returns its value modulo \<open>2 ^ 32\<close>.\<close>

lemma atoi_dec:
  "cstr m p s \<Longrightarrow> length s < 2147483648 \<Longrightarrow> is_dec s \<Longrightarrow>
     atoi m p = Some (of_nat (dec_value 0 s))"
  using atoi_loop_cstr [of m p s 0 0] atoi_fold_dec [of s 0]
  by (simp add: atoi_def)

section \<open>chartostr and shorttostr\<close>

definition chartostr :: "u64 \<Rightarrow> u8 \<Rightarrow> mem \<Rightarrow> mem" where
  "chartostr chartostrOutput c m = m(chartostrOutput := c, chartostrOutput + 1 := 0)"

lemma chartostr_cstr: "c \<noteq> 0 \<Longrightarrow> cstr (chartostr b c m) b [c]"
  by (simp add: chartostr_def)

definition shorttostr :: "u64 \<Rightarrow> u64 \<Rightarrow> mem \<Rightarrow> mem" where
  "shorttostr str sh m =
     (fold (\<lambda>i m. m(str + of_nat i := ucast (load16 m (sh + 2 * of_nat i)))) [0..<1024]
        (memset str 0 1025 m))(str + 1024 := 0)"

section \<open>Properties\<close>

text \<open>
  \<open>strcmp\<close> returns on terminated strings; its result is zero exactly for equal strings and
  negative exactly when the first comes before the second in the order of unsigned bytes.
\<close>

theorem strcmp_sign:
  assumes "cstr m p s" and "cstr m q t"
  shows "\<exists>r. strcmp m p q = Some r \<and> (r = 0 \<longleftrightarrow> s = t) \<and>
           (sint r < 0 \<longleftrightarrow> (s, t) \<in> lexord {(x, y). x < y})"
  using assms
  by (auto simp: strcmp_byte_cmp byte_cmp_zero byte_cmp_neg cstr_def)

definition two_strings :: mem where
  "two_strings = put_str 0x10 [97, 98] (put_str 0x20 [97, 99] (\<lambda>_. 0))"

theorem strcmp_sign_witness:
  "cstr two_strings 0x10 [97, 98] \<and> cstr two_strings 0x20 [97, 99] \<and>
   (\<exists>r. strcmp two_strings 0x10 0x20 = Some r \<and> sint r < 0)"
proof -
  have s: "cstr two_strings 0x10 [97, 98]" "cstr two_strings 0x20 [97, 99]"
    by (simp_all add: two_strings_def)
  have "([97, 98], [97, 99 :: u8]) \<in> lexord {(x, y). x < y}" by simp
  with strcmp_sign [OF s] s show ?thesis by blast
qed

text \<open>
  \<open>strlen\<close> returns the index of the last character: one less than the length, and 0 for the
  empty string.
\<close>

theorem strlen_last_index:
  assumes "cstr m p s" and "length s < 2147483648"
  shows "strlen m p = Some (of_nat (length s - 1))"
  using assms by (rule strlen_cstr)

theorem strlen_last_index_witness:
  "cstr two_strings 0x10 [97, 98] \<and> strlen two_strings 0x10 = Some 1"
proof -
  have s: "cstr two_strings 0x10 [97, 98]" by (simp add: two_strings_def)
  with strlen_last_index [OF s] show ?thesis by simp
qed

end
