(* ===== verification/NumString.thy ===== *)
theory NumString
  imports CString "HOL-Library.Signed_Division"
begin

unbundle bit_operations_syntax

text \<open>
  The number formatting of \<open>libc/stdio/cstring.cpp\<close>: \<open>inttostr\<close> for the integer types and
  \<open>inttohstr\<close> for the four widths.  Each writes into a static buffer, whose address is the
  argument \<open>out\<close>, and returns that address.

  \<open>inttostr\<close> counts the digits in a local \<open>uint8_t size\<close> that the code never initialises: its
  first value is the argument \<open>size0\<close>.  \<open>inttohstr\<close> reads the value byte by byte, past its end:
  the bytes above it on the stack are the argument \<open>stack\<close>.
  The overloads for \<open>double\<close> are in theory DoubleString.
\<close>

section \<open>inttostr\<close>

function size_loop :: "u64 \<Rightarrow> u8 \<Rightarrow> u8" where
  "size_loop sizeTest sz =
     (if sizeTest div 10 > 0 then size_loop (sizeTest div 10) (sz + 1) else sz)"
  by pat_completeness auto

lemma div10_less: "0 < (v :: u64) div 10 \<Longrightarrow> unat (v div 10) < unat v"
  by (simp add: unat_div word_less_nat_alt)

termination size_loop
  by (relation "measure (\<lambda>(v, s). unat v)") (auto intro: div10_less)

function digit_loop ::
    "u64 \<Rightarrow> u8 \<Rightarrow> u8 \<Rightarrow> u64 \<Rightarrow> mem \<Rightarrow> u8 \<times> u64 \<times> mem" where
  "digit_loop out sz index val m =
     (if val div 10 > 0
      then digit_loop out sz (index + 1) (val div 10)
             (m(out + (ucast sz - ucast index) := ucast (val mod 10) + 48))
      else (index, val, m))"
  by pat_completeness auto
termination
  by (relation "measure (\<lambda>(out, s, i, v, m). unat v)") (auto intro: div10_less)

declare size_loop.simps [simp del] digit_loop.simps [simp del]

text \<open>The digits and the closing NUL, once the size is known.\<close>

definition write_digits :: "u64 \<Rightarrow> u8 \<Rightarrow> u64 \<Rightarrow> mem \<Rightarrow> mem" where
  "write_digits out sz val m =
     (let (index, val, m) = digit_loop out sz 0 val m;
          m = m(out + (ucast sz - ucast index) := ucast (val mod 10) + 48)
      in m(out + (ucast sz + 1) := 0))"

definition inttostr :: "u64 \<Rightarrow> u8 \<Rightarrow> u64 \<Rightarrow> mem \<Rightarrow> mem" where
  "inttostr out size0 val m =
     write_digits out (size_loop val size0) val (memset out 0 128 m)"

definition inttostr_u32 :: "u64 \<Rightarrow> u8 \<Rightarrow> u32 \<Rightarrow> mem \<Rightarrow> mem" where
  "inttostr_u32 out size0 val m = inttostr out size0 (ucast val) m"

definition inttostr_u16 :: "u64 \<Rightarrow> u8 \<Rightarrow> u16 \<Rightarrow> mem \<Rightarrow> mem" where
  "inttostr_u16 out size0 val m = inttostr out size0 (ucast val) m"

definition inttostr_u8 :: "u64 \<Rightarrow> u8 \<Rightarrow> u8 \<Rightarrow> mem \<Rightarrow> mem" where
  "inttostr_u8 out size0 val m = inttostr out size0 (ucast val) m"

definition inttostr_int :: "u64 \<Rightarrow> u8 \<Rightarrow> i32 \<Rightarrow> mem \<Rightarrow> mem" where
  "inttostr_int out size0 val m = inttostr out size0 (sext val) m"

text \<open>The decimal digits of a number, most significant first.\<close>

fun dec_digits :: "nat \<Rightarrow> u8 list" where
  "dec_digits n = (if n < 10 then [48 + of_nat n] else dec_digits (n div 10) @ [48 + of_nat (n mod 10)])"

declare dec_digits.simps [simp del]

lemma dec_digits_ne [simp]: "dec_digits n \<noteq> []"
  by (subst dec_digits.simps) simp

lemma digit_char: "k < 10 \<Longrightarrow> unat (48 + of_nat k :: u8) = 48 + k"
  by (simp add: unat_word_ariths unat_of_nat)

lemma is_dec_digits: "is_dec (dec_digits n)"
proof (induction n rule: dec_digits.induct)
  case (1 n)
  have d: "k < 10 \<Longrightarrow> 48 \<le> (48 + of_nat k :: u8) \<and> (48 + of_nat k :: u8) \<le> 57" for k
    using digit_char [of k] by (simp add: word_le_nat_alt)
  show ?case
    using 1 d [of n] d [of "n mod 10"]
    by (subst dec_digits.simps) (auto simp: is_dec_def)
qed

lemma dec_value_append: "dec_value n (s @ [c]) = dec_value n s * 10 + (unat c - 48)"
  by (simp add: dec_value_def)

lemma dec_value_digits: "dec_value 0 (dec_digits n) = n"
proof (induction n rule: dec_digits.induct)
  case (1 n)
  show ?case
  proof (cases "n < 10")
    case True
    then show ?thesis
      by (subst dec_digits.simps) (simp add: dec_value_def digit_char)
  next
    case False
    with 1 show ?thesis
      by (subst dec_digits.simps) (simp add: dec_value_append digit_char)
  qed
qed

lemma length_dec_digits: "n < 10 ^ k \<Longrightarrow> 0 < k \<Longrightarrow> length (dec_digits n) \<le> k"
proof (induction n arbitrary: k rule: dec_digits.induct)
  case (1 n)
  show ?case
  proof (cases "n < 10")
    case True
    with 1(3) show ?thesis by (subst dec_digits.simps) simp
  next
    case False
    with 1(2,3) obtain j where k: "k = Suc j" by (cases k) auto
    with False 1(2) have "0 < j" by (cases j) auto
    from k 1(2) have "n div 10 < 10 ^ j" by simp
    with 1(1) False k \<open>0 < j\<close> show ?thesis by (subst dec_digits.simps) simp
  qed
qed

lemma length_dec_digits_u64: "length (dec_digits (unat (v :: u64))) \<le> 20"
  using unat_less_2p64 [of v] by (intro length_dec_digits) simp_all

lemma dec_digits_no_nul: "0 \<notin> set (dec_digits n)"
  using is_dec_digits [of n] by (auto simp: is_dec_def)

lemma size_loop_eq:
  "size_loop v s = s + of_nat (length (dec_digits (unat v)) - 1)"
proof (induction v s rule: size_loop.induct)
  case (1 v s)
  show ?case
  proof (cases "0 < v div 10")
    case True
    then have ge: "\<not> unat v < 10"
      by (auto simp: word_less_nat_alt unat_div)
    have "length (dec_digits (unat v)) - 1 = Suc (length (dec_digits (unat v div 10)) - 1)"
      using ge by (subst dec_digits.simps) (simp add: Suc_leI)
    then have "(of_nat (length (dec_digits (unat v)) - 1) :: u8)
        = 1 + of_nat (length (dec_digits (unat v div 10)) - 1)"
      using of_nat_minus_1 [of "length (dec_digits (unat v div 10))", where ?'a = 8]
      by (simp add: add.commute)
    with 1 True show ?thesis
      by (subst size_loop.simps) (simp add: unat_div)
  next
    case False
    then have "unat v < 10"
      by (auto simp: word_less_nat_alt unat_div)
    with False show ?thesis
      by (subst size_loop.simps, subst dec_digits.simps) simp
  qed
qed

text \<open>
  One run of the digit loop and the write after it, when \<open>size - index\<close> is \<open>k\<close> more than the
  position of the last digit: the digits land \<open>k\<close> bytes into the buffer, nothing else changes.
\<close>

lemma digit_loop_writes:
  assumes "digit_loop out sz index v m = (index', v', m')"
    and "unat sz = unat index + (length (dec_digits (unat v)) - 1) + k"
  shows "\<forall>j < 18446744073709551616.
     (m'(out + (ucast sz - ucast index') := ucast (v' mod 10) + 48)) (out + of_nat j) =
       (if k \<le> j \<and> j < k + length (dec_digits (unat v)) then dec_digits (unat v) ! (j - k)
        else m (out + of_nat j))"
  using assms
proof (induction out sz index v m arbitrary: index' v' m' rule: digit_loop.induct)
  case (1 out sz index v m)
  let ?L = "length (dec_digits (unat v))" and ?d = "ucast (v mod 10) + 48 :: u8"
  have L: "?L \<le> 20" by (rule length_dec_digits_u64)
  have d: "?d = 48 + of_nat (unat v mod 10)"
    by (simp add: ucast_eq_of_nat [of "v mod 10"] unat_mod del: of_nat_unat)
  have k: "k < 256" using "1.prems"(2) unat_less_256 [of sz] by simp
  have diff: "ucast sz - ucast index = (of_nat (?L - 1 + k) :: u64)"
    using "1.prems"(2) by (simp add: ucast_eq_of_nat del: of_nat_unat)
  have pos: "out + of_nat j = out + (ucast sz - ucast index) \<longleftrightarrow> j = ?L - 1 + k"
    if "j < 18446744073709551616" for j
    using that L k unfolding diff by (intro offset_inj) simp_all
  show ?case
  proof (cases "0 < v div 10")
    case True
    then have ge: "\<not> unat v < 10"
      by (auto simp: word_less_nat_alt unat_div)
    let ?m = "m(out + (ucast sz - ucast index) := ?d)"
    have digits: "dec_digits (unat v) = dec_digits (unat (v div 10)) @ [?d]"
      using ge d by (subst dec_digits.simps) (simp add: unat_div)
    then have len: "?L = Suc (length (dec_digits (unat (v div 10))))" by simp
    then have "2 \<le> ?L" by (cases "dec_digits (unat (v div 10))") auto
    with "1.prems"(2) have "unat index < 255"
      using unat_less_256 [of sz] by simp
    then have "unat (index + 1) = Suc (unat index)"
      by (intro unat_Suc_not_max) (auto simp: unsigned_minus_1_eq_mask mask_eq_exp_minus_1)
    with "1.prems"(2) len \<open>2 \<le> ?L\<close>
    have "unat sz = unat (index + 1) + (length (dec_digits (unat (v div 10))) - 1) + k"
      by simp
    moreover have "digit_loop out sz (index + 1) (v div 10) ?m = (index', v', m')"
      using "1.prems"(1) True by (simp add: digit_loop.simps [of out sz index v m])
    ultimately have IH: "\<forall>j < 18446744073709551616.
        (m'(out + (ucast sz - ucast index') := ucast (v' mod 10) + 48)) (out + of_nat j) =
          (if k \<le> j \<and> j < k + length (dec_digits (unat (v div 10)))
           then dec_digits (unat (v div 10)) ! (j - k) else ?m (out + of_nat j))"
      using "1.IH" [OF True] by blast
    show ?thesis
    proof (intro allI impI)
      fix j :: nat
      assume j: "j < 18446744073709551616"
      then have "?m (out + of_nat j) = (if j = ?L - 1 + k then ?d else m (out + of_nat j))"
        using pos by simp
      with IH j len show "(m'(out + (ucast sz - ucast index') := ucast (v' mod 10) + 48))
            (out + of_nat j) =
          (if k \<le> j \<and> j < k + ?L then dec_digits (unat v) ! (j - k) else m (out + of_nat j))"
        by (auto simp: digits nth_append less_Suc_eq)
    qed
  next
    case False
    then have "unat v < 10"
      by (auto simp: word_less_nat_alt unat_div)
    then have "dec_digits (unat v) = [?d]"
      using d by (subst dec_digits.simps) simp
    moreover have "index' = index" "v' = v" "m' = m"
      using "1.prems"(1) False by (simp_all add: digit_loop.simps)
    ultimately show ?thesis
      using pos by auto
  qed
qed

text \<open>
  With \<open>size\<close> starting at 0, the buffer holds the decimal digits of the value and a NUL; every
  other byte is untouched.
\<close>

lemma write_digits_at:
  assumes j: "j < 18446744073709551616"
  shows "write_digits out (size_loop v 0) v m (out + of_nat j) =
    (let D = dec_digits (unat v)
     in if j < length D then D ! j else if j = length D then 0 else m (out + of_nat j))"
proof -
  let ?D = "dec_digits (unat v)" and ?sz = "size_loop v 0"
  obtain i w m' where loop: "digit_loop out ?sz 0 v m = (i, w, m')"
    by (cases "digit_loop out ?sz 0 v m")
  let ?r = "m'(out + (ucast ?sz - ucast i) := ucast (w mod 10) + 48)"
  have L: "length ?D \<le> 20" by (rule length_dec_digits_u64)
  have sz: "unat ?sz = length ?D - 1"
    using L by (simp add: size_loop_eq unat_of_nat)
  then have writes: "\<forall>j < 18446744073709551616. ?r (out + of_nat j) =
      (if j < length ?D then ?D ! j else m (out + of_nat j))"
    using digit_loop_writes [OF loop, of 0] by simp
  have "(ucast ?sz :: u64) = of_nat (length ?D - 1)"
    by (simp only: ucast_eq_of_nat sz)
  then have last: "ucast ?sz + 1 = (of_nat (length ?D) :: u64)"
    using of_nat_minus_1 [of "length ?D"] by simp
  have "write_digits out ?sz v m = ?r(out + of_nat (length ?D) := 0)"
    by (simp add: write_digits_def loop Let_def last)
  then show ?thesis
    using j L writes [rule_format, OF j] by (simp add: Let_def of_nat_eq64)
qed

lemma write_digits_cstr: "cstr (write_digits out (size_loop v 0) v m) out (dec_digits (unat v))"
  using length_dec_digits_u64 [of v]
  by (auto simp: cstr_def dec_digits_no_nul write_digits_at Let_def intro!: nth_equalityI)

text \<open>A byte at least 21 bytes from the start of the buffer.\<close>

lemma write_digits_frame: "21 \<le> unat (a - out) \<Longrightarrow> write_digits out (size_loop v 0) v m a = m a"
  using write_digits_at [of "unat (a - out)" out v m] unat_less_2p64 [of "a - out"] length_dec_digits_u64 [of v]
  by (simp add: Let_def)

lemma inttostr_frame: "128 \<le> unat (a - out) \<Longrightarrow> inttostr out 0 v m a = m a"
  by (simp add: inttostr_def write_digits_frame memset_eq word_less_nat_alt)

lemma inttostr_cstr: "cstr (inttostr out 0 v m) out (dec_digits (unat v))"
  by (simp add: inttostr_def write_digits_cstr)

text \<open>So \<open>atoi\<close> reads back what \<open>inttostr\<close> wrote, modulo the width of \<open>int\<close>.\<close>

lemma atoi_inttostr: "atoi (inttostr out 0 v m) out = Some (ucast v)"
proof -
  have "length (dec_digits (unat v)) < 2147483648"
    using length_dec_digits_u64 [of v] by simp
  then have "atoi (inttostr out 0 v m) out = Some (of_nat (unat v))"
    using atoi_dec [OF inttostr_cstr] is_dec_digits by (simp add: dec_value_digits)
  then show ?thesis by simp
qed

text \<open>Any other start value leaves the first byte of the buffer NUL: the result is empty.\<close>

lemma inttostr_garbage:
  assumes "0 < size0" and "unat size0 \<le> 200"
  shows "cstr (inttostr out size0 v m) out []"
proof -
  let ?D = "dec_digits (unat v)" and ?m = "memset out 0 128 m" and ?sz = "size_loop v size0"
  obtain i w m' where loop: "digit_loop out ?sz 0 v ?m = (i, w, m')"
    by (cases "digit_loop out ?sz 0 v ?m")
  let ?r = "m'(out + (ucast ?sz - ucast i) := ucast (w mod 10) + 48)"
  have L: "length ?D \<le> 20" by (rule length_dec_digits_u64)
  have "unat (of_nat (length ?D - 1) :: u8) = length ?D - 1"
    using L by (simp add: unat_of_nat)
  then have sz: "unat ?sz = length ?D - 1 + unat size0"
    using L assms(2) unat_add_small [of size0 "of_nat (length ?D - 1)"]
    by (simp add: size_loop_eq)
  then have writes: "\<forall>j < 18446744073709551616. ?r (out + of_nat j) =
      (if unat size0 \<le> j \<and> j < unat size0 + length ?D then ?D ! (j - unat size0)
       else ?m (out + of_nat j))"
    using digit_loop_writes [OF loop, of "unat size0"] by simp
  have "0 < unat size0" using assms(1) by (simp add: word_less_nat_alt)
  then have "?r out = 0"
    using writes [rule_format, of 0] by (simp add: memset_eq)
  moreover have "(ucast ?sz + 1 :: u64) \<noteq> 0"
  proof -
    have "(ucast ?sz + 1 :: u64) = of_nat (Suc (unat ?sz))" by simp
    moreover have "unat (of_nat (Suc (unat ?sz)) :: u64) = Suc (unat ?sz)"
      using unat_less_256 [of ?sz] by (intro unat_of_nat64) simp
    ultimately show ?thesis by (metis Zero_not_Suc unat_0)
  qed
  ultimately show ?thesis
    by (simp add: inttostr_def write_digits_def loop Let_def)
qed

section \<open>inttostr on int64_t\<close>

text \<open>Division and remainder of C on a signed value truncate towards zero.\<close>

definition sdiv10 :: "i64 \<Rightarrow> i64" where
  "sdiv10 v = word_of_int (sint v sdiv 10)"

definition smod10 :: "i64 \<Rightarrow> i64" where
  "smod10 v = word_of_int (sint v smod 10)"

lemma sdiv_nonneg: "0 \<le> k \<Longrightarrow> k sdiv 10 = k div (10 :: int)"
  and smod_nonneg: "0 \<le> k \<Longrightarrow> k smod 10 = k mod (10 :: int)"
  by (cases "k = 0"; simp add: signed_divide_int_def signed_modulo_int_def sgn_if)+

lemma sdiv10_nonneg: "0 \<le> sint v \<Longrightarrow> sdiv10 v = v div 10"
  and smod10_nonneg: "0 \<le> sint v \<Longrightarrow> smod10 v = v mod 10"
proof -
  assume v: "0 \<le> sint v"
  then have "sint v sdiv 10 = int (unat v div 10)" "sint v smod 10 = int (unat v mod 10)"
    using sdiv_nonneg [OF v] smod_nonneg [OF v]
    by (simp_all only: sint_nonneg of_nat_div of_nat_mod of_nat_numeral)
  then show "sdiv10 v = v div 10" "smod10 v = v mod 10"
    by (simp_all add: sdiv10_def smod10_def word_arith_nat_div word_arith_nat_mod)
qed

lemma sint_sdiv10: "sint (sdiv10 v) = sint v sdiv 10"
proof -
  define x where "x = sint v"
  have "- 9223372036854775808 \<le> x" "x < 9223372036854775808"
    using sint_ge [of v] sint_lt [of v] by (simp_all add: x_def)
  moreover from this have "- 9223372036854775808 \<le> x sdiv 10" "x sdiv 10 < 9223372036854775808"
    by (auto simp: signed_divide_int_def sgn_if)
  ultimately show ?thesis
    by (simp add: sdiv10_def signed_of_int signed_take_bit_int_eq_self flip: x_def)
qed

function sdigit_loop ::
    "u64 \<Rightarrow> u8 \<Rightarrow> u8 \<Rightarrow> u8 \<Rightarrow> i64 \<Rightarrow> mem \<Rightarrow> u8 \<times> i64 \<times> mem" where
  "sdigit_loop out isNegative sz index val m =
     (if 0 < sint (sdiv10 val)
      then sdigit_loop out isNegative sz (index + 1) (sdiv10 val)
             (m(out + (ucast isNegative + ucast sz - ucast index) := ucast (smod10 val) + 48))
      else (index, val, m))"
  by pat_completeness auto

termination sdigit_loop
proof (relation "measure (\<lambda>(out, n, s, i, v, m). nat (sint v))")
  fix out :: u64 and n s i :: u8 and v :: i64 and m :: mem
  assume "0 < sint (sdiv10 v)"
  then have "0 < sint v sdiv 10" by (simp add: sint_sdiv10)
  then have "0 < sint v" "sint v sdiv 10 < sint v"
    by (auto simp: signed_divide_int_def sgn_if split: if_splits)
  then show "((out, n, s, i + 1, sdiv10 v,
        m(out + (ucast n + ucast s - ucast i) := ucast (smod10 v) + 48)), out, n, s, i, v, m)
      \<in> measure (\<lambda>(out, n, s, i, v, m). nat (sint v))"
    by (simp add: sint_sdiv10)
qed simp

declare sdigit_loop.simps [simp del]

definition inttostr_s64 :: "u64 \<Rightarrow> u8 \<Rightarrow> i64 \<Rightarrow> mem \<Rightarrow> mem" where
  "inttostr_s64 out size0 val m =
     (let m = memset out 0 128 m;
          isNegative = (if sint val < 0 then 1 else 0);
          m = (if sint val < 0 then m(out := 45) else m);
          val = (if sint val < 0 then val * - 1 else val);
          sz = size_loop val size0;
          (index, val, m) = sdigit_loop out isNegative sz 0 val m;
          m = m(out + (ucast isNegative + ucast sz - ucast index) := ucast (smod10 val) + 48)
      in m(out + (ucast isNegative + ucast sz + 1) := 0))"

text \<open>On a non-negative value the signed loop is the unsigned one, behind the sign.\<close>

lemma sdigit_loop_nonneg:
  "0 \<le> sint v \<Longrightarrow> sdigit_loop out n sz i v m = digit_loop (out + ucast n) sz i v m"
proof (induction out n sz i v m rule: sdigit_loop.induct)
  case (1 out n sz i v m)
  have "0 \<le> sint v sdiv 10"
    using "1.prems" by (simp add: sdiv_nonneg)
  then have nn: "0 \<le> sint (sdiv10 v)" by (simp only: sint_sdiv10)
  then have "0 < sint (sdiv10 v) \<longleftrightarrow> 0 < sdiv10 v"
    using sint_nonneg [OF nn] by (simp add: word_less_def)
  then have cond: "0 < sint (sdiv10 v) \<longleftrightarrow> 0 < v div 10"
    using "1.prems" by (simp add: sdiv10_nonneg)
  show ?case
  proof (cases "0 < v div 10")
    case True
    with "1.IH" nn cond "1.prems" show ?thesis
      by (simp add: sdigit_loop.simps [of out n sz i v m]
          digit_loop.simps [of "out + ucast n" sz i v m] sdiv10_nonneg smod10_nonneg
          add.assoc add_diff_eq del: fun_upd_apply)
  next
    case False
    with cond show ?thesis
      by (simp add: sdigit_loop.simps [of out n sz i v m]
          digit_loop.simps [of "out + ucast n" sz i v m])
  qed
qed


lemma sint_small: "unat v < 9223372036854775808 \<Longrightarrow> sint (v :: i64) = int (unat v)"
proof -
  assume v: "unat v < 9223372036854775808"
  then have "int (unat v) < int 9223372036854775808" by (simp only: of_nat_less_iff)
  then have "int (unat v) < 2 ^ 63" by simp
  moreover have "- (2 ^ 63) \<le> int (unat v)"
    by (rule order_trans [of _ 0]) simp_all
  ultimately have "signed_take_bit 63 (int (unat v)) = int (unat v)"
    by (intro signed_take_bit_int_eq_self)
  then show ?thesis by (simp add: sint_uint)
qed

lemma digit_loop_last:
  "digit_loop out sz i v m = (i', v', m') \<Longrightarrow> unat v' < 10"
proof (induction out sz i v m rule: digit_loop.induct)
  case (1 out sz i v m)
  show ?case
  proof (cases "0 < v div 10")
    case True
    with 1 show ?thesis
      by (simp add: digit_loop.simps [of out sz i v m] del: fun_upd_apply)
  next
    case False
    with 1 have "v' = v" by (simp add: digit_loop.simps [of out sz i v m])
    with False show ?thesis by (auto simp: word_less_nat_alt unat_div)
  qed
qed

text \<open>The part of the signed conversion after the sign, as the unsigned writer.\<close>

lemma signed_part:
  assumes "0 \<le> sint v"
  shows "(let (index, val, m) = sdigit_loop out n sz 0 v m;
              m = m(out + (ucast n + ucast sz - ucast index) := ucast (smod10 val) + 48)
          in m(out + (ucast n + ucast sz + 1) := 0))
       = write_digits (out + ucast n) sz v m"
proof -
  obtain i w m' where loop: "digit_loop (out + ucast n) sz 0 v m = (i, w, m')"
    by (cases "digit_loop (out + ucast n) sz 0 v m")
  then have "unat w < 10" by (rule digit_loop_last)
  then have "0 \<le> sint w" by (simp add: sint_small)
  then have "smod10 w = w mod 10" by (rule smod10_nonneg)
  with loop show ?thesis
    by (simp add: sdigit_loop_nonneg [OF assms] write_digits_def Let_def add.assoc add_diff_eq)
qed

lemma inttostr_s64_nonneg:
  "0 \<le> sint v \<Longrightarrow> inttostr_s64 out size0 v m = inttostr out size0 v m"
  using signed_part [of v out 0 "size_loop v size0" "memset out 0 128 m"]
  by (simp add: inttostr_s64_def inttostr_def Let_def)

lemma inttostr_s64_neg:
  assumes neg: "sint v < 0" and nmin: "v \<noteq> 0x8000000000000000"
  shows "cstr (inttostr_s64 out 0 v m) out (45 # dec_digits (nat (- sint v)))"
proof -
  let ?m = "(memset out 0 128 m)(out := 45)"
  have v: "sint v = int (unat v) - 18446744073709551616"
    using sint_neg [OF neg] by simp
  have "- 9223372036854775808 \<le> sint v" using sint_ge [of v] by simp
  moreover have "unat v \<noteq> 9223372036854775808"
    using nmin by (metis of_nat_numeral of_nat_unat_id)
  ultimately have big: "9223372036854775808 < unat v" using v by linarith
  then have "v \<noteq> 0" by auto
  then have uv: "unat (- v) = 18446744073709551616 - unat v" by (rule unat_uminus)
  with big have small: "unat (- v) < 9223372036854775808" by simp
  then have nn: "0 \<le> sint (- v)" by (simp add: sint_small)
  have digits: "nat (- sint v) = unat (- v)"
    using v uv unat_less_2p64 [of v] by arith
  have "inttostr_s64 out 0 v m = write_digits (out + 1) (size_loop (- v) 0) (- v) ?m"
    using neg signed_part [OF nn, of out 1 "size_loop (- v) 0" ?m]
    by (simp add: inttostr_s64_def Let_def)
  then show ?thesis
    using write_digits_cstr [of "out + 1" "- v" ?m] digits
      write_digits_frame [of out "out + 1" "- v" ?m] by (simp add: unsigned_minus_1_eq_mask mask_eq_exp_minus_1)
qed

section \<open>inttohstr\<close>

definition hex_char :: "u8 \<Rightarrow> u8" where
  "hex_char tmp = tmp + (if tmp > 9 then 55 else 48)"

text \<open>
  The object that \<open>valPtr\<close> points to, byte by byte: the value, little endian, in its first
  \<open>n\<close> bytes, then what the stack holds above it.
\<close>

definition obj_byte :: "nat \<Rightarrow> 'w::len word \<Rightarrow> (nat \<Rightarrow> u8) \<Rightarrow> nat \<Rightarrow> u8" where
  "obj_byte n val stack i = (if i < n then ucast (drop_bit (8 * i) val) else stack i)"

text \<open>
  The loop all four overloads share: \<open>size\<close> is the index of the last digit, and also, by the
  loop condition \<open>i < size\<close>, the number of bytes read.
\<close>

definition hex_loop :: "u64 \<Rightarrow> nat \<Rightarrow> (nat \<Rightarrow> u8) \<Rightarrow> mem \<Rightarrow> mem" where
  "hex_loop out sz ptr m =
     fold (\<lambda>i m.
       let tmp = drop_bit 4 (ptr i AND 0xF0);
           m = m(out + (of_nat sz - (of_nat i * 2 + 1)) := hex_char tmp);
           tmp = ptr i AND 0x0F
       in m(out + (of_nat sz - of_nat i * 2) := hex_char tmp)) [0..<sz] m"

definition inttohstr64 :: "u64 \<Rightarrow> (nat \<Rightarrow> u8) \<Rightarrow> u64 \<Rightarrow> mem \<Rightarrow> mem" where
  "inttohstr64 out stack val m =
     (hex_loop out (8 * 2 - 1) (obj_byte 8 val stack) (memset out 0 128 m))(out + 16 := 0)"

definition inttohstr32 :: "u64 \<Rightarrow> (nat \<Rightarrow> u8) \<Rightarrow> u32 \<Rightarrow> mem \<Rightarrow> mem" where
  "inttohstr32 out stack val m =
     (hex_loop out (4 * 2 - 1) (obj_byte 4 val stack) (memset out 0 128 m))(out + 8 := 0)"

definition inttohstr16 :: "u64 \<Rightarrow> (nat \<Rightarrow> u8) \<Rightarrow> u16 \<Rightarrow> mem \<Rightarrow> mem" where
  "inttohstr16 out stack val m =
     (hex_loop out (2 * 2 - 1) (obj_byte 2 val stack) (memset out 0 128 m))(out + 4 := 0)"

definition inttohstr8 :: "u64 \<Rightarrow> (nat \<Rightarrow> u8) \<Rightarrow> u8 \<Rightarrow> mem \<Rightarrow> mem" where
  "inttohstr8 out stack val m =
     (hex_loop out (1 * 2 - 1) (obj_byte 1 val stack) (memset out 0 128 m))(out + 2 := 0)"

text \<open>The digit at distance \<open>t\<close> below the last position.\<close>

definition hex_at :: "(nat \<Rightarrow> u8) \<Rightarrow> nat \<Rightarrow> u8" where
  "hex_at ptr t =
     (if even t then hex_char (ptr (t div 2) AND 0x0F)
      else hex_char (drop_bit 4 (ptr (t div 2) AND 0xF0)))"

lemma eq_top_minus:
  "t < 18446744073709551616 \<Longrightarrow> a = e - of_nat t \<longleftrightarrow> unat (e - a :: u64) = t"
proof
  assume t: "t < 18446744073709551616"
  then show "a = e - of_nat t \<Longrightarrow> unat (e - a) = t"
    by (simp add: unat_of_nat64)
  assume "unat (e - a) = t"
  then have "of_nat t = e - a"
    by (simp only: of_nat_unat_id flip: \<open>unat (e - a) = t\<close>)
  then show "a = e - of_nat t" by simp
qed

lemma hex_loop_eq:
  assumes "sz < 1000"
  shows "hex_loop out sz ptr m =
    (\<lambda>a. let t = unat (out + of_nat sz - a) in if t < 2 * sz then hex_at ptr t else m a)"
proof -
  let ?top = "out + of_nat sz :: u64"
  have "fold (\<lambda>i m.
       let tmp = drop_bit 4 (ptr i AND 0xF0);
           m = m(out + (of_nat sz - (of_nat i * 2 + 1)) := hex_char tmp);
           tmp = ptr i AND 0x0F
       in m(out + (of_nat sz - of_nat i * 2) := hex_char tmp)) [0..<n] m =
      (\<lambda>a. let t = unat (?top - a) in if t < 2 * n then hex_at ptr t else m a)"
    if "n < 1000" for n
    using that
  proof (induction n)
    case 0
    then show ?case by simp
  next
    case (Suc n)
    have lo: "a = out + (of_nat sz - of_nat n * 2) \<longleftrightarrow> unat (?top - a) = 2 * n" for a
      using eq_top_minus [of "2 * n" a ?top] Suc.prems by (simp add: algebra_simps)
    have hi: "a = out + (of_nat sz - (of_nat n * 2 + 1)) \<longleftrightarrow> unat (?top - a) = 2 * n + 1" for a
      using eq_top_minus [of "2 * n + 1" a ?top] Suc.prems by (simp add: algebra_simps)
    show ?case
      using Suc
      by (auto simp: fun_eq_iff Let_def lo hi hex_at_def)
  qed
  with assms show ?thesis by (simp add: hex_loop_def)
qed

text \<open>The hexadecimal digits of a word, most significant first.\<close>

definition nibble :: "nat \<Rightarrow> 'w::len word \<Rightarrow> u8" where
  "nibble t w = ucast (drop_bit (4 * t) w) AND 15"

definition hex_digits :: "nat \<Rightarrow> 'w::len word \<Rightarrow> u8 list" where
  "hex_digits k w = map (\<lambda>j. hex_char (nibble (k - 1 - j) w)) [0..<k]"

lemma fifteen: "(15 :: u8) = mask 4"
  by (simp add: mask_eq_exp_minus_1)

lemma high_nibble: "drop_bit 4 (x AND 0xF0) = drop_bit 4 x AND (15 :: u8)"
  by (simp add: drop_bit_and)

lemma hex_at_obj:
  "t div 2 < n \<Longrightarrow> hex_at (obj_byte n (val :: 'w::len word) stack) t = hex_char (nibble t val)"
proof (cases "even t")
  case True
  then obtain j where "t = 2 * j" by (rule evenE)
  then show "t div 2 < n \<Longrightarrow> ?thesis"
    by (simp add: hex_at_def obj_byte_def nibble_def)
next
  case False
  then have t: "8 * (t div 2) + 4 = 4 * t" by presburger
  have "drop_bit 4 (ucast (drop_bit (8 * (t div 2)) val) :: u8) AND 15 = nibble t val"
    unfolding nibble_def t [symmetric] fifteen
    by (rule bit_word_eqI) (auto simp: bit_simps ac_simps)
  with False show "t div 2 < n \<Longrightarrow> ?thesis"
    by (simp add: hex_at_def obj_byte_def high_nibble)
qed

lemma hex_char_not_nul: "hex_char (nibble t w) \<noteq> 0"
proof -
  have "nibble t w \<le> 15"
    unfolding nibble_def by (rule word_and_le1)
  then have "unat (nibble t w) \<le> 15" by (simp add: word_le_nat_alt)
  then have "unat (hex_char (nibble t w)) \<noteq> 0"
    by (auto simp: hex_char_def unat_word_ariths)
  then show ?thesis by auto
qed

lemma hex_loop_digits:
  fixes val :: "'w::len word"
  assumes k: "0 < n" "n < 400"
  shows "cstr ((hex_loop out (2 * n - 1) (obj_byte n val stack) m)(out + of_nat (2 * n) := 0))
           out (hex_digits (2 * n) val)"
proof -
  let ?h = "hex_loop out (2 * n - 1) (obj_byte n val stack) m"
  have "?h (out + of_nat j) = hex_char (nibble (2 * n - 1 - j) val)" if j: "j < 2 * n" for j
  proof -
    have "out + of_nat (2 * n - 1) - (out + of_nat j) = (of_nat (2 * n - 1 - j) :: u64)"
      using j by (simp add: of_nat_diff)
    then have "unat (out + of_nat (2 * n - 1) - (out + of_nat j)) = 2 * n - 1 - j"
      using k by (simp only:) (rule unat_of_nat64, simp)
    moreover have "2 * n - 1 - j < 2 * (2 * n - 1)" "(2 * n - 1 - j) div 2 < n"
      using k j by linarith+
    moreover have "2 * n - 1 < 1000" using k by simp
    ultimately show ?thesis
      by (simp only: hex_loop_eq Let_def if_True hex_at_obj)
  qed
  moreover have "out + of_nat j \<noteq> out + (of_nat (2 * n) :: u64)" if "j < 2 * n" for j
    using that k offset_inj [of j "2 * n" out] by simp
  ultimately show ?thesis
    by (auto simp: cstr_def hex_digits_def intro!: nth_equalityI)
       (metis hex_char_not_nul)
qed

text \<open>A byte outside the stretch from 14 bytes in front of the buffer to its end.\<close>

lemma inttohstr64_frame:
  assumes "142 \<le> unat (a - (out - 14))"
  shows "inttohstr64 out stack v m a = m a"
proof -
  define x where "x = unat (a - (out - 14))"
  have x: "142 \<le> x" "x < 18446744073709551616" using assms unat_less_2p64 by (simp_all add: x_def)
  have a: "a = out - 14 + of_nat x" by (simp add: x_def)
  have "unat (a - (out - 14) - of_nat 14) = x - 14"
    using unat_shift [of 14 a "out - 14"] x by (simp add: x_def diff_diff_eq)
  then have b: "128 \<le> unat (a - out)" using x by (simp add: x_def)
  have t: "30 \<le> unat (out + 15 - a)"
  proof -
    obtain y where y: "x = y + 29" using x le_iff_add [of 29 x] by (auto simp: add.commute)
    have "out + 15 - a = - of_nat y" by (simp add: a y)
    moreover have u: "unat (of_nat y :: u64) = y" using x y by (simp add: unat_of_nat64)
    moreover have "(of_nat y :: u64) \<noteq> 0" using x y u by auto
    ultimately have "unat (out + 15 - a) = 18446744073709551616 - y" by (simp add: unat_uminus)
    then show ?thesis using x y by simp
  qed
  have "a \<noteq> out + 16" using b by auto
  then show ?thesis
    using b t by (simp add: inttohstr64_def hex_loop_eq Let_def memset_eq word_less_nat_alt)
qed

section \<open>Properties\<close>


lemma inttohstr64_cstr: "cstr (inttohstr64 out stack v m) out (hex_digits 16 v)"
  using hex_loop_digits [of 8 out v stack "memset out 0 128 m"] by (simp add: inttohstr64_def)

text \<open>
  C35: \<open>inttohstr\<close> of a 64-bit value leaves its sixteen hexadecimal digits in the buffer; its
  loop runs to \<open>i < size\<close> with \<open>size\<close> the number of digits less one, so it also reads seven
  bytes of the stack past the value and writes their digits into the fourteen bytes in front of
  the buffer.
\<close>

theorem inttohstr64_result:
  "cstr (inttohstr64 out stack v m) out (hex_digits 16 v) \<and>
   map (\<lambda>k. inttohstr64 out stack v m (out - of_nat k)) [1..<15] =
   map (\<lambda>k. hex_at (obj_byte 8 v stack) (15 + k)) [1..<15]"
proof
  show "cstr (inttohstr64 out stack v m) out (hex_digits 16 v)" by (rule inttohstr64_cstr)
  have "inttohstr64 out stack v m (out - of_nat k) = hex_at (obj_byte 8 v stack) (15 + k)"
    if k: "1 \<le> k" "k < 15" for k
  proof -
    have u: "unat (of_nat (15 + k) :: u64) = 15 + k"
      using k by (intro unat_of_nat64) simp
    have "out + of_nat 15 - (out - of_nat k) = (of_nat (15 + k) :: u64)" by simp
    moreover have "out - of_nat k \<noteq> out + 16"
    proof
      assume "out - of_nat k = out + 16"
      then have "(of_nat (k + 16) :: u64) = 0" by (simp add: algebra_simps)
      moreover have "unat (of_nat (k + 16) :: u64) = k + 16"
        using k by (intro unat_of_nat64) simp
      ultimately show False by (simp only: unat_0)
    qed
    ultimately show ?thesis
      using k u by (simp add: inttohstr64_def hex_loop_eq Let_def del: of_nat_add)
  qed
  then show "map (\<lambda>k. inttohstr64 out stack v m (out - of_nat k)) [1..<15] =
      map (\<lambda>k. hex_at (obj_byte 8 v stack) (15 + k)) [1..<15]"
    by simp
qed

end
