(* ===== verification/Paging.thy ===== *)
theory Paging
  imports Memory
begin

unbundle bit_operations_syntax

text \<open>
  The entries of the page tables, \<open>memory/paging.cpp\<close>, and the two ways the kernel splits a
  virtual address into table indexes: \<open>PageMapIndexer\<close> (\<open>memory/pmi.cpp\<close>) and
  \<open>GetIndexes\<close> (\<open>memory/ptm.cpp\<close>).
\<close>

section \<open>Entries\<close>

datatype PT_Flag =
  Present | ReadWrite | UserSuper | WriteThrough | CacheDisabled | Accessed | LargerPages
  | Custom0 | Custom1 | Custom2 | NX

fun flag_bit :: "PT_Flag \<Rightarrow> nat" where
  "flag_bit Present = 0"
| "flag_bit ReadWrite = 1"
| "flag_bit UserSuper = 2"
| "flag_bit WriteThrough = 3"
| "flag_bit CacheDisabled = 4"
| "flag_bit Accessed = 5"
| "flag_bit LargerPages = 7"
| "flag_bit Custom0 = 9"
| "flag_bit Custom1 = 10"
| "flag_bit Custom2 = 11"
| "flag_bit NX = 63"

definition SetFlag :: "PT_Flag \<Rightarrow> bool \<Rightarrow> u64 \<Rightarrow> u64" where
  "SetFlag flag enabled Value =
     (let bitSelector = push_bit (flag_bit flag) 1;
          Value = Value AND NOT bitSelector
      in if enabled then Value OR bitSelector else Value)"

text \<open>\<open>Value & bitSelector > 0\<close> parses as \<open>Value & (bitSelector > 0)\<close>.\<close>

definition GetFlag :: "PT_Flag \<Rightarrow> u64 \<Rightarrow> bool" where
  "GetFlag flag Value =
     (let bitSelector = push_bit (flag_bit flag) 1 :: u64
      in Value AND (if bitSelector > 0 then 1 else 0) \<noteq> 0)"

definition GetAddress :: "u64 \<Rightarrow> u64" where
  "GetAddress Value = drop_bit 12 (Value AND 0x000ffffffffff000)"

definition SetAddress :: "u64 \<Rightarrow> u64 \<Rightarrow> u64" where
  "SetAddress address Value =
     (let address = address AND 0x000000ffffffffff;
          Value = Value AND 0xfff0000000000fff
      in Value OR push_bit 12 address)"

text \<open>The masks, bit by bit.\<close>

lemma addr_masks:
  "(0x000000ffffffffff :: u64) = mask 40"
  "(0x000ffffffffff000 :: u64) = push_bit 12 (mask 40)"
  "(0xfff0000000000fff :: u64) = NOT (push_bit 12 (mask 40))"
  by (simp_all add: mask_eq_exp_minus_1)

lemma bit_SetFlag:
  "bit (SetFlag f b v) n \<longleftrightarrow> (if n = flag_bit f then b else bit v n)"
proof -
  have "flag_bit f < 64" by (cases f) simp_all
  then show ?thesis
    unfolding SetFlag_def Let_def by (auto simp: bit_simps dest: bit_imp_le_length)
qed

lemma bit_SetAddress:
  "bit (SetAddress a v) n \<longleftrightarrow> (if 12 \<le> n \<and> n < 52 then bit a (n - 12) else bit v n)"
proof -
  have "bit v n \<Longrightarrow> n < 64" using bit_imp_le_length [of v n] by simp
  then show ?thesis
    unfolding SetAddress_def Let_def addr_masks by (auto simp: bit_simps)
qed

lemma bit_GetAddress:
  "bit (GetAddress v) n \<longleftrightarrow> n < 40 \<and> bit v (n + 12)"
  unfolding GetAddress_def addr_masks by (auto simp: bit_simps ac_simps)

lemma GetFlag_bit_0: "GetFlag f v \<longleftrightarrow> bit v 0"
proof -
  have "(push_bit (flag_bit f) 1 :: u64) > 0"
    by (cases f) (simp_all add: word_gt_0)
  then show ?thesis
    by (simp add: GetFlag_def Let_def and_one_eq bit_0 odd_iff_mod_2_eq_one)
qed

lemma GetAddress_SetAddress: "GetAddress (SetAddress a v) = take_bit 40 a"
  by (rule bit_word_eqI) (auto simp: bit_GetAddress bit_SetAddress bit_simps)

lemma GetAddress_SetFlag:
  "flag_bit f < 12 \<or> flag_bit f = 63 \<Longrightarrow> GetAddress (SetFlag f b v) = GetAddress v"
  by (rule bit_word_eqI) (auto simp: bit_GetAddress bit_SetFlag)

section \<open>Indexes\<close>

record page_map_index =
  PDP_i :: u64
  PD_i :: u64
  PT_i :: u64
  P_i :: u64

definition PageMapIndexer :: "u64 \<Rightarrow> page_map_index" where
  "PageMapIndexer virtualAddress =
     (let va = drop_bit 12 virtualAddress;
          p = va AND 0x1ff;
          va = drop_bit 9 va;
          pt = va AND 0x1ff;
          va = drop_bit 9 va;
          pd = va AND 0x1ff;
          va = drop_bit 9 va;
          pdp = va AND 0x1ff
      in \<lparr>PDP_i = pdp, PD_i = pd, PT_i = pt, P_i = p\<rparr>)"

record page_level_indexes =
  L4_i :: u16
  L3_i :: u16
  L2_i :: u16
  L1_i :: u16

definition GetIndexes :: "u64 \<Rightarrow> page_level_indexes" where
  "GetIndexes address =
     (let addr = drop_bit 12 address;
          l1 = ucast (addr AND 0x01FF);
          addr = drop_bit 9 addr;
          l2 = ucast (addr AND 0x01FF);
          addr = drop_bit 9 addr;
          l3 = ucast (addr AND 0x01FF);
          addr = drop_bit 9 addr;
          l4 = ucast (addr AND 0x01FF)
      in \<lparr>L4_i = l4, L3_i = l3, L2_i = l2, L1_i = l1\<rparr>)"

lemma mask9: "(0x1ff :: 'a::len word) = mask 9"
  by (simp add: mask_eq_exp_minus_1)

lemma index_less: "unat (x AND 0x1ff :: u64) < 512"
proof -
  have "x AND 0x1ff \<le> 0x1ff" by (rule word_and_le1)
  then show ?thesis by (simp add: word_le_nat_alt)
qed

lemma ucast_index: "ucast (ucast (x AND 0x1ff :: u64) :: u16) = x AND (0x1ff :: u64)"
  unfolding mask9 by (rule bit_word_eqI) (auto simp: bit_simps)

lemma GetIndexes_PageMapIndexer:
  "ucast (L4_i (GetIndexes a)) = PDP_i (PageMapIndexer a)"
  "ucast (L3_i (GetIndexes a)) = PD_i (PageMapIndexer a)"
  "ucast (L2_i (GetIndexes a)) = PT_i (PageMapIndexer a)"
  "ucast (L1_i (GetIndexes a)) = P_i (PageMapIndexer a)"
  by (simp_all only: GetIndexes_def PageMapIndexer_def Let_def page_level_indexes.simps
      page_map_index.simps ucast_index)

lemma mask9_bits: "u AND mask 9 = w AND mask 9 \<Longrightarrow> \<forall>n < 9. bit u n = bit (w :: u64) n"
proof (intro allI impI)
  fix n assume h: "u AND mask 9 = w AND mask 9" and n: "(n :: nat) < 9"
  have "bit (u AND mask 9) n = bit (w AND mask 9) n" by (simp only: h)
  with n show "bit u n = bit w n" by (simp add: bit_and_iff bit_mask_iff)
qed

text \<open>The page an address lies in, within 48 bits, is what the four indexes determine.\<close>

lemma PageMapIndexer_eq_iff:
  "PageMapIndexer a = PageMapIndexer b \<longleftrightarrow> take_bit 36 (drop_bit 12 a) = take_bit 36 (drop_bit 12 b)"
proof -
  have split: "take_bit 36 x = take_bit 36 y \<longleftrightarrow>
      x AND mask 9 = y AND mask 9 \<and> drop_bit 9 x AND mask 9 = drop_bit 9 y AND mask 9 \<and>
      drop_bit 18 x AND mask 9 = drop_bit 18 y AND mask 9 \<and>
      drop_bit 27 x AND mask 9 = drop_bit 27 y AND mask 9" (is "?l \<longleftrightarrow> ?r") for x y :: u64
  proof
    assume l: ?l
    have eq: "bit x n = bit y n" if "n < 36" for n
      using arg_cong [OF l, of "\<lambda>z. bit z n"] that by (simp add: bit_take_bit_iff)
    show ?r
      by (intro conjI; rule bit_word_eqI) (auto simp: bit_simps eq)
  next
    assume ?r
    then have r: "\<And>n. n < 9 \<Longrightarrow> bit x n = bit y n" "\<And>n. n < 9 \<Longrightarrow> bit x (9 + n) = bit y (9 + n)"
      "\<And>n. n < 9 \<Longrightarrow> bit x (18 + n) = bit y (18 + n)" "\<And>n. n < 9 \<Longrightarrow> bit x (27 + n) = bit y (27 + n)"
      by (auto dest!: mask9_bits simp: bit_drop_bit_eq)
    have "bit x n = bit y n" if "n < 36" for n
      using r(1) [of n] r(2) [of "n - 9"] r(3) [of "n - 18"] r(4) [of "n - 27"] that
      by (cases "n < 9"; cases "n < 18"; cases "n < 27") auto
    then show ?l by (intro bit_word_eqI) (auto simp: bit_take_bit_iff)
  qed
  show ?thesis
    unfolding PageMapIndexer_def Let_def mask9 split by (auto simp: drop_bit_drop_bit)
qed

section \<open>Properties\<close>

text \<open>
  The fields of an entry do not disturb each other: \<open>SetFlag\<close> changes the bit of its flag
  only, \<open>SetAddress\<close> the forty address bits only, and \<open>GetAddress\<close> reads back what
  \<open>SetAddress\<close> wrote.  \<open>GetFlag\<close>, whose mask is compared before it is applied, reads the
  present bit for every flag it is asked for.
\<close>

theorem entry_fields:
  "(\<forall>n. bit (SetFlag f b v) n = (if n = flag_bit f then b else bit v n)) \<and>
   (\<forall>n. bit (SetAddress a v) n = (if n \<in> {12..<52} then bit a (n - 12) else bit v n)) \<and>
   GetAddress (SetAddress a v) = take_bit 40 a \<and>
   GetAddress (SetFlag f b v) = GetAddress v \<and>
   GetFlag f v = bit v 0"
  using GetAddress_SetFlag [of f b v]
  by (cases f) (auto simp: bit_SetFlag bit_SetAddress GetAddress_SetAddress GetFlag_bit_0)

text \<open>
  C40: The two splittings of a virtual address agree: the 16-bit indexes that \<open>GetIndexes\<close>
  computes for \<open>MapUserspaceMemory\<close> are those \<open>PageMapIndexer\<close> gives \<open>MapMemory\<close>, and two
  addresses have the same four indexes exactly when bits 12 to 47 agree.
\<close>

theorem indexers_agree:
  "ucast (L4_i (GetIndexes a)) = PDP_i (PageMapIndexer a) \<and>
   ucast (L3_i (GetIndexes a)) = PD_i (PageMapIndexer a) \<and>
   ucast (L2_i (GetIndexes a)) = PT_i (PageMapIndexer a) \<and>
   ucast (L1_i (GetIndexes a)) = P_i (PageMapIndexer a) \<and>
   (PageMapIndexer a = PageMapIndexer b) = (take_bit 36 (drop_bit 12 a) = take_bit 36 (drop_bit 12 b))"
  by (simp only: GetIndexes_PageMapIndexer PageMapIndexer_eq_iff simp_thms)

end
