(* ===== verification/PageTableManager.thy ===== *)
theory PageTableManager
  imports PageFrameAllocator Paging
begin

unbundle bit_operations_syntax

text \<open>
  \<open>memory/ptm.cpp\<close>: the four-level page tables in physical memory.  A table is 512 entries of
  eight bytes at a page-aligned address; \<open>entries[i]\<close> of the table at \<open>t\<close> is the quadword at
  \<open>t + i * 8\<close>.  \<open>walk\<close> is what the processor does with them; the results say what \<open>MapMemory\<close>
  and \<open>MapUserspaceMemory\<close> do to every walk.
\<close>

section \<open>The operations\<close>

text \<open>
  One level of \<open>MapMemory\<close>: the next table, requested, cleared and entered if there is none.
  The allocator is a parameter here, so that its contract can be stated as a locale.
\<close>

definition next_table ::
    "('p \<Rightarrow> (u64 \<times> 'p) result) \<Rightarrow> u64 \<Rightarrow> u64 \<Rightarrow> mem \<Rightarrow> 'p \<Rightarrow> (u64 \<times> mem \<times> 'p) result" where
  "next_table req tbl i m p =
     (let PDE = load64 m (tbl + i * 8)
      in if \<not> GetFlag Present PDE
         then rbind (req p) (\<lambda>(pg, p).
                let m = memset pg 0 0x1000 m;
                    PDE = SetAddress (drop_bit 12 pg) PDE;
                    PDE = SetFlag Present True PDE;
                    PDE = SetFlag ReadWrite True PDE
                in Inr (pg, store64 (tbl + i * 8) PDE m, p))
         else Inr (push_bit 12 (GetAddress PDE), m, p))"

definition MapMemory_with ::
    "('p \<Rightarrow> (u64 \<times> 'p) result) \<Rightarrow> u64 \<Rightarrow> u64 \<Rightarrow> u64 \<Rightarrow> mem \<Rightarrow> 'p \<Rightarrow> (mem \<times> 'p) result" where
  "MapMemory_with req PML4 virtualMemory physicalMemory m p =
     (let indexer = PageMapIndexer virtualMemory
      in rbind (next_table req PML4 (PDP_i indexer) m p) (\<lambda>(PDP, m, p).
         rbind (next_table req PDP (PD_i indexer) m p) (\<lambda>(PD, m, p).
         rbind (next_table req PD (PT_i indexer) m p) (\<lambda>(PT, m, p).
           let PDE = load64 m (PT + P_i indexer * 8);
               PDE = SetAddress (drop_bit 12 physicalMemory) PDE;
               PDE = SetFlag Present True PDE;
               PDE = SetFlag ReadWrite True PDE
           in Inr (store64 (PT + P_i indexer * 8) PDE m, p)))))"

definition MapMemory :: "u64 \<Rightarrow> u64 \<Rightarrow> u64 \<Rightarrow> mem \<Rightarrow> pfa \<Rightarrow> (mem \<times> pfa) result" where
  "MapMemory = MapMemory_with RequestPage"

text \<open>One level of \<open>MapUserspaceMemory\<close>: the entry gets the user bit, present or not.\<close>

definition user_level :: "u64 \<Rightarrow> u64 \<Rightarrow> mem \<Rightarrow> u64 \<times> mem" where
  "user_level tbl i m =
     (let entry = load64 m (tbl + i * 8);
          entry = SetFlag UserSuper True entry
      in (push_bit 12 (GetAddress entry), store64 (tbl + i * 8) entry m))"

definition MapUserspaceMemory :: "u64 \<Rightarrow> u64 \<Rightarrow> mem \<Rightarrow> mem" where
  "MapUserspaceMemory PML4 virtualMemory m =
     (let indexes = GetIndexes virtualMemory;
          (l3, m) = user_level PML4 (ucast (L4_i indexes)) m;
          (l2, m) = user_level l3 (ucast (L3_i indexes)) m;
          (l1, m) = user_level l2 (ucast (L2_i indexes)) m;
          (_, m) = user_level l1 (ucast (L1_i indexes)) m
      in m)"

section \<open>Walks\<close>

fun walk :: "mem \<Rightarrow> u64 \<Rightarrow> u64 list \<Rightarrow> u64 option" where
  "walk m t [] = Some t"
| "walk m t (i # is) =
     (let e = load64 m (t + i * 8)
      in if bit e 0 then walk m (push_bit 12 (GetAddress e)) is else None)"

definition path_of :: "u64 \<Rightarrow> u64 list" where
  "path_of v = (let x = PageMapIndexer v in [PDP_i x, PD_i x, PT_i x, P_i x])"

definition translate :: "mem \<Rightarrow> u64 \<Rightarrow> u64 \<Rightarrow> u64 option" where
  "translate m PML4 v = walk m PML4 (path_of v)"

definition idx_ok :: "u64 list \<Rightarrow> bool" where
  "idx_ok p \<longleftrightarrow> (\<forall>i \<in> set p. unat i < 512)"

lemma idx_ok_simps [simp]:
  "idx_ok []" "idx_ok (i # p) \<longleftrightarrow> unat i < 512 \<and> idx_ok p" "idx_ok (p @ q) \<longleftrightarrow> idx_ok p \<and> idx_ok q"
  by (auto simp: idx_ok_def)

lemma path_of_ok: "idx_ok (path_of v)" "length (path_of v) = 4"
  by (auto simp: path_of_def Let_def PageMapIndexer_def index_less)

lemma path_of_eq_iff: "path_of v = path_of w \<longleftrightarrow> PageMapIndexer v = PageMapIndexer w"
  by (auto simp: path_of_def Let_def intro: page_map_index.equality)

lemma walk_append: "walk m t (p @ q) = Option.bind (walk m t p) (\<lambda>t. walk m t q)"
  by (induction p arbitrary: t) (simp_all add: Let_def)

lemma walk_snoc:
  "walk m t (p @ [i]) = Option.bind (walk m t p) (\<lambda>t.
     if bit (load64 m (t + i * 8)) 0 then Some (push_bit 12 (GetAddress (load64 m (t + i * 8)))) else None)"
  by (simp add: walk_append Let_def  split: Option.bind_split)

section \<open>Entries in memory\<close>

text \<open>Distinct multiples are a whole step apart.\<close>

lemma mod_gap:
  assumes "(x :: nat) mod n = 0" and "y mod n = 0" and "x < y"
  shows "x + n \<le> y"
proof -
  obtain q r where "x = n * q" "y = n * r"
    using assms(1,2) by (metis mod_0_imp_dvd dvdE)
  with assms(3) have "n * (q + 1) \<le> n * r" by (intro mult_le_mono2) simp
  with \<open>x = n * q\<close> \<open>y = n * r\<close> show ?thesis by simp
qed

lemma room_8: "unat (a :: u64) mod 8 = 0 \<Longrightarrow> unat a + 8 \<le> 18446744073709551616"
  using mod_gap [of "unat a" 8 18446744073709551616] unat_less_2p64 [of a] by simp

lemma room_page: "unat (a :: u64) mod 4096 = 0 \<Longrightarrow> unat a + 4096 \<le> 18446744073709551616"
  using mod_gap [of "unat a" 4096 18446744073709551616] unat_less_2p64 [of a] by simp

lemma quad_byte:
  assumes "unat (a :: u64) mod 8 = 0" and "i < 8"
  shows "unat (a + of_nat i) = unat a + i"
proof -
  have "unat a + i < 18446744073709551616"
    using room_8 [OF assms(1)] assms(2) by simp
  moreover have "unat (of_nat i :: u64) = i" using assms(2) by (intro unat_of_nat64) simp
  ultimately show ?thesis by (subst unat_add_small) simp_all
qed

lemma load64_store64_other:
  assumes a: "unat a mod 8 = 0" and b: "unat b mod 8 = 0" and ne: "a \<noteq> b"
  shows "load64 (store64 a w m) b = load64 m b"
proof (rule load64_cong)
  fix i :: nat assume i: "i < 8"
  have u: "unat (b + of_nat i) = unat b + i" by (rule quad_byte [OF b i])
  have "unat a \<noteq> unat b" using ne by (simp add: word_unat_eq_iff)
  then consider "unat a + 8 \<le> unat b" | "unat b + 8 \<le> unat a"
    using mod_gap [OF a b] mod_gap [OF b a] by linarith
  then have "8 \<le> unat (b + of_nat i - a)"
    using i room_8 [OF a] unat_diff64 [of "b + of_nat i" a] by cases (auto simp: u)
  then show "store64 a w m (b + of_nat i) = m (b + of_nat i)"
    by (simp add: store64_def store_le_other)
qed

definition page_aligned :: "u64 \<Rightarrow> bool" where
  "page_aligned t \<longleftrightarrow> unat t mod 4096 = 0"

lemma entry_addr:
  assumes "page_aligned t" and "unat i < 512"
  shows "unat (t + i * 8) = unat t + 8 * unat i"
proof -
  have "unat (i * 8) = unat i * 8"
    using assms(2) by (subst unat_mult_lem [THEN iffD1]) auto
  moreover have "unat t + unat i * 8 < 18446744073709551616"
    using room_page [of t] assms unfolding page_aligned_def by simp
  ultimately show ?thesis by (subst unat_add_small) simp_all
qed

lemma entry_addr_8: "page_aligned t \<Longrightarrow> unat i < 512 \<Longrightarrow> unat (t + i * 8) mod 8 = 0"
  using entry_addr [of t i] mod_mod_cancel [of 8 4096 "unat t"]
  by (simp add: page_aligned_def mod_add_eq [of "unat t", symmetric])

lemma entry_page:
  assumes "page_aligned t" and "unat i < 512"
  shows "(t + i * 8) div 4096 = t div 4096"
proof (rule word_unat_eq_iff [THEN iffD2])
  obtain q where "unat t = 4096 * q"
    using assms(1) by (metis page_aligned_def mod_0_imp_dvd dvdE)
  then have "(unat t + 8 * unat i) div 4096 = unat t div 4096"
    using assms(2) by simp
  then show "unat ((t + i * 8) div 4096) = unat (t div 4096)"
    by (simp add: unat_div entry_addr [OF assms])
qed

lemma aligned_page_inj: "page_aligned s \<Longrightarrow> page_aligned t \<Longrightarrow> s div 4096 = t div 4096 \<Longrightarrow> s = t"
proof -
  assume "page_aligned s" "page_aligned t" "s div 4096 = t div 4096"
  then have "unat s div 4096 = unat t div 4096" "unat s mod 4096 = 0" "unat t mod 4096 = 0"
    by (auto simp: page_aligned_def word_unat_eq_iff unat_div)
  then have "unat s = unat t"
    using div_mult_mod_eq [of "unat s" 4096] div_mult_mod_eq [of "unat t" 4096] by simp
  then show "s = t" by (simp only: word_unat_eq_iff)
qed

lemma entry_inj:
  assumes "page_aligned s" "unat i < 512" "page_aligned t" "unat j < 512" "s + i * 8 = t + j * 8"
  shows "s = t \<and> i = j"
proof -
  have "s = t"
    using aligned_page_inj entry_page [OF assms(1,2)] entry_page [OF assms(3,4)] assms by simp
  moreover have "unat i = unat j"
    using entry_addr [OF assms(1,2)] entry_addr [OF assms(3,4)] assms(5) \<open>s = t\<close> by simp
  ultimately show ?thesis by (simp add: word_unat_eq_iff)
qed

lemma load64_entry_other:
  assumes "page_aligned s" "unat i < 512" "page_aligned t" "unat j < 512" "s \<noteq> t \<or> i \<noteq> j"
  shows "load64 (store64 (s + i * 8) e m) (t + j * 8) = load64 m (t + j * 8)"
  using assms entry_inj [OF assms(1-4)]
  by (intro load64_store64_other) (auto simp only: entry_addr_8)

lemma load64_memset_page:
  assumes "page_aligned pg" "page_aligned t" "unat i < 512"
  shows "load64 (memset pg 0 0x1000 m) (t + i * 8) = (if t = pg then 0 else load64 m (t + i * 8))"
proof -
  let ?a = "t + i * 8"
  have u: "unat (?a + of_nat k) = unat t + 8 * unat i + k" if "k < 8" for k
    using quad_byte [OF entry_addr_8 [OF assms(2,3)] that] entry_addr [OF assms(2,3)] by simp
  have "unat (?a + of_nat k - pg) < 4096 \<longleftrightarrow> t = pg" if k: "k < 8" for k
  proof (cases "t = pg")
    case True
    have "unat (?a + of_nat k - pg) = 8 * unat i + k"
      using unat_diff64 [of "?a + of_nat k" pg] True unfolding u [OF k] by simp
    then show ?thesis using True assms(3) k by simp
  next
    case False
    then have "unat t \<noteq> unat pg" by (simp add: word_unat_eq_iff)
    then consider "unat t + 4096 \<le> unat pg" | "unat pg + 4096 \<le> unat t"
      using mod_gap [of "unat t" 4096 "unat pg"] mod_gap [of "unat pg" 4096 "unat t"] assms(1,2)
      by (fastforce simp: page_aligned_def)
    then show ?thesis
      using False room_page [of pg] assms(1,3) k unat_diff64 [of "?a + of_nat k" pg]
      unfolding u [OF k] page_aligned_def by cases auto
  qed
  then have b: "memset pg 0 0x1000 m (?a + of_nat k) = (if t = pg then 0 else m (?a + of_nat k))"
    if "k < 8" for k
    using that by (simp add: memset_eq word_less_nat_alt)
  show ?thesis
  proof (cases "t = pg")
    case True
    then have "load64 (memset pg 0 0x1000 m) ?a = load64 (\<lambda>_. 0) ?a"
      using b by (intro load64_cong) simp
    also have "\<dots> = 0" by (rule bit_word_eqI) (simp add: load64_def bit_load_le)
    finally show ?thesis using True by simp
  next
    case False
    then have "load64 (memset pg 0 0x1000 m) ?a = load64 m ?a"
      using b by (intro load64_cong) simp
    then show ?thesis using False by simp
  qed
qed


section \<open>The tree of tables\<close>

text \<open>
  The tables reachable in at most three steps are distinct page-aligned pages of \<open>U\<close>, the pages
  in use.
\<close>

definition tables_ok :: "u64 set \<Rightarrow> mem \<Rightarrow> u64 \<Rightarrow> bool" where
  "tables_ok U m root \<longleftrightarrow>
     (\<forall>p t. length p \<le> 3 \<longrightarrow> idx_ok p \<longrightarrow> walk m root p = Some t \<longrightarrow>
        page_aligned t \<and> t div 4096 \<in> U) \<and>
     (\<forall>p q t. length p \<le> 3 \<longrightarrow> idx_ok p \<longrightarrow> length q \<le> 3 \<longrightarrow> idx_ok q \<longrightarrow>
        walk m root p = Some t \<longrightarrow> walk m root q = Some t \<longrightarrow> p = q)"

lemma tables_okD:
  assumes "tables_ok U m root" and "walk m root p = Some t" and "length p \<le> 3" and "idx_ok p"
  shows "page_aligned t" "t div 4096 \<in> U"
  using assms by (auto simp: tables_ok_def)

lemma tables_ok_inj:
  assumes "tables_ok U m root" and "walk m root p = Some t" and "length p \<le> 3" and "idx_ok p"
    and "walk m root q = Some t" and "length q \<le> 3" and "idx_ok q"
  shows "p = q"
  using assms unfolding tables_ok_def by blast

lemma tables_ok_walk_cong:
  assumes "tables_ok U m root"
    and "\<And>q. length q \<le> 3 \<Longrightarrow> idx_ok q \<Longrightarrow> walk m' root q = walk m root q"
  shows "tables_ok U m' root"
  using assms unfolding tables_ok_def by simp

text \<open>A change of memory that no entry of a table sees changes no walk.\<close>

lemma walk_cong:
  assumes ok: "tables_ok U m root"
    and same: "\<And>t i. page_aligned t \<Longrightarrow> t div 4096 \<in> U \<Longrightarrow> unat i < 512 \<Longrightarrow>
           load64 m' (t + i * 8) = load64 m (t + i * 8)"
  shows "length q \<le> 4 \<Longrightarrow> idx_ok q \<Longrightarrow> walk m' root q = walk m root q"
proof (induction q rule: rev_induct)
  case (snoc i q)
  then have IH: "walk m' root q = walk m root q" by simp
  show ?case
  proof (cases "walk m root q")
    case (Some t)
    with snoc.prems same [of t i] tables_okD [OF ok Some] show ?thesis
      by (simp add: walk_snoc IH)
  qed (simp add: walk_snoc IH)
qed simp

text \<open>Writing the entry \<open>i\<close> of the table at path \<open>pa\<close> changes only the walks through it.\<close>

definition through :: "u64 list \<Rightarrow> u64 \<Rightarrow> u64 list \<Rightarrow> bool" where
  "through pa i q \<longleftrightarrow> (\<exists>r. q = pa @ i # r)"

lemma through_snoc: "\<not> through pa i (q @ [j]) \<Longrightarrow> \<not> through pa i q \<and> \<not> (q = pa \<and> j = i)"
  by (auto simp: through_def)

lemma walk_store_other:
  assumes ok: "tables_ok U m root" and pa: "walk m root pa = Some t" "length pa \<le> 3" "idx_ok pa"
    and i: "unat i < 512"
  shows "length q \<le> 4 \<Longrightarrow> idx_ok q \<Longrightarrow> \<not> through pa i q \<Longrightarrow>
           walk (store64 (t + i * 8) e m) root q = walk m root q"
proof (induction q rule: rev_induct)
  case (snoc j q)
  note n = through_snoc [OF snoc.prems(3)]
  with snoc have IH: "walk (store64 (t + i * 8) e m) root q = walk m root q" by simp
  show ?case
  proof (cases "walk m root q")
    case (Some s)
    have "q \<noteq> pa \<or> j \<noteq> i" using n by blast
    moreover have "s = t \<Longrightarrow> q = pa"
      using tables_ok_inj [OF ok Some, of pa] pa snoc.prems by auto
    ultimately have "t \<noteq> s \<or> i \<noteq> j" by blast
    then have "load64 (store64 (t + i * 8) e m) (s + j * 8) = load64 m (s + j * 8)"
      using tables_okD(1) [OF ok pa] tables_okD(1) [OF ok Some] snoc.prems i
      by (intro load64_entry_other) auto
    with Some show ?thesis by (simp add: walk_snoc IH)
  qed (simp add: walk_snoc IH)
qed simp

lemma not_through_self: "\<not> through pa i pa"
  by (auto simp: through_def)

lemma walk_store_through:
  assumes ok: "tables_ok U m root" and pa: "walk m root pa = Some t" "length pa \<le> 3" "idx_ok pa"
    and i: "unat i < 512"
  shows "walk (store64 (t + i * 8) e m) root (pa @ i # r) =
    (if bit e 0 then walk (store64 (t + i * 8) e m) (push_bit 12 (GetAddress e)) r else None)"
  using walk_store_other [OF ok pa i _ _ not_through_self, of e] pa
  by (simp add: walk_append Let_def)

section \<open>The contract of the allocator\<close>

text \<open>
  What the page tables need from the allocator: as long as it is in order, a granted page is
  page aligned, its number fits the forty bits of an entry, it was not in use, and it is the
  one page in use afterwards that was not before.
\<close>

locale frame_source =
  fixes req :: "'p \<Rightarrow> (u64 \<times> 'p) result"
    and used :: "'p \<Rightarrow> u64 set"
    and fine :: "'p \<Rightarrow> bool"
  assumes granted: "fine p \<Longrightarrow> req p = Inr (pg, p') \<Longrightarrow>
      page_aligned pg \<and> unat pg < 4503599627370496 \<and> pg div 4096 \<notin> used p \<and>
      used p' = insert (pg div 4096) (used p) \<and> fine p'"
begin

text \<open>The entry that a level of \<open>MapMemory\<close> makes.\<close>

lemma new_entry:
  assumes "page_aligned pg" and "unat pg < 4503599627370496"
  shows "bit (SetFlag ReadWrite True (SetFlag Present True (SetAddress (drop_bit 12 pg) e))) 0"
    and "push_bit 12 (GetAddress (SetFlag ReadWrite True (SetFlag Present True
           (SetAddress (drop_bit 12 pg) e)))) = pg"
proof -
  show "bit (SetFlag ReadWrite True (SetFlag Present True (SetAddress (drop_bit 12 pg) e))) 0"
    by (simp add: bit_SetFlag)
  have lo: "\<not> bit pg n" if "n < 12" for n
  proof -
    have "take_bit 12 pg = 0"
      using assms(1) by (simp add: page_aligned_def word_unat_eq_iff take_bit_eq_mod unat_mod)
    then show ?thesis using that bit_take_bit_iff [of 12 pg n] by simp
  qed
  have hi: "\<not> bit pg n" if "52 \<le> n" for n
  proof -
    have "take_bit 52 (unat pg) = unat pg"
      using assms(2) by (simp add: take_bit_nat_eq_self)
    then have "take_bit 52 pg = pg" by (simp add: word_unat_eq_iff unsigned_take_bit_eq)
    then show ?thesis using that bit_take_bit_iff [of 52 pg n] by auto
  qed
  have "push_bit 12 (take_bit 40 (drop_bit 12 pg)) = pg"
  proof (rule bit_word_eqI)
    fix n assume "n < LENGTH(64)"
    then show "bit (push_bit 12 (take_bit 40 (drop_bit 12 pg))) n = bit pg n"
      using lo [of n] hi [of n] by (cases "n < 12"; cases "52 \<le> n") (auto simp: bit_simps)
  qed
  then show "push_bit 12 (GetAddress (SetFlag ReadWrite True (SetFlag Present True
           (SetAddress (drop_bit 12 pg) e)))) = pg"
    by (simp add: GetAddress_SetFlag GetAddress_SetAddress)
qed

lemma next_table_present:
  assumes "bit (load64 m (tbl + i * 8)) 0"
  shows "next_table req tbl i m p = Inr (push_bit 12 (GetAddress (load64 m (tbl + i * 8))), m, p)"
  using assms by (simp add: next_table_def Let_def GetFlag_bit_0)

text \<open>The cleared page and the new entry, as they reach memory.\<close>

text \<open>One path more leads to a page that was in no table.\<close>

lemma tables_ok_insert:
  assumes ok: "tables_ok U m root" and pg: "page_aligned pg" "pg div 4096 \<notin> U" and p0: "length p0 \<le> 3" "idx_ok p0"
    and new: "walk m' root p0 = Some pg"
    and eq: "\<And>q. length q \<le> 3 \<Longrightarrow> idx_ok q \<Longrightarrow> q \<noteq> p0 \<Longrightarrow> walk m' root q = walk m root q"
  shows "tables_ok (insert (pg div 4096) U) m' root"
proof -
  have not_pg: "walk m root q \<noteq> Some pg" if "length q \<le> 3" "idx_ok q" for q
    using tables_okD(2) [OF ok, of q pg] that pg(2) by auto
  have old_walk: "q \<noteq> p0 \<Longrightarrow> walk m root q = Some s \<and> s \<noteq> pg"
    if "length q \<le> 3" "idx_ok q" "walk m' root q = Some s" for q s
    using eq [of q] not_pg [of q] that by auto
  show ?thesis
    unfolding tables_ok_def
  proof (intro conjI allI impI, goal_cases)
    case (1 q s)
    then show ?case
      using new eq [of q] pg(1) tables_okD [OF ok, of q s] by (cases "q = p0") auto
  next
    case (2 q s)
    then show ?case
      using new eq [of q] tables_okD [OF ok, of q s] by (cases "q = p0") auto
  next
    case (3 p q s)
    note p = old_walk [OF 3(1,2,5)] and q = old_walk [OF 3(3,4,6)]
    have n: "p = p0 \<Longrightarrow> s = pg" "q = p0 \<Longrightarrow> s = pg"
      using 3 new by (simp_all only: option.inject)
    show ?case
    proof (cases "p = p0 \<or> q = p0")
      case True
      with p q n show ?thesis by blast
    next
      case False
      then show ?thesis
        using tables_ok_inj [OF ok, of p s q] p q 3(1-4) by blast
    qed
  qed
qed

lemma fresh_table:
  assumes ok: "tables_ok U m root" and pa: "walk m root pa = Some t" "length pa \<le> 2" "idx_ok pa"
    and i: "unat i < 512" and absent: "\<not> bit (load64 m (t + i * 8)) 0"
    and pg: "page_aligned pg" "pg div 4096 \<notin> U"
    and e: "bit e 0" "push_bit 12 (GetAddress e) = pg"
  defines "m' \<equiv> store64 (t + i * 8) e (memset pg 0 0x1000 m)"
  shows "walk m' root (pa @ [i]) = Some pg"
    and "length q \<le> 4 \<Longrightarrow> idx_ok q \<Longrightarrow> q \<noteq> pa @ [i] \<Longrightarrow> walk m' root q = walk m root q"
    and "tables_ok (insert (pg div 4096) U) m' root"
proof -
  let ?m = "memset pg 0 0x1000 m"
  have pa3: "length pa \<le> 3" using pa by simp
  have same: "walk ?m root q = walk m root q" if "length q \<le> 4" "idx_ok q" for q
    using that pg by (intro walk_cong [OF ok]) (auto simp: load64_memset_page)
  have ok1: "tables_ok U ?m root"
    using same by (intro tables_ok_walk_cong [OF ok]) simp
  have pa1: "walk ?m root pa = Some t" using same pa by simp
  have t: "page_aligned t" "t div 4096 \<in> U" using tables_okD [OF ok pa(1) pa3 pa(3)] by auto
  then have tpg: "t \<noteq> pg" using pg by auto
  have zero: "load64 m' (pg + j * 8) = 0" if "unat j < 512" for j
    using t pg tpg i that by (simp add: m'_def load64_entry_other load64_memset_page)
  have thr: "walk m' root (pa @ i # r) = (if r = [] then Some pg else None)" if "idx_ok r" for r
  proof -
    have "walk m' root (pa @ i # r) = walk m' pg r"
      using walk_store_through [OF ok1 pa1 pa3 pa(3) i, of e r] e by (simp add: m'_def)
    also have "\<dots> = (if r = [] then Some pg else None)"
      using that by (cases r) (simp_all add: zero)
    finally show ?thesis .
  qed
  then show new: "walk m' root (pa @ [i]) = Some pg" by simp
  have old: "walk m root (pa @ i # r) = None" for r
    using pa(1) absent by (simp add: walk_append Let_def)
  show eq: "walk m' root q = walk m root q" if "length q \<le> 4" "idx_ok q" "q \<noteq> pa @ [i]" for q
  proof (cases "through pa i q")
    case True
    then obtain r where "q = pa @ i # r" by (auto simp: through_def)
    with that thr [of r] old show ?thesis by auto
  next
    case False
    then show ?thesis
      using walk_store_other [OF ok1 pa1 pa3 pa(3) i that(1,2), of e] same that
      by (simp add: m'_def)
  qed
  show "tables_ok (insert (pg div 4096) U) m' root"
    using eq pa i by (intro tables_ok_insert [OF ok pg _ _ new]) simp_all
qed

lemma next_table_spec:
  assumes fine: "fine p" and ok: "tables_ok (used p) m root"
    and pa: "walk m root pa = Some t" "length pa \<le> 2" "idx_ok pa" and i: "unat i < 512"
    and r: "next_table req t i m p = Inr (t', m', p')"
  shows "fine p'" "tables_ok (used p') m' root" "walk m' root (pa @ [i]) = Some t'"
    "length q = 4 \<Longrightarrow> idx_ok q \<Longrightarrow> walk m' root q = walk m root q"
proof -
  let ?e = "load64 m (t + i * 8)"
  have "fine p' \<and> tables_ok (used p') m' root \<and> walk m' root (pa @ [i]) = Some t' \<and>
    (length q = 4 \<longrightarrow> idx_ok q \<longrightarrow> walk m' root q = walk m root q)"
  proof (cases "bit ?e 0")
    case True
    with r next_table_present [OF True, of p]
    have "t' = push_bit 12 (GetAddress ?e)" "m' = m" "p' = p" by auto
    with True fine ok pa(1) show ?thesis by (simp add: walk_snoc)
  next
    case False
    with r obtain pg where pg: "req p = Inr (pg, p')" "t' = pg"
      and m': "m' = store64 (t + i * 8) (SetFlag ReadWrite True (SetFlag Present True
           (SetAddress (drop_bit 12 pg) ?e))) (memset pg 0 0x1000 m)"
      by (auto simp: next_table_def Let_def GetFlag_bit_0 rbind_def split: sum.splits)
    note g = granted [OF fine pg(1)]
    have e: "bit (SetFlag ReadWrite True (SetFlag Present True (SetAddress (drop_bit 12 pg) ?e))) 0"
      "push_bit 12 (GetAddress (SetFlag ReadWrite True (SetFlag Present True
           (SetAddress (drop_bit 12 pg) ?e)))) = pg"
      using new_entry [of pg ?e] g by auto
    have al: "page_aligned pg" "pg div 4096 \<notin> used p" using g by auto
    note f = fresh_table [OF ok pa i False al e, folded m']
    have "length q = 4 \<Longrightarrow> q \<noteq> pa @ [i]" using pa(2) by auto
    then have "length q = 4 \<longrightarrow> idx_ok q \<longrightarrow> walk m' root q = walk m root q"
      using f(2) [of q] by simp
    then show ?thesis using g f(1,3) pg(2) by simp
  qed
  then show "fine p'" "tables_ok (used p') m' root" "walk m' root (pa @ [i]) = Some t'"
    "length q = 4 \<Longrightarrow> idx_ok q \<Longrightarrow> walk m' root q = walk m root q" by auto
qed

text \<open>\<open>MapMemory\<close> changes the translation of the one page, and of no other.\<close>

lemma MapMemory_with_spec:
  assumes fine: "fine p" and ok: "tables_ok (used p) m root"
    and r: "MapMemory_with req root v phys m p = Inr (m', p')"
  shows "fine p'" "tables_ok (used p') m' root"
    "length q = 4 \<Longrightarrow> idx_ok q \<Longrightarrow>
       walk m' root q = (if q = path_of v then Some (push_bit 12 (take_bit 40 (drop_bit 12 phys)))
                         else walk m root q)"
proof -
  define a where "a = PDP_i (PageMapIndexer v)"
  define b where "b = PD_i (PageMapIndexer v)"
  define c where "c = PT_i (PageMapIndexer v)"
  define d where "d = P_i (PageMapIndexer v)"
  have path: "path_of v = [a, b, c, d]" by (simp add: path_of_def Let_def a_def b_def c_def d_def)
  have i: "unat a < 512" "unat b < 512" "unat c < 512" "unat d < 512"
    using path_of_ok(1) [of v] by (simp_all add: path)
  from r obtain t1 m1 p1 t2 m2 p2 t3 m3 where
      1: "next_table req root a m p = Inr (t1, m1, p1)"
    and 2: "next_table req t1 b m1 p1 = Inr (t2, m2, p2)"
    and 3: "next_table req t2 c m2 p2 = Inr (t3, m3, p')"
    and m': "m' = store64 (t3 + d * 8) (SetFlag ReadWrite True (SetFlag Present True
           (SetAddress (drop_bit 12 phys) (load64 m3 (t3 + d * 8))))) m3"
    by (auto simp: MapMemory_with_def Let_def rbind_def a_def b_def c_def d_def split: sum.splits)
  let ?e = "SetFlag ReadWrite True (SetFlag Present True
           (SetAddress (drop_bit 12 phys) (load64 m3 (t3 + d * 8))))"
  note s1 = next_table_spec [OF fine ok, of "[]" root a t1 m1 p1]
  note s2 = next_table_spec [of p1 m1 root "[a]" t1 b t2 m2 p2]
  note s3 = next_table_spec [of p2 m2 root "[a, b]" t2 c t3 m3 p']
  have 4: "fine p1" "tables_ok (used p1) m1 root" "walk m1 root [a] = Some t1"
    using s1 1 i by simp_all
  then have 5: "fine p2" "tables_ok (used p2) m2 root" "walk m2 root [a, b] = Some t2"
    using s2 2 i by simp_all
  then have 6: "fine p'" "tables_ok (used p') m3 root" "walk m3 root [a, b, c] = Some t3"
    using s3 3 i by simp_all
  have q3: "length q = 4 \<Longrightarrow> idx_ok q \<Longrightarrow> walk m3 root q = walk m root q"
    using s1(4) [of q] s2(4) [of q] s3(4) [of q] 1 2 3 4 5 i by simp
  have abc: "length [a, b, c] \<le> 3" "idx_ok [a, b, c]" using i by simp_all
  note oth = walk_store_other [OF 6(2,3) abc i(4), of _ ?e, folded m']
  have hit: "walk m' root [a, b, c, d] = Some (push_bit 12 (take_bit 40 (drop_bit 12 phys)))"
    using walk_store_through [OF 6(2,3) abc i(4), of ?e "[]", folded m']
    by (simp add: bit_SetFlag GetAddress_SetFlag GetAddress_SetAddress)
  show "fine p'" by (rule 6(1))
  show "tables_ok (used p') m' root"
    by (intro tables_ok_walk_cong [OF 6(2)] oth) (auto simp: through_def)
  assume that: "length q = 4" "idx_ok q"
  show "walk m' root q = (if q = path_of v then Some (push_bit 12 (take_bit 40 (drop_bit 12 phys)))
                         else walk m root q)"
  proof (cases "through [a, b, c] d q")
    case True
    then have "q = path_of v" using that by (auto simp: through_def path)
    then show ?thesis using hit path by simp
  next
    case False
    then have "q \<noteq> path_of v" by (auto simp: through_def path)
    then show ?thesis using oth [of q] False that q3 by simp
  qed
qed

lemma next_table_fails: "next_table req t i m p = Inl e \<Longrightarrow> \<exists>p. req p = Inl e"
  by (auto simp: next_table_def Let_def rbind_def split: sum.splits if_splits)

lemma MapMemory_with_fails: "MapMemory_with req root v phys m p = Inl e \<Longrightarrow> \<exists>p. req p = Inl e"
  by (auto simp: MapMemory_with_def Let_def rbind_def split: sum.splits)
     (blast dest: next_table_fails)+

end

section \<open>The page frame allocator as source\<close>

definition source_fine :: "pfa \<Rightarrow> bool" where
  "source_fine p \<longleftrightarrow> unat (Size (PageBitmap p)) \<le> 137438953472 \<and> hint_ok p"

interpretation frames: frame_source RequestPage taken source_fine
proof
  fix p pg p'
  assume fine: "source_fine p" and r: "RequestPage p = Inr (pg, p')"
  then have ad: "addressable p" and h: "hint_ok p"
    and sz: "unat (Size (PageBitmap p)) \<le> 137438953472"
    by (simp_all add: source_fine_def addressable_def)
  note f = RequestPage_fresh [OF ad r]
  have "unat pg div 4096 < unat (Size (PageBitmap p)) * 8"
    using f(3) unat_last_index [OF ad] by (simp add: word_less_nat_alt unat_div)
  then have "unat pg < 4503599627370496" using sz by linarith
  moreover have "Size (PageBitmap p') = Size (PageBitmap p)"
    using RequestPage_Inr [OF r] by auto
  ultimately show "page_aligned pg \<and> unat pg < 4503599627370496 \<and> pg div 4096 \<notin> taken p \<and>
      taken p' = insert (pg div 4096) (taken p) \<and> source_fine p'"
    using f h sz by (simp add: page_aligned_def source_fine_def)
qed

section \<open>User pages\<close>

text \<open>Entries may change in other bits without changing any walk.\<close>

lemma walk_equiv:
  assumes ok: "tables_ok U m root"
    and same: "\<And>t i. page_aligned t \<Longrightarrow> t div 4096 \<in> U \<Longrightarrow> unat i < 512 \<Longrightarrow>
           bit (load64 m' (t + i * 8)) 0 = bit (load64 m (t + i * 8)) 0 \<and>
           GetAddress (load64 m' (t + i * 8)) = GetAddress (load64 m (t + i * 8))"
  shows "length q \<le> 4 \<Longrightarrow> idx_ok q \<Longrightarrow> walk m' root q = walk m root q"
proof (induction q rule: rev_induct)
  case (snoc i q)
  then have IH: "walk m' root q = walk m root q" by simp
  show ?case
  proof (cases "walk m root q")
    case (Some t)
    with snoc.prems same [of t i] tables_okD [OF ok Some] show ?thesis
      by (simp add: walk_snoc IH)
  qed (simp add: walk_snoc IH)
qed simp

fun all_user :: "mem \<Rightarrow> u64 \<Rightarrow> u64 list \<Rightarrow> bool" where
  "all_user m t [] \<longleftrightarrow> True"
| "all_user m t (i # is) \<longleftrightarrow>
     bit (load64 m (t + i * 8)) (flag_bit UserSuper) \<and>
     all_user m (push_bit 12 (GetAddress (load64 m (t + i * 8)))) is"

lemma user_level_entry:
  assumes "page_aligned t" "unat i < 512" "page_aligned s" "unat j < 512"
  shows "load64 (snd (user_level t i m)) (s + j * 8) =
    (if s = t \<and> j = i then SetFlag UserSuper True (load64 m (s + j * 8)) else load64 m (s + j * 8))"
  using load64_entry_other [OF assms, of "SetFlag UserSuper True (load64 m (t + i * 8))" m]
  by (auto simp: user_level_def Let_def)

lemma user_level_walk:
  assumes ok: "tables_ok U m root" and t: "page_aligned t" "unat i < 512"
  shows "length q \<le> 4 \<Longrightarrow> idx_ok q \<Longrightarrow> walk (snd (user_level t i m)) root q = walk m root q"
    and "tables_ok U (snd (user_level t i m)) root"
proof -
  show w: "length q \<le> 4 \<Longrightarrow> idx_ok q \<Longrightarrow> walk (snd (user_level t i m)) root q = walk m root q" for q
    by (rule walk_equiv [OF ok]) (auto simp: user_level_entry [OF t] bit_SetFlag GetAddress_SetFlag)
  then show "tables_ok U (snd (user_level t i m)) root"
    by (intro tables_ok_walk_cong [OF ok]) simp
qed

text \<open>Once set along a path, the user bit stays: no level clears one.\<close>

definition raw_walk :: "mem \<Rightarrow> u64 \<Rightarrow> u64 list \<Rightarrow> u64" where
  "raw_walk m t p = fold (\<lambda>i t. push_bit 12 (GetAddress (load64 m (t + i * 8)))) p t"

lemma all_user_snoc:
  "all_user m t (p @ [i]) \<longleftrightarrow> all_user m t p \<and> bit (load64 m (raw_walk m t p + i * 8)) 2"
  unfolding raw_walk_def by (induction p arbitrary: t) auto

lemma raw_walk: "walk m t p = Some s \<Longrightarrow> raw_walk m t p = s"
  unfolding raw_walk_def by (induction p arbitrary: t) (auto simp: Let_def split: if_splits)

lemma all_user_mono:
  assumes ok: "tables_ok U m root" and t: "page_aligned t" "unat i < 512"
  shows "length q \<le> 4 \<Longrightarrow> idx_ok q \<Longrightarrow> walk m root q \<noteq> None \<Longrightarrow> all_user m root q \<Longrightarrow>
    all_user (snd (user_level t i m)) root q"
proof (induction q rule: rev_induct)
  case (snoc j q)
  then obtain s where s: "walk m root q = Some s"
    by (cases "walk m root q") (auto simp: walk_snoc)
  then have "page_aligned s" using tables_okD(1) [OF ok s] snoc.prems by simp
  with snoc s show ?case
    using user_level_walk(1) [OF ok t, of q]
    by (auto simp: all_user_snoc raw_walk user_level_entry [OF t] bit_SetFlag)
qed simp

lemma all_user_step:
  assumes ok: "tables_ok U m root" and p: "walk m root p = Some t" "length p \<le> 3" "idx_ok p"
    and i: "unat i < 512" and u: "all_user m root p"
  shows "all_user (snd (user_level t i m)) root (p @ [i])"
proof -
  let ?m = "snd (user_level t i m)"
  have t: "page_aligned t" by (rule tables_okD [OF ok p])
  have "all_user ?m root p" using all_user_mono [OF ok t i, of p] p u by simp
  moreover have "walk ?m root p = Some t"
    using user_level_walk(1) [OF ok t i, of p] p by simp
  ultimately show ?thesis
    by (simp add: all_user_snoc raw_walk user_level_entry [OF t i t i] bit_SetFlag)
qed

lemma user_level_fst:
  "bit (load64 m (t + i * 8)) 0 \<Longrightarrow> walk m root p = Some t \<Longrightarrow>
     walk m root (p @ [i]) = Some (fst (user_level t i m))"
  by (simp add: walk_snoc user_level_def Let_def GetAddress_SetFlag)

lemma user_level_frame:
  assumes t: "page_aligned t" "unat i < 512" and x: "x div 4096 \<noteq> t div 4096"
  shows "snd (user_level t i m) x = m x"
proof -
  have "8 \<le> unat (x - (t + i * 8))"
  proof (rule ccontr)
    assume "\<not> 8 \<le> unat (x - (t + i * 8))"
    then have k: "unat (x - (t + i * 8)) < 8" by simp
    have "x = t + i * 8 + of_nat (unat (x - (t + i * 8)))" by simp
    then have "unat x = unat t + 8 * unat i + unat (x - (t + i * 8))"
      using quad_byte [OF entry_addr_8 [OF t] k] entry_addr [OF t] by simp
    moreover obtain q where "unat t = 4096 * q"
      using t(1) by (metis page_aligned_def mod_0_imp_dvd dvdE)
    ultimately have "unat x div 4096 = unat t div 4096" using t(2) k by simp
    then show False using x by (simp add: word_unat_eq_iff unat_div)
  qed
  then show ?thesis by (simp add: user_level_def Let_def store64_def store_le_other)
qed

text \<open>Outside of the tables, in what is mapped and in what is open, \<open>m'\<close> holds what \<open>m\<close> does.\<close>

definition opens_more :: "u64 set \<Rightarrow> u64 \<Rightarrow> mem \<Rightarrow> mem \<Rightarrow> bool" where
  "opens_more U root m m' \<longleftrightarrow> (\<forall>x. x div 4096 \<notin> U \<longrightarrow> m' x = m x) \<and>
     (\<forall>q. length q \<le> 4 \<longrightarrow> idx_ok q \<longrightarrow> walk m' root q = walk m root q \<and>
        (walk m root q \<noteq> None \<longrightarrow> all_user m root q \<longrightarrow> all_user m' root q))"

lemma user_level_opens:
  assumes l: "user_level t j m' = (t', m'')" and ok: "tables_ok U m' root" and p: "walk m' root p = Some t" "length p \<le> 3" "idx_ok p"
    and j: "unat j < 512" and pj: "walk m' root (p @ [j]) \<noteq> None" and u: "all_user m' root p" and k: "opens_more U root m m'"
  shows "tables_ok U m'' root \<and> walk m'' root (p @ [j]) = Some t' \<and> all_user m'' root (p @ [j]) \<and> opens_more U root m m''"
proof -
  have t: "page_aligned t" "t div 4096 \<in> U" using tables_okD [OF ok p] .
  note w = user_level_walk [OF ok t(1) j]
  have "m'' x = m x" if x: "x div 4096 \<notin> U" and ne: "x div 4096 \<noteq> t div 4096" for x
    using user_level_frame [OF t(1) j, of x m'] ne x l k by (auto simp: opens_more_def)
  then have "\<forall>x. x div 4096 \<notin> U \<longrightarrow> m'' x = m x" using t(2) by metis
  then have "opens_more U root m m''"
    using w(1) all_user_mono [OF ok t(1) j] l k by (simp add: opens_more_def)
  moreover have "walk m' root (p @ [j]) = Some t'"
    using user_level_fst [of m' t j root p] l p(1) pj by (auto simp: walk_snoc split: if_splits)
  ultimately show ?thesis
    using w all_user_step [OF ok p j u] l p(2,3) j by simp
qed

lemma MapUserspaceMemory_spec:
  assumes ok: "tables_ok U m root" and v: "walk m root (path_of v) = Some f"
  shows "tables_ok U (MapUserspaceMemory root v m) root"
    and "length q \<le> 4 \<Longrightarrow> idx_ok q \<Longrightarrow> walk (MapUserspaceMemory root v m) root q = walk m root q"
    and "all_user (MapUserspaceMemory root v m) root (path_of v)"
    and "length q \<le> 4 \<Longrightarrow> idx_ok q \<Longrightarrow> walk m root q \<noteq> None \<Longrightarrow> all_user m root q \<Longrightarrow>
      all_user (MapUserspaceMemory root v m) root q"
    and "x div 4096 \<notin> U \<Longrightarrow> MapUserspaceMemory root v m x = m x"
proof -
  define a where "a = PDP_i (PageMapIndexer v)"
  define b where "b = PD_i (PageMapIndexer v)"
  define c where "c = PT_i (PageMapIndexer v)"
  define d where "d = P_i (PageMapIndexer v)"
  let ?keeps = "opens_more U root m"
  have path: "path_of v = [a, b, c, d]" by (simp add: path_of_def Let_def a_def b_def c_def d_def)
  have i: "unat a < 512" "unat b < 512" "unat c < 512" "unat d < 512"
    using path_of_ok(1) [of v] by (simp_all add: path)
  obtain t3 m1 where 1: "user_level root a m = (t3, m1)" by (cases "user_level root a m")
  obtain t2 m2 where 2: "user_level t3 b m1 = (t2, m2)" by (cases "user_level t3 b m1")
  obtain t1 m3 where 3: "user_level t2 c m2 = (t1, m3)" by (cases "user_level t2 c m2")
  let ?m = "snd (user_level t1 d m3)"
  have m': "MapUserspaceMemory root v m = ?m"
    unfolding MapUserspaceMemory_def Let_def GetIndexes_PageMapIndexer
    by (simp add: a_def [symmetric] b_def [symmetric] c_def [symmetric] d_def [symmetric]
        1 2 3 case_prod_unfold)
  note step = user_level_opens [where m = m and U = U and root = root]
  have ne: "walk m root [a] \<noteq> None" "walk m root [a, b] \<noteq> None" "walk m root [a, b, c] \<noteq> None"
      "walk m root [a, b, c, d] \<noteq> None"
    using v by (auto simp: path Let_def split: if_splits)
  have r1: "tables_ok U m1 root" "walk m1 root [a] = Some t3" "all_user m1 root [a]" "?keeps m1"
    using step [OF 1 ok, of "[]"] i ne by (simp_all add: opens_more_def)
  have r2: "tables_ok U m2 root" "walk m2 root [a, b] = Some t2" "all_user m2 root [a, b]" "?keeps m2"
    using step [OF 2 r1(1,2)] i ne r1(3,4) by (simp_all add: opens_more_def del: walk.simps all_user.simps)
  have r3: "tables_ok U m3 root" "walk m3 root [a, b, c] = Some t1" "all_user m3 root [a, b, c]" "?keeps m3"
    using step [OF 3 r2(1,2)] i ne r2(3,4) by (simp_all add: opens_more_def del: walk.simps all_user.simps)
  obtain t0 where 4: "user_level t1 d m3 = (t0, ?m)" by (cases "user_level t1 d m3") simp
  show "tables_ok U (MapUserspaceMemory root v m) root"
    and "length q \<le> 4 \<Longrightarrow> idx_ok q \<Longrightarrow> walk (MapUserspaceMemory root v m) root q = walk m root q"
    and "all_user (MapUserspaceMemory root v m) root (path_of v)"
    and "length q \<le> 4 \<Longrightarrow> idx_ok q \<Longrightarrow> walk m root q \<noteq> None \<Longrightarrow> all_user m root q \<Longrightarrow>
      all_user (MapUserspaceMemory root v m) root q"
    and "x div 4096 \<notin> U \<Longrightarrow> MapUserspaceMemory root v m x = m x"
    using step [OF 4 r3(1,2)] i ne r3(3,4) unfolding m' path
    by (simp_all add: opens_more_def del: walk.simps all_user.simps)
qed


section \<open>Properties\<close>

text \<open>The frame an address is mapped to: its bits 12 to 51.\<close>

definition frame_of :: "u64 \<Rightarrow> u64" where
  "frame_of phys = push_bit 12 (take_bit 40 (drop_bit 12 phys))"

text \<open>
  C1: \<open>MapMemory\<close> refines the update of the address translation: afterwards every address of the
  page of \<open>v\<close> is translated to the frame of \<open>phys\<close>, and every other address as before, whatever
  tables had to be made.  The tables stay distinct pages in use; the only failure is that the
  allocator has run out of pages.
\<close>

theorem MapMemory_updates_translation:
  assumes "source_fine p" and "tables_ok (taken p) m root"
  shows "case MapMemory root v phys m p of
      Inl e \<Rightarrow> e = OutOfMemory
    | Inr (m', p') \<Rightarrow>
        tables_ok (taken p') m' root \<and> source_fine p' \<and>
        (\<forall>w. translate m' root w =
           (if PageMapIndexer w = PageMapIndexer v then Some (frame_of phys)
            else translate m root w))"
proof (cases "MapMemory root v phys m p")
  case (Inl e)
  with frames.MapMemory_with_fails obtain q where "RequestPage q = Inl e"
    unfolding MapMemory_def by blast
  with Inl show ?thesis using RequestPage_Inl by auto
next
  case (Inr x)
  then obtain m' p' where x: "MapMemory_with RequestPage root v phys m p = Inr (m', p')"
    unfolding MapMemory_def by (cases x) auto
  note s = frames.MapMemory_with_spec [OF assms x]
  have "translate m' root w = (if PageMapIndexer w = PageMapIndexer v then Some (frame_of phys)
      else translate m root w)" for w
    using s(3) [of "path_of w"] path_of_ok [of w]
    by (simp add: translate_def path_of_eq_iff frame_of_def)
  with s(1,2) x show ?thesis by (simp add: MapMemory_def)
qed

lemma empty_tables: "page_aligned root \<Longrightarrow> root div 4096 \<in> U \<Longrightarrow> tables_ok U (\<lambda>_. 0) root"
proof -
  have z: "load64 (\<lambda>_. 0) a = 0" for a by (rule bit_word_eqI) (simp add: load64_def bit_load_le)
  have "walk (\<lambda>_. 0) root p = Some t \<Longrightarrow> p = [] \<and> t = root" for p t
    by (cases p) (auto simp: z)
  then show "page_aligned root \<Longrightarrow> root div 4096 \<in> U \<Longrightarrow> tables_ok U (\<lambda>_. 0) root"
    unfolding tables_ok_def by blast
qed

lemma some_pages_tables: "source_fine some_pages" "tables_ok (taken some_pages) (\<lambda>_. 0) 0x2000"
proof -
  show "source_fine some_pages"
    using some_pages_ok(2) by (simp add: source_fine_def some_pages_def)
  show "tables_ok (taken some_pages) (\<lambda>_. 0) 0x2000"
    by (rule empty_tables) (simp_all add: page_aligned_def Get_taken [symmetric] Get_def
        some_pages_def top_bit_def)
qed

theorem MapMemory_updates_translation_witness:
  "case MapMemory 0x2000 0xFFFF800000001000 0xB8000 (\<lambda>_. 0) some_pages of
      Inl e \<Rightarrow> e = OutOfMemory
    | Inr (m', p') \<Rightarrow> translate m' 0x2000 0xFFFF800000001234 = Some 0xB8000"
proof -
  have "PageMapIndexer 0xFFFF800000001234 = PageMapIndexer 0xFFFF800000001000"
    by (simp add: PageMapIndexer_def Let_def)
  moreover have "frame_of 0xB8000 = 0xB8000" by (simp add: frame_of_def)
  ultimately show ?thesis
    using MapMemory_updates_translation [OF some_pages_tables, of "0xFFFF800000001000" "0xB8000"]
    by (auto split: sum.splits)
qed

text \<open>
  C17: \<open>MapUserspaceMemory\<close> on a mapped address sets the user bit in all four entries of its
  path, and changes no translation.  (On an address that is not mapped it goes on through the
  table at physical address zero.)
\<close>

theorem MapUserspaceMemory_sets_user:
  assumes "tables_ok U m root" and "translate m root v = Some f"
  shows "all_user (MapUserspaceMemory root v m) root (path_of v) \<and>
    tables_ok U (MapUserspaceMemory root v m) root \<and>
    (\<forall>w. translate (MapUserspaceMemory root v m) root w = translate m root w)"
  using MapUserspaceMemory_spec [OF assms [unfolded translate_def]] path_of_ok
  by (simp add: translate_def)

text \<open>Four tables, one page mapped: addresses \<open>0x1000\<close> to \<open>0x1FFF\<close> to the frame \<open>0x5000\<close>.\<close>

definition four_tables :: mem where
  "four_tables = store64 (0x1000 + 0 * 8) 0x2003 (store64 (0x2000 + 0 * 8) 0x3003
     (store64 (0x3000 + 0 * 8) 0x4003 (store64 (0x4000 + 1 * 8) 0x5003 (\<lambda>_. 0))))"

lemma four_tables_entry:
  assumes "page_aligned t" and "unat i < 512"
  shows "load64 four_tables (t + i * 8) =
    (if t = 0x1000 \<and> i = 0 then 0x2003 else if t = 0x2000 \<and> i = 0 then 0x3003
     else if t = 0x3000 \<and> i = 0 then 0x4003 else if t = 0x4000 \<and> i = 1 then 0x5003 else 0)"
proof -
  have z: "load64 (\<lambda>_. 0) a = 0" for a by (rule bit_word_eqI) (simp add: load64_def bit_load_le)
  have st: "load64 (store64 (s + j * 8) e m) (t + i * 8) =
      (if t = s \<and> i = j then e else load64 m (t + i * 8))" if "page_aligned s" "unat j < 512" for s e m j
    using load64_entry_other [OF that assms, of e m] by auto
  have al: "page_aligned 0x1000" "page_aligned 0x2000" "page_aligned 0x3000" "page_aligned 0x4000"
    by (simp_all add: page_aligned_def)
  have j: "unat (0 :: u64) < 512" "unat (1 :: u64) < 512" by simp_all
  show ?thesis
    unfolding four_tables_def st [OF al(1) j(1)] st [OF al(2) j(1)] st [OF al(3) j(1)]
      st [OF al(4) j(2)] z by simp
qed

lemma four_tables_level:
  assumes "unat i < 512"
  shows "walk four_tables 0x1000 (i # p) = (if i = 0 then walk four_tables 0x2000 p else None)"
    "walk four_tables 0x2000 (i # p) = (if i = 0 then walk four_tables 0x3000 p else None)"
    "walk four_tables 0x3000 (i # p) = (if i = 0 then walk four_tables 0x4000 p else None)"
    "walk four_tables 0x4000 (i # p) = (if i = 1 then walk four_tables 0x5000 p else None)"
  using four_tables_entry [OF _ assms]
  by (simp_all add: page_aligned_def Let_def GetAddress_def bit_0)

lemma four_tables_walk:
  "walk four_tables 0x1000 p = Some t \<Longrightarrow> length p \<le> 3 \<Longrightarrow> idx_ok p \<Longrightarrow>
     (p, t) \<in> {([], 0x1000), ([0], 0x2000), ([0, 0], 0x3000), ([0, 0, 0], 0x4000)}"
proof -
  assume a: "walk four_tables 0x1000 p = Some t" "length p \<le> 3" "idx_ok p"
  then consider "p = []" | i where "p = [i]" | i j where "p = [i, j]" | i j k where "p = [i, j, k]"
    by (cases p rule: remdups_adj.cases; cases "tl (tl p)"; cases "tl (tl (tl p))") auto
  then show ?thesis
    using a by cases (auto simp: four_tables_level simp del: walk.simps(2) split: if_splits)
qed

lemma four_tables_ok: "tables_ok {1, 2, 3, 4} four_tables 0x1000"
  unfolding tables_ok_def
proof (intro conjI allI impI)
  fix p t assume "length p \<le> 3" "idx_ok p" "walk four_tables 0x1000 p = Some t"
  then show "page_aligned t" "t div 4096 \<in> {1, 2, 3, 4}"
    using four_tables_walk [of p t] by (auto simp: page_aligned_def)
next
  fix p q t assume "length p \<le> 3" "idx_ok p" "length q \<le> 3" "idx_ok q"
    "walk four_tables 0x1000 p = Some t" "walk four_tables 0x1000 q = Some t"
  then show "p = q"
    using four_tables_walk [of p t] four_tables_walk [of q t] by auto
qed

lemma four_tables_translate:
  "PageMapIndexer v = PageMapIndexer 0x1000 \<Longrightarrow> translate four_tables 0x1000 v = Some 0x5000"
proof -
  assume "PageMapIndexer v = PageMapIndexer 0x1000"
  then have p: "path_of v = [0, 0, 0, 1]"
    by (simp add: path_of_eq_iff [symmetric]) (simp add: path_of_def PageMapIndexer_def Let_def)
  show ?thesis
    unfolding translate_def p by (simp add: four_tables_level del: walk.simps(2))
qed

theorem MapUserspaceMemory_sets_user_witness:
  "translate four_tables 0x1000 0x1123 = Some 0x5000 \<and>
   all_user (MapUserspaceMemory 0x1000 0x1123 four_tables) 0x1000 [0, 0, 0, 1]"
proof -
  have p: "path_of 0x1123 = [0, 0, 0, 1]"
    by (simp add: path_of_def PageMapIndexer_def Let_def)
  have t: "translate four_tables 0x1000 0x1123 = Some 0x5000"
    by (rule four_tables_translate) (simp add: PageMapIndexer_def Let_def)
  show ?thesis
    using MapUserspaceMemory_sets_user [OF four_tables_ok t] t by (simp add: p)
qed

end
