(* ===== verification/Heap.thy ===== *)
theory Heap
  imports PageTableManager
begin

unbundle bit_operations_syntax

text \<open>
  The kernel heap, \<open>memory/heap.cpp\<close>: a doubly linked list of segments, each a packed header of
  25 bytes with the payload behind it.  Headers are kept in a store from addresses to headers,
  total like the memory it stands for: \<open>Split\<close> of the last segment writes through the null
  pointer, to the header at address zero.  The pages under the heap come from the page frame
  allocator and are mapped by \<open>MapMemory\<close>.
\<close>

section \<open>State\<close>

record seg_hdr =
  seg_length :: u64
  seg_next :: u64
  seg_last :: u64
  seg_free :: bool

record heap =
  heapStart :: u64
  heapEnd :: u64
  LastHdr :: u64
  hdr :: "u64 \<Rightarrow> seg_hdr"

abbreviation set_hdr :: "u64 \<Rightarrow> (seg_hdr \<Rightarrow> seg_hdr) \<Rightarrow> heap \<Rightarrow> heap" where
  "set_hdr a f H \<equiv> H\<lparr>hdr := (hdr H)(a := f (hdr H a))\<rparr>"

text \<open>Physical memory, the page allocator, and the root of the page tables.\<close>

record vm =
  vm_mem :: mem
  vm_pfa :: pfa
  vm_root :: u64

definition map_new_page :: "u64 \<Rightarrow> vm \<Rightarrow> vm result" where
  "map_new_page v s =
     rbind (RequestPage (vm_pfa s)) (\<lambda>(pg, p).
     rbind (MapMemory (vm_root s) v pg (vm_mem s) p) (\<lambda>(m, p).
       Inr (s\<lparr>vm_mem := m, vm_pfa := p\<rparr>)))"

section \<open>Operations\<close>

definition CombineForward :: "u64 \<Rightarrow> heap \<Rightarrow> heap" where
  "CombineForward this H =
     (if seg_next (hdr H this) = 0 then H
      else if \<not> seg_free (hdr H (seg_next (hdr H this))) then H
      else
        let nxt = seg_next (hdr H this);
            H = (if nxt = LastHdr H then H\<lparr>LastHdr := this\<rparr> else H);
            H = (if seg_next (hdr H nxt) \<noteq> 0
                 then set_hdr (seg_next (hdr H nxt)) (\<lambda>h. h\<lparr>seg_last := this\<rparr>) H else H);
            H = set_hdr this (\<lambda>h. h\<lparr>seg_length := seg_length h + seg_length (hdr H nxt) + 25\<rparr>) H
        in set_hdr this (\<lambda>h. h\<lparr>seg_next := seg_next (hdr H nxt)\<rparr>) H)"

definition CombineBackward :: "u64 \<Rightarrow> heap \<Rightarrow> heap" where
  "CombineBackward this H =
     (let l = seg_last (hdr H this)
      in if l \<noteq> 0 \<and> seg_free (hdr H l) then CombineForward l H else H)"

text \<open>The body of \<open>Split\<close> in two parts: the links, then the lengths and the flag.\<close>

definition link_segment :: "u64 \<Rightarrow> u64 \<Rightarrow> heap \<Rightarrow> heap" where
  "link_segment this new H =
     (let H = set_hdr (seg_next (hdr H this)) (\<lambda>h. h\<lparr>seg_last := new\<rparr>) H;
          H = set_hdr new (\<lambda>h. h\<lparr>seg_next := seg_next (hdr H this)\<rparr>) H;
          H = set_hdr this (\<lambda>h. h\<lparr>seg_next := new\<rparr>) H
      in set_hdr new (\<lambda>h. h\<lparr>seg_last := this\<rparr>) H)"

definition size_segment :: "u64 \<Rightarrow> u64 \<Rightarrow> i64 \<Rightarrow> u64 \<Rightarrow> heap \<Rightarrow> heap" where
  "size_segment this new splitSegLength splitLength H =
     (let H = set_hdr new (\<lambda>h. h\<lparr>seg_length := splitSegLength\<rparr>) H;
          H = set_hdr new (\<lambda>h. h\<lparr>seg_free := seg_free (hdr H this)\<rparr>) H
      in set_hdr this (\<lambda>h. h\<lparr>seg_length := splitLength\<rparr>) H)"

definition Split :: "u64 \<Rightarrow> u64 \<Rightarrow> heap \<Rightarrow> u64 \<times> heap" where
  "Split this splitLength H =
     (if splitLength < 0x10 then (0, H)
      else
        let splitSegLength = seg_length (hdr H this) - splitLength - 25 :: i64
        in if sint splitSegLength < 0x10 then (0, H)
           else
             let new = this + splitLength + 25;
                 H = link_segment this new H;
                 H = size_segment this new splitSegLength splitLength H;
                 H = (if LastHdr H = this then H\<lparr>LastHdr := new\<rparr> else H)
             in (new, H))"

definition free :: "u64 \<Rightarrow> heap \<Rightarrow> heap" where
  "free address H =
     (let segment = address - 25;
          H = set_hdr segment (\<lambda>h. h\<lparr>seg_free := True\<rparr>) H;
          H = CombineForward segment H
      in CombineBackward segment H)"

text \<open>Pages are mapped one after the other; \<open>mp\<close> stands for requesting and mapping one.\<close>

fun map_pages :: "(u64 \<Rightarrow> 's \<Rightarrow> 's result) \<Rightarrow> nat \<Rightarrow> u64 \<Rightarrow> 's \<Rightarrow> (u64 \<times> 's) result" where
  "map_pages mp 0 pos s = Inr (pos, s)"
| "map_pages mp (Suc n) pos s = rbind (mp pos s) (map_pages mp n (pos + 0x1000))"

definition InitializeHeap_with ::
    "(u64 \<Rightarrow> 's \<Rightarrow> 's result) \<Rightarrow> u64 \<Rightarrow> u64 \<Rightarrow> heap \<Rightarrow> 's \<Rightarrow> (heap \<times> 's) result" where
  "InitializeHeap_with mp heapAddress pageCount H s =
     rbind (map_pages mp (unat pageCount) heapAddress s) (\<lambda>(_, s).
       let heapLength = pageCount * 0x1000;
           startSeg = heapAddress
       in Inr (H\<lparr>heapStart := heapAddress, heapEnd := heapAddress + heapLength,
                hdr := (hdr H)(startSeg := \<lparr>seg_length = heapLength - 25, seg_next = 0,
                   seg_last = 0, seg_free = True\<rparr>), LastHdr := startSeg\<rparr>, s))"

definition round_up :: "u64 \<Rightarrow> u64 \<Rightarrow> u64" where
  "round_up k n = (if n mod k > 0 then n - n mod k + k else n)"

definition ExpandHeap_with ::
    "(u64 \<Rightarrow> 's \<Rightarrow> 's result) \<Rightarrow> u64 \<Rightarrow> heap \<Rightarrow> 's \<Rightarrow> (heap \<times> 's) result" where
  "ExpandHeap_with mp len H s =
     (let len = round_up 0x1000 len;
          pageCount = len div 0x1000;
          new = heapEnd H
      in rbind (map_pages mp (unat pageCount) (heapEnd H) s) (\<lambda>(pos, s).
           let H = H\<lparr>heapEnd := pos\<rparr>;
               H = set_hdr new (\<lambda>h. h\<lparr>seg_free := True\<rparr>) H;
               H = set_hdr new (\<lambda>h. h\<lparr>seg_last := LastHdr H\<rparr>) H;
               H = set_hdr (LastHdr H) (\<lambda>h. h\<lparr>seg_next := new\<rparr>) H;
               H = H\<lparr>LastHdr := new\<rparr>;
               H = set_hdr new (\<lambda>h. h\<lparr>seg_next := 0\<rparr>) H;
               H = set_hdr new (\<lambda>h. h\<lparr>seg_length := len - 25\<rparr>) H
           in Inr (CombineBackward new H, s)))"

text \<open>The search of \<open>malloc\<close>: the first free segment that is large enough, or the end.\<close>

partial_function (option) find_seg :: "(u64 \<Rightarrow> seg_hdr) \<Rightarrow> u64 \<Rightarrow> u64 \<Rightarrow> u64 option option" where
  "find_seg h sz currentSeg =
     (if seg_free (h currentSeg) \<and> sz \<le> seg_length (h currentSeg) then Some (Some currentSeg)
      else if seg_next (h currentSeg) = 0 then Some None
      else find_seg h sz (seg_next (h currentSeg)))"

definition take_seg :: "u64 \<Rightarrow> u64 \<Rightarrow> heap \<Rightarrow> heap" where
  "take_seg seg sz H =
     (let H = (if seg_length (hdr H seg) > sz then snd (Split seg sz H) else H)
      in set_hdr seg (\<lambda>h. h\<lparr>seg_free := False\<rparr>) H)"

partial_function (option) malloc_with ::
    "(u64 \<Rightarrow> 's \<Rightarrow> 's result) \<Rightarrow> u64 \<Rightarrow> heap \<Rightarrow> 's \<Rightarrow> (u64 \<times> heap \<times> 's) result option" where
  "malloc_with mp sz H s =
     (let sz = round_up 0x10 sz
      in if sz = 0 then Some (Inr (0, H, s))
         else case find_seg (hdr H) sz (heapStart H) of
                None \<Rightarrow> None
              | Some (Some seg) \<Rightarrow> Some (Inr (seg + 25, take_seg seg sz H, s))
              | Some None \<Rightarrow>
                  (case ExpandHeap_with mp sz H s of
                     Inl e \<Rightarrow> Some (Inl e)
                   | Inr (H, s) \<Rightarrow> malloc_with mp sz H s))"

definition InitializeHeap :: "u64 \<Rightarrow> u64 \<Rightarrow> heap \<Rightarrow> vm \<Rightarrow> (heap \<times> vm) result" where
  "InitializeHeap = InitializeHeap_with map_new_page"
definition ExpandHeap :: "u64 \<Rightarrow> heap \<Rightarrow> vm \<Rightarrow> (heap \<times> vm) result" where
  "ExpandHeap = ExpandHeap_with map_new_page"
definition malloc :: "u64 \<Rightarrow> heap \<Rightarrow> vm \<Rightarrow> (u64 \<times> heap \<times> vm) result option" where
  "malloc = malloc_with map_new_page"


section \<open>The list of segments\<close>

text \<open>
  A run of segments from address \<open>a\<close> on, each behind the other: \<open>p\<close> is the header before the
  first, \<open>n\<close> what the last one's \<open>next\<close> holds.
\<close>

type_synonym segs = "(nat \<times> bool) list"

fun chain :: "(u64 \<Rightarrow> seg_hdr) \<Rightarrow> u64 \<Rightarrow> nat \<Rightarrow> segs \<Rightarrow> u64 \<Rightarrow> bool" where
  "chain h p a [] n \<longleftrightarrow> True"
| "chain h p a ((l, f) # xs) n \<longleftrightarrow>
     h (of_nat a) = \<lparr>seg_length = of_nat l, seg_next = (if xs = [] then n else of_nat (a + 25 + l)),
                     seg_last = p, seg_free = f\<rparr> \<and>
     chain h (of_nat a) (a + 25 + l) xs n"

fun end_of :: "nat \<Rightarrow> segs \<Rightarrow> nat" where
  "end_of a [] = a"
| "end_of a ((l, f) # xs) = end_of (a + 25 + l) xs"

fun last_of :: "u64 \<Rightarrow> nat \<Rightarrow> segs \<Rightarrow> u64" where
  "last_of p a [] = p"
| "last_of p a ((l, f) # xs) = last_of (of_nat a) (a + 25 + l) xs"

lemma end_of_append [simp]: "end_of a (xs @ ys) = end_of (end_of a xs) ys"
  by (induction a xs rule: end_of.induct) auto

lemma last_of_append [simp]: "last_of p a (xs @ ys) = last_of (last_of p a xs) (end_of a xs) ys"
  by (induction p a xs rule: last_of.induct) auto

lemma end_of_ge: "a \<le> end_of a xs"
  by (induction a xs rule: end_of.induct) auto

lemma end_of_gt: "xs \<noteq> [] \<Longrightarrow> a + 25 \<le> end_of a xs"
proof (cases xs)
  case (Cons x ys)
  then show ?thesis using end_of_ge [of "a + 25 + fst x" ys] by (cases x) auto
qed simp

lemma chain_append:
  "ys \<noteq> [] \<Longrightarrow> chain h p a (xs @ ys) n \<longleftrightarrow>
     chain h p a xs (of_nat (end_of a xs)) \<and> chain h (last_of p a xs) (end_of a xs) ys n"
  by (induction h p a xs n rule: chain.induct) auto

text \<open>A run depends only on the headers between its ends.\<close>

lemma chain_cong:
  "(\<And>x. a \<le> x \<Longrightarrow> x < end_of a xs \<Longrightarrow> h' (of_nat x) = h (of_nat x)) \<Longrightarrow>
     chain h' p a xs n = chain h p a xs n"
proof (induction h p a xs n rule: chain.induct)
  case (2 h p a l f xs n)
  have "h' (of_nat a) = h (of_nat a)"
    using end_of_ge [of "a + 25 + l" xs] by (intro "2.prems") auto
  moreover have "chain h' (of_nat a) (a + 25 + l) xs n = chain h (of_nat a) (a + 25 + l) xs n"
    by (intro "2.IH" "2.prems") auto
  ultimately show ?case by simp
qed simp

lemma last_of_range:
  "xs \<noteq> [] \<Longrightarrow> \<exists>x. last_of p a xs = of_nat x \<and> a \<le> x \<and> x < end_of a xs"
proof (induction p a xs rule: last_of.induct)
  case (2 p a l f xs)
  show ?case
  proof (cases "xs = []")
    case False
    with "2.IH" show ?thesis by fastforce
  qed auto
qed simp

text \<open>Headers below \<open>2 ^ 64\<close> have distinct addresses.\<close>

lemma hdr_upd_other:
  "x \<noteq> y \<Longrightarrow> x < 18446744073709551616 \<Longrightarrow> y < 18446744073709551616 \<Longrightarrow>
     (h(of_nat y := v)) (of_nat x :: u64) = h (of_nat x)"
  by (simp add: of_nat_eq64)

lemma chain_upd_other:
  "y < a \<or> end_of a xs \<le> y \<Longrightarrow> y < 18446744073709551616 \<Longrightarrow> end_of a xs \<le> 18446744073709551616 \<Longrightarrow>
     chain (h(of_nat y := v)) p a xs n = chain h p a xs n"
  by (rule chain_cong) (auto simp: of_nat_eq64)

text \<open>Only the first header of a run knows its predecessor, only the last one its end.\<close>

lemma chain_set_last:
  assumes "chain h p a xs n" and "xs \<noteq> []" and "end_of a xs \<le> 18446744073709551616"
  shows "chain (h(of_nat a := h (of_nat a)\<lparr>seg_last := q\<rparr>)) q a xs n"
proof -
  obtain l f ys where xs: "xs = (l, f) # ys" using assms(2) by (cases xs) auto
  then have "a < 18446744073709551616"
    using assms(3) end_of_ge [of "a + 25 + l" ys] by simp
  with assms xs show ?thesis
    by (simp add: chain_upd_other)
qed

lemma chain_set_next:
  assumes "chain h p a xs n" and "xs \<noteq> []" and "end_of a xs \<le> 18446744073709551616"
  shows "chain (h(last_of p a xs := h (last_of p a xs)\<lparr>seg_next := n'\<rparr>)) p a xs n'"
  using assms
proof (induction h p a xs n rule: chain.induct)
  case (2 h p a l f xs n)
  show ?case
  proof (cases "xs = []")
    case True
    with 2 show ?thesis by simp
  next
    case False
    then obtain x where x: "last_of (of_nat a) (a + 25 + l) xs = of_nat x" "a + 25 + l \<le> x"
        "x < end_of (a + 25 + l) xs" using last_of_range by blast
    with 2 False show ?thesis by (simp add: of_nat_eq64)
  qed
qed simp

section \<open>The invariant\<close>

text \<open>
  The segments tile the heap from \<open>heapStart\<close> to \<open>heapEnd\<close>; \<open>LastHdr\<close> is the last of them.
  The bound keeps all sizes below \<open>2 ^ 63\<close>.
\<close>

definition heap_str :: "heap \<Rightarrow> segs \<Rightarrow> bool" where
  "heap_str H xs \<longleftrightarrow>
     (let a = unat (heapStart H) in
        xs \<noteq> [] \<and> 0 < a \<and> chain (hdr H) 0 a xs 0 \<and> LastHdr H = last_of 0 a xs \<and>
        unat (heapEnd H) = end_of a xs \<and> end_of a xs \<le> 9223372036854775808)"

lemma chain_mid:
  "chain h p a (us @ (l, f) # vs) n \<longleftrightarrow>
     chain h p a us (of_nat (end_of a us)) \<and>
     h (of_nat (end_of a us)) =
       \<lparr>seg_length = of_nat l,
        seg_next = (if vs = [] then n else of_nat (end_of a us + 25 + l)),
        seg_last = last_of p a us, seg_free = f\<rparr> \<and>
     chain h (of_nat (end_of a us)) (end_of a us + 25 + l) vs n"
  by (simp add: chain_append)

lemma heap_str_seg:
  assumes "heap_str H (us @ (l, f) # vs)"
  defines "A \<equiv> end_of (unat (heapStart H)) us"
  shows "hdr H (of_nat A) =
       \<lparr>seg_length = of_nat l, seg_next = (if vs = [] then 0 else of_nat (A + 25 + l)),
        seg_last = last_of 0 (unat (heapStart H)) us, seg_free = f\<rparr>"
    and "0 < A" "A + 25 + l \<le> end_of (A + 25 + l) vs" "end_of (A + 25 + l) vs \<le> 9223372036854775808"
  using assms end_of_ge [of "unat (heapStart H)" us] end_of_ge [of "A + 25 + l" vs]
  by (auto simp: heap_str_def Let_def chain_mid)

lemma of_nat_eq_0: "x < 18446744073709551616 \<Longrightarrow> (of_nat x :: u64) = 0 \<longleftrightarrow> x = 0"
  using of_nat_eq64 [of x 0] by simp

lemma heap_str_set_free:
  assumes "heap_str H (us @ (l, f) # vs)"
  defines "A \<equiv> end_of (unat (heapStart H)) us"
  shows "heap_str (set_hdr (of_nat A) (\<lambda>h. h\<lparr>seg_free := f'\<rparr>) H) (us @ (l, f') # vs)"
  using assms heap_str_seg [OF assms(1)]
  by (simp add: heap_str_def Let_def chain_mid chain_upd_other del: fun_upd_apply) simp

lemma CombineForward_none:
  assumes "heap_str H (us @ (l, f) # vs)" and "vs = [] \<or> \<not> snd (hd vs)"
  shows "CombineForward (of_nat (end_of (unat (heapStart H)) us)) H = H"
proof (cases vs)
  case Nil
  with assms heap_str_seg [OF assms(1)] show ?thesis by (simp add: CombineForward_def)
next
  case (Cons x ws)
  obtain l2 where x: "x = (l2, False)" using assms(2) Cons by (cases x) auto
  have "heap_str H ((us @ [(l, f)]) @ (l2, False) # ws)" using assms(1) Cons x by simp
  from heap_str_seg(1) [OF this] heap_str_seg [OF assms(1)] Cons x
  show ?thesis by (simp add: CombineForward_def add.assoc)
qed

text \<open>
  A part \<open>ms\<close> of the segments is replaced by \<open>ms'\<close>: outside of the part only the header behind it
  changes, in the address of the one in front of it.
\<close>

lemma heap_str_last:
  assumes str: "heap_str H (us @ ms @ vs)" and "ms \<noteq> []"
  defines "A \<equiv> end_of (unat (heapStart H)) us"
  shows "LastHdr H = last_of p A ms \<longleftrightarrow> vs = []"
proof -
  let ?q = "last_of (last_of 0 (unat (heapStart H)) us) A ms" and ?C = "end_of A ms"
  have q: "last_of p A ms = ?q" using assms(2) by (cases ms) auto
  have L: "LastHdr H = last_of ?q ?C vs" "end_of ?C vs \<le> 9223372036854775808"
    using str by (simp_all add: heap_str_def Let_def A_def)
  obtain x where x: "?q = of_nat x" "x < ?C" using last_of_range [OF assms(2)] by blast
  have "vs \<noteq> [] \<Longrightarrow> LastHdr H \<noteq> ?q"
    using last_of_range [of vs ?q ?C] L x by (auto simp: of_nat_eq64)
  then show ?thesis using L(1) q by auto
qed

lemma heap_str_relink:
  assumes str: "heap_str H (us @ ms @ vs)" and ne: "ms \<noteq> []" "ms' \<noteq> []"
  defines "a \<equiv> unat (heapStart H)"
  defines "A \<equiv> end_of a us"
  defines "C \<equiv> end_of A ms"
  assumes same: "end_of A ms' = C" "heapStart H' = heapStart H" "heapEnd H' = heapEnd H"
    and out: "\<And>x. 0 < x \<Longrightarrow> x < A \<or> C \<le> x \<Longrightarrow> x < 9223372036854775808 \<Longrightarrow> hdr H' (of_nat x) =
      (if x = C \<and> vs \<noteq> [] then hdr H (of_nat x)\<lparr>seg_last := last_of 0 A ms'\<rparr> else hdr H (of_nat x))"
    and mid: "chain (hdr H') (last_of 0 a us) A ms' (if vs = [] then 0 else of_nat C)"
    and L: "LastHdr H' = (if vs = [] then last_of 0 A ms' else LastHdr H)"
  shows "heap_str H' (us @ ms' @ vs)"
proof -
  have last: "last_of p A ms' = last_of 0 A ms'" for p using ne(2) by (cases ms') auto
  have st: "0 < a" "end_of C vs \<le> 9223372036854775808"
    "unat (heapEnd H) = end_of C vs" "LastHdr H = last_of (last_of (last_of 0 a us) A ms) C vs"
    using str by (simp_all add: heap_str_def Let_def a_def A_def C_def)
  have ch: "chain (hdr H) 0 a (us @ ms @ vs) 0" using str by (simp add: heap_str_def Let_def a_def)
  have n: "ms @ vs \<noteq> []" using ne(1) by simp
  from iffD1 [OF chain_append [OF n] ch]
  have c: "chain (hdr H) 0 a us (of_nat A)" "chain (hdr H) (last_of 0 a us) A (ms @ vs) 0" by (simp_all only: A_def)
  have c2: "chain (hdr H) (last_of (last_of 0 a us) A ms) C vs 0" if "vs \<noteq> []"
    using iffD1 [OF chain_append [OF that] c(2)] by (simp only: C_def)
  have bd: "A < C" "C \<le> end_of C vs" using end_of_gt [OF ne(1), of A] end_of_ge [of C vs] by (simp_all add: C_def)
  have "chain (hdr H') 0 a us (of_nat A) = chain (hdr H) 0 a us (of_nat A)"
  proof (rule chain_cong)
    fix x assume "a \<le> x" "x < end_of a us"
    then have "0 < x" "x < A" "x \<noteq> C" using bd st(1) by (simp_all add: A_def)
    then show "hdr H' (of_nat x) = hdr H (of_nat x)" using out [of x] bd st(2) by simp
  qed
  then have us: "chain (hdr H') 0 a us (of_nat A)" using c(1) by simp
  have vs: "chain (hdr H') (last_of 0 A ms') C vs 0" if v: "vs \<noteq> []"
  proof -
    have "end_of C vs \<le> 18446744073709551616" using st(2) by simp
    note set = chain_set_last [OF c2 [OF v] v this, of "last_of 0 A ms'"]
    have "chain (hdr H') (last_of 0 A ms') C vs 0 =
        chain ((hdr H)(of_nat C := hdr H (of_nat C)\<lparr>seg_last := last_of 0 A ms'\<rparr>)) (last_of 0 A ms') C vs 0"
    proof (rule chain_cong)
      fix x assume x: "C \<le> x" "x < end_of C vs"
      then show "hdr H' (of_nat x) = ((hdr H)(of_nat C := hdr H (of_nat C)\<lparr>seg_last := last_of 0 A ms'\<rparr>)) (of_nat x)"
        using out [of x] v bd st(2) of_nat_eq64 [of x C] by (cases "x = C") simp_all
    qed
    then show ?thesis using set by simp
  qed
  have "chain (hdr H') (last_of 0 a us) A (ms' @ vs) 0"
  proof (cases "vs = []")
    case False
    then show ?thesis
      using mid vs chain_append [OF False, of "hdr H'" "last_of 0 a us" A ms' 0] last [of "last_of 0 a us"] same(1) by simp
  qed (use mid in simp)
  then have "chain (hdr H') 0 a (us @ ms' @ vs) 0"
    using us chain_append [of "ms' @ vs" "hdr H'" 0 a us 0] ne(2) by (simp add: A_def)
  moreover have "last_of q C vs = last_of q' C vs" if "vs \<noteq> []" for q q' using that by (cases vs) auto
  then have "LastHdr H' = last_of 0 a (us @ ms' @ vs)"
    using L st(4) same(1) last [of "last_of 0 a us"] by (cases "vs = []") (simp_all add: A_def)
  ultimately show ?thesis
    using ne(2) st(1,2,3) same by (simp add: heap_str_def Let_def a_def A_def)
qed

lemma heapStart_ops [simp]:
  "heapStart (CombineForward a H) = heapStart H" "heapStart (CombineBackward a H) = heapStart H"
  "heapStart (snd (Split a n H)) = heapStart H" "heapStart (take_seg a n H) = heapStart H"
  by (simp_all add: CombineForward_def CombineBackward_def Split_def link_segment_def
      size_segment_def take_seg_def Let_def)

lemma CombineForward_merge:
  assumes str: "heap_str H (us @ (l, f) # (l2, True) # vs)"
  shows "heap_str (CombineForward (of_nat (end_of (unat (heapStart H)) us)) H)
           (us @ (l + 25 + l2, f) # vs)"
proof -
  let ?a = "unat (heapStart H)"
  define A B C where "A = end_of ?a us" and "B = A + 25 + l" and "C = B + 25 + l2"
  note defs = A_def B_def C_def
  have str2: "heap_str H ((us @ [(l, f)]) @ (l2, True) # vs)" using str by simp
  note s1 = heap_str_seg [OF str] and s2 = heap_str_seg [OF str2]
  have hA: "hdr H (of_nat A) = \<lparr>seg_length = of_nat l, seg_next = of_nat B, seg_last = last_of 0 ?a us, seg_free = f\<rparr>"
    and hB: "hdr H (of_nat B) = \<lparr>seg_length = of_nat l2, seg_next = (if vs = [] then 0 else of_nat C),
      seg_last = of_nat A, seg_free = True\<rparr>"
    using s1(1) s2(1) by (simp_all add: defs)
  have bd: "0 < A" "A < B" "B < C" "C \<le> 9223372036854775808"
    using s1 s2 end_of_ge [of C vs] by (auto simp: defs)
  have ne: "(of_nat A :: u64) \<noteq> of_nat B" "(of_nat B :: u64) \<noteq> 0" "(of_nat C :: u64) \<noteq> 0"
    "(of_nat A :: u64) \<noteq> of_nat C" "(of_nat B :: u64) \<noteq> of_nat C" "(of_nat C :: u64) \<noteq> of_nat A"
    "(of_nat B :: u64) \<noteq> of_nat A"
    using bd by (simp_all add: of_nat_eq64 of_nat_eq_0)
  have last: "LastHdr H = of_nat B \<longleftrightarrow> vs = []"
    using heap_str_last [of H us "[(l, f), (l2, True)]" vs 0] str by (simp add: defs)
  let ?H = "CombineForward (of_nat A) H"
  let ?h = "if vs = [] then hdr H else (hdr H)(of_nat C := hdr H (of_nat C)\<lparr>seg_last := of_nat A\<rparr>)"
  have CF: "hdr ?H = ?h(of_nat A := \<lparr>seg_length = of_nat l + of_nat l2 + 25,
      seg_next = (if vs = [] then 0 else of_nat C), seg_last = last_of 0 ?a us, seg_free = f\<rparr>)"
  proof (rule ext)
    fix x show "hdr ?H x = (?h(of_nat A := \<lparr>seg_length = of_nat l + of_nat l2 + 25,
        seg_next = (if vs = [] then 0 else of_nat C), seg_last = last_of 0 ?a us, seg_free = f\<rparr>)) x"
      using hA hB ne last by (cases "vs = []"; cases "x = of_nat A"; cases "x = of_nat C") (simp_all add: CombineForward_def)
  qed
  have CF': "LastHdr ?H = (if vs = [] then of_nat A else LastHdr H)" "heapEnd ?H = heapEnd H"
    using hA hB ne last by (cases "vs = []"; simp add: CombineForward_def)+
  have E: "end_of ?a us = A" "end_of A [(l, f), (l2, True)] = C" by (simp_all add: defs)
  have "heap_str ?H (us @ [(l + 25 + l2, f)] @ vs)"
  proof (rule heap_str_relink [of H us "[(l, f), (l2, True)]"], unfold E)
    fix x assume "0 < x" "x < A \<or> C \<le> x" "x < 9223372036854775808"
    then have x: "x \<noteq> A" "(of_nat x :: u64) = of_nat A \<longleftrightarrow> x = A" "(of_nat x :: u64) = of_nat C \<longleftrightarrow> x = C"
      using bd by (auto simp: of_nat_eq64)
    then show "hdr ?H (of_nat x) = (if x = C \<and> vs \<noteq> []
        then hdr H (of_nat x)\<lparr>seg_last := last_of 0 A [(l + 25 + l2, f)]\<rparr> else hdr H (of_nat x))"
      by (auto simp: CF)
  qed (use str CF CF' in \<open>simp_all add: defs\<close>)
  then show ?thesis by (simp add: A_def)
qed

lemma CombineBackward_merge:
  assumes str: "heap_str H (us @ (l1, True) # (l, f) # vs)"
  defines "A \<equiv> end_of (unat (heapStart H)) us"
  shows "CombineBackward (of_nat (A + 25 + l1)) H = CombineForward (of_nat A) H"
proof -
  have str2: "heap_str H ((us @ [(l1, True)]) @ (l, f) # vs)" using str by simp
  have "hdr H (of_nat (A + 25 + l1)) = \<lparr>seg_length = of_nat l,
      seg_next = (if vs = [] then 0 else of_nat (A + 25 + l1 + 25 + l)), seg_last = of_nat A, seg_free = f\<rparr>"
    using heap_str_seg(1) [OF str2] by (simp add: A_def)
  moreover have "(of_nat A :: u64) \<noteq> 0" "seg_free (hdr H (of_nat A))"
    using heap_str_seg [OF str] by (auto simp: A_def of_nat_eq_0)
  ultimately show ?thesis by (simp add: CombineBackward_def)
qed

lemma CombineBackward_none:
  assumes str: "heap_str H (us @ (l, f) # vs)" and "us = [] \<or> \<not> snd (last us)"
  shows "CombineBackward (of_nat (end_of (unat (heapStart H)) us)) H = H"
proof (cases us rule: rev_cases)
  case Nil
  with heap_str_seg(1) [OF str] show ?thesis by (simp add: CombineBackward_def)
next
  case (snoc ws x)
  then obtain l1 where x: "x = (l1, False)" using assms(2) by (cases x) auto
  have str1: "heap_str H (ws @ (l1, False) # (l, f) # vs)" using str snoc x by simp
  have "seg_last (hdr H (of_nat (end_of (unat (heapStart H)) us))) =
      of_nat (end_of (unat (heapStart H)) ws)"
    using heap_str_seg(1) [OF str] by (simp add: snoc x)
  moreover have "\<not> seg_free (hdr H (of_nat (end_of (unat (heapStart H)) ws)))"
    using heap_str_seg(1) [OF str1] by simp
  ultimately show ?thesis by (simp add: CombineBackward_def)
qed

section \<open>Split and take\<close>

lemma sint_of_int64: "- 9223372036854775808 \<le> k \<Longrightarrow> k < 9223372036854775808 \<Longrightarrow>
    sint (word_of_int k :: i64) = k"
  by (simp add: signed_of_int signed_take_bit_int_eq_self)

lemma split_length:
  assumes "n \<le> l" and "l < 9223372036854775808"
  shows "sint (of_nat l - of_nat n - 25 :: i64) = int l - int n - 25"
proof -
  have "(of_nat l - of_nat n - 25 :: i64) = word_of_int (int l - int n - 25)" by simp
  moreover have "sint (word_of_int (int l - int n - 25) :: i64) = int l - int n - 25"
    using assms by (intro sint_of_int64) auto
  ultimately show ?thesis by (simp only:)
qed

lemma Split_refused:
  assumes str: "heap_str H (us @ (l, f) # vs)" and n: "n \<le> l" "l < n + 41"
  shows "snd (Split (of_nat (end_of (unat (heapStart H)) us)) (of_nat n) H) = H"
proof -
  have l: "l < 9223372036854775808" using heap_str_seg [OF str] by simp
  show ?thesis
    using heap_str_seg(1) [OF str] split_length [OF n(1) l] n(2) by (simp add: Split_def Let_def)
qed

text \<open>The headers after a split: \<open>A\<close> is the segment, \<open>B\<close> the new one and \<open>X\<close> the one behind, or 0.\<close>

lemma Split_hdr:
  fixes A B X :: u64
  assumes hA: "hdr H A = \<lparr>seg_length = len, seg_next = X, seg_last = q, seg_free = f\<rparr>"
    and ne: "A \<noteq> B" "B \<noteq> A" "X \<noteq> A" "X \<noteq> B" "A \<noteq> X" "B \<noteq> X"
    and new: "A + n + 25 = B" and n: "\<not> n < 16" "\<not> sint (len - n - 25 :: i64) < 16" and k: "len - n - 25 = k"
  shows "hdr (snd (Split A n H)) = (hdr H)(X := hdr H X\<lparr>seg_last := B\<rparr>,
    B := \<lparr>seg_length = k, seg_next = X, seg_last = A, seg_free = f\<rparr>,
    A := \<lparr>seg_length = n, seg_next = B, seg_last = q, seg_free = f\<rparr>)"
proof (rule ext)
  fix x
  show "hdr (snd (Split A n H)) x = ((hdr H)(X := hdr H X\<lparr>seg_last := B\<rparr>,
    B := \<lparr>seg_length = k, seg_next = X, seg_last = A, seg_free = f\<rparr>,
    A := \<lparr>seg_length = n, seg_next = B, seg_last = q, seg_free = f\<rparr>)) x"
    using hA n ne by (cases "x = A"; cases "x = B"; cases "x = X")
      (simp_all add: Split_def Let_def new k link_segment_def size_segment_def)
qed

lemma Split_splits:
  assumes str: "heap_str H (us @ (l, f) # vs)" and n: "16 \<le> n" "n + 41 \<le> l"
  shows "heap_str (snd (Split (of_nat (end_of (unat (heapStart H)) us)) (of_nat n) H))
           (us @ (n, f) # (l - n - 25, f) # vs)"
proof -
  let ?a = "unat (heapStart H)"
  define A B C where "A = end_of ?a us" and "B = A + 25 + n" and "C = A + 25 + l"
  note defs = A_def B_def C_def
  define X where "X = (if vs = [] then 0 else C)"
  note s1 = heap_str_seg [OF str]
  have X: "(if vs = [] then 0 else of_nat C) = (of_nat X :: u64)" by (simp add: X_def)
  have hA: "hdr H (of_nat A) = \<lparr>seg_length = of_nat l, seg_next = of_nat X, seg_last = last_of 0 ?a us, seg_free = f\<rparr>"
    using s1(1) by (simp add: X_def A_def C_def)
  have bd: "0 < A" "A < B" "B < C" "C \<le> 9223372036854775808"
    using s1 n by (auto simp: defs)
  have ne: "(of_nat A :: u64) \<noteq> of_nat B" "(of_nat B :: u64) \<noteq> of_nat A" "(of_nat X :: u64) \<noteq> of_nat A"
    "(of_nat X :: u64) \<noteq> of_nat B" "(of_nat A :: u64) \<noteq> of_nat X" "(of_nat B :: u64) \<noteq> of_nat X"
    using bd by (auto simp: X_def of_nat_eq64 of_nat_eq_0 dest: sym)
  have new: "of_nat A + of_nat n + 25 = (of_nat B :: u64)" by (simp add: B_def)
  have n16: "\<not> (of_nat n :: u64) < 16" using n bd by (simp add: word_less_nat_alt unat_of_nat64 C_def)
  have sl: "\<not> sint (of_nat l - of_nat n - 25 :: i64) < 16" using split_length [of n l] n bd by (simp add: C_def)
  have ln: "of_nat l - of_nat n - 25 = (of_nat (l - n - 25) :: u64)" using n by (simp add: of_nat_diff)
  have last: "LastHdr H = of_nat A \<longleftrightarrow> vs = []" using heap_str_last [of H us "[(l, f)]" vs 0] str by (simp add: defs)
  let ?H = "snd (Split (of_nat A) (of_nat n) H)"
  have S: "hdr ?H = (hdr H)(of_nat X := hdr H (of_nat X)\<lparr>seg_last := of_nat B\<rparr>,
      of_nat B := \<lparr>seg_length = of_nat (l - n - 25), seg_next = of_nat X, seg_last = of_nat A, seg_free = f\<rparr>,
      of_nat A := \<lparr>seg_length = of_nat n, seg_next = of_nat B, seg_last = last_of 0 ?a us, seg_free = f\<rparr>)"
    by (rule Split_hdr [OF hA ne new n16 sl ln])
  have S': "heapEnd ?H = heapEnd H" "LastHdr ?H = (if LastHdr H = of_nat A then of_nat B else LastHdr H)"
    using hA n16 sl by (simp_all add: Split_def Let_def new link_segment_def size_segment_def)
  have E: "end_of ?a us = A" "end_of A [(l, f)] = C" "end_of A [(n, f), (l - n - 25, f)] = C"
    using n by (simp_all add: defs)
  have "heap_str ?H (us @ [(n, f), (l - n - 25, f)] @ vs)"
  proof (rule heap_str_relink [of H us "[(l, f)]"], unfold E)
    fix x assume "0 < x" "x < A \<or> C \<le> x" "x < 9223372036854775808"
    then have "(of_nat x :: u64) \<noteq> of_nat A" "(of_nat x :: u64) \<noteq> of_nat B" "(of_nat x :: u64) = of_nat X \<longleftrightarrow> x = C \<and> vs \<noteq> []"
      using bd by (auto simp: X_def of_nat_eq64 of_nat_eq_0)
    then show "hdr ?H (of_nat x) = (if x = C \<and> vs \<noteq> []
        then hdr H (of_nat x)\<lparr>seg_last := last_of 0 A [(n, f), (l - n - 25, f)]\<rparr> else hdr H (of_nat x))"
      by (auto simp: S B_def)
  qed (use str S' last ne in \<open>simp_all add: S X E(1) B_def [symmetric]\<close>)
  then show ?thesis by (simp add: A_def)
qed

text \<open>What taking a segment does to the list: the segment is split when 16 bytes remain.\<close>

definition split_seg :: "nat \<Rightarrow> nat \<Rightarrow> segs" where
  "split_seg n l = (if n + 41 \<le> l then [(n, False), (l - n - 25, True)] else [(l, False)])"

lemma take_seg_str:
  assumes str: "heap_str H (us @ (l, True) # vs)" and n: "16 \<le> n" "n \<le> l"
  defines "A \<equiv> end_of (unat (heapStart H)) us"
  shows "heap_str (take_seg (of_nat A) (of_nat n) H) (us @ split_seg n l @ vs)"
proof -
  have l: "l \<le> 9223372036854775808" using heap_str_seg [OF str] by simp
  have gt: "seg_length (hdr H (of_nat A)) > of_nat n \<longleftrightarrow> n < l"
    using heap_str_seg(1) [OF str] l n by (simp add: A_def word_less_nat_alt unat_of_nat64)
  have hs: "heapStart (snd (Split (of_nat A) (of_nat n) H)) = heapStart H" by simp
  show ?thesis
  proof (cases "n + 41 \<le> l")
    case True
    from Split_splits [OF str n(1) True]
    have "heap_str (snd (Split (of_nat A) (of_nat n) H)) (us @ (n, True) # (l - n - 25, True) # vs)"
      by (simp add: A_def)
    from heap_str_set_free [OF this, of False] gt True show ?thesis
      by (simp add: take_seg_def Let_def split_seg_def A_def)
  next
    case False
    then have "snd (Split (of_nat A) (of_nat n) H) = H"
      using Split_refused [OF str n(2)] by (simp add: A_def)
    then have "take_seg (of_nat A) (of_nat n) H = set_hdr (of_nat A) (\<lambda>h. h\<lparr>seg_free := False\<rparr>) H"
      by (simp add: take_seg_def Let_def)
    with heap_str_set_free [OF str, of False] False show ?thesis
      by (simp add: split_seg_def A_def)
  qed
qed


section \<open>Freeing\<close>

fun no_free_pair :: "segs \<Rightarrow> bool" where
  "no_free_pair (x # y # xs) \<longleftrightarrow> \<not> (snd x \<and> snd y) \<and> no_free_pair (y # xs)"
| "no_free_pair _ \<longleftrightarrow> True"

lemma no_free_pair_append:
  "no_free_pair (xs @ y # ys) \<longleftrightarrow>
     no_free_pair xs \<and> no_free_pair (y # ys) \<and> (xs = [] \<or> \<not> (snd (last xs) \<and> snd y))"
  by (induction xs rule: no_free_pair.induct) auto

lemma no_free_pair_Cons: "no_free_pair (x # xs) \<longleftrightarrow>
    no_free_pair xs \<and> (xs = [] \<or> \<not> (snd x \<and> snd (hd xs)))"
  by (cases xs) auto

definition heap_inv :: "heap \<Rightarrow> segs \<Rightarrow> bool" where
  "heap_inv H xs \<longleftrightarrow> heap_str H xs \<and> no_free_pair xs"

definition join_next :: "nat \<Rightarrow> segs \<Rightarrow> segs" where
  "join_next l vs = (case vs of (l2, True) # ws \<Rightarrow> (l + 25 + l2, True) # ws | _ \<Rightarrow> (l, True) # vs)"

definition join_prev :: "segs \<Rightarrow> segs \<Rightarrow> segs" where
  "join_prev us ws =
     (if us \<noteq> [] \<and> snd (last us)
      then butlast us @ (fst (last us) + 25 + fst (hd ws), True) # tl ws else us @ ws)"

lemma join_next_Cons: "\<exists>l' ws. join_next l vs = (l', True) # ws"
  by (cases vs) (auto simp: join_next_def split: bool.splits)

lemma free_str:
  assumes str: "heap_str H (us @ (l, False) # vs)" and np: "no_free_pair (us @ (l, False) # vs)"
  defines "A \<equiv> end_of (unat (heapStart H)) us"
  shows "heap_inv (free (of_nat (A + 25)) H) (join_prev us (join_next l vs))"
proof -
  define H1 where "H1 = set_hdr (of_nat A) (\<lambda>h. h\<lparr>seg_free := True\<rparr>) H"
  define H2 where "H2 = CombineForward (of_nat A) H1"
  have hs: "heapStart H1 = heapStart H" "heapStart H2 = heapStart H" by (simp_all add: H1_def H2_def)
  have free: "free (of_nat (A + 25)) H = CombineBackward (of_nat A) H2"
    by (simp add: free_def Let_def H1_def H2_def)
  have s1: "heap_str H1 (us @ (l, True) # vs)"
    using heap_str_set_free [OF str, of True] by (simp add: H1_def A_def)
  have s2: "heap_str H2 (us @ join_next l vs)"
  proof (cases "vs = [] \<or> \<not> snd (hd vs)")
    case True
    then have "join_next l vs = (l, True) # vs"
      by (cases vs) (auto simp: join_next_def split: bool.splits)
    with True s1 CombineForward_none [OF s1] show ?thesis by (simp add: H2_def A_def hs)
  next
    case False
    then obtain l2 ws where "vs = (l2, True) # ws" by (cases vs) auto
    with s1 CombineForward_merge [of H1 us l True l2 ws] show ?thesis
      by (simp add: H2_def A_def hs join_next_def)
  qed
  obtain l' ws where jn: "join_next l vs = (l', True) # ws" using join_next_Cons by blast
  have ws: "ws = [] \<or> \<not> snd (hd ws)" "no_free_pair ws"
    using np jn by (cases vs; auto simp: join_next_def no_free_pair_append no_free_pair_Cons
        split: bool.splits)+
  have us: "no_free_pair us" using np by (simp add: no_free_pair_append)
  show ?thesis
  proof (cases "us = [] \<or> \<not> snd (last us)")
    case True
    then have "CombineBackward (of_nat A) H2 = H2"
      using CombineBackward_none [of H2 us l' True ws] s2 jn by (simp add: A_def hs)
    moreover have "no_free_pair (us @ (l', True) # ws)"
      using True us ws by (auto simp: no_free_pair_append no_free_pair_Cons)
    ultimately show ?thesis
      using True s2 jn free by (auto simp: heap_inv_def join_prev_def)
  next
    case False
    then obtain us' l1 where u: "us = us' @ [(l1, True)]"
      by (cases us rule: rev_cases) auto
    have A: "A = end_of (unat (heapStart H2)) us' + 25 + l1" by (simp add: A_def u hs)
    have s2': "heap_str H2 (us' @ (l1, True) # (l', True) # ws)" using s2 jn u by simp
    have "CombineBackward (of_nat A) H2 = CombineForward (of_nat (end_of (unat (heapStart H2)) us')) H2"
      unfolding A by (rule CombineBackward_merge [OF s2'])
    then have "heap_str (free (of_nat (A + 25)) H) (us' @ (l1 + 25 + l', True) # ws)"
      using CombineForward_merge [OF s2'] free by simp
    moreover have "no_free_pair (us' @ (l1 + 25 + l', True) # ws)"
      using us ws u by (auto simp: no_free_pair_append no_free_pair_Cons)
    ultimately show ?thesis by (simp add: heap_inv_def join_prev_def u jn)
  qed
qed

section \<open>Blocks handed out\<close>

text \<open>The payloads in use, as address and length, in order of their addresses.\<close>

fun blocks :: "nat \<Rightarrow> segs \<Rightarrow> (nat \<times> nat) list" where
  "blocks a [] = []"
| "blocks a ((l, f) # xs) = (if f then [] else [(a + 25, l)]) @ blocks (a + 25 + l) xs"

lemma blocks_append [simp]: "blocks a (xs @ ys) = blocks a xs @ blocks (end_of a xs) ys"
  by (induction a xs rule: blocks.induct) auto

lemma blocks_range:
  "(p, l) \<in> set (blocks a xs) \<Longrightarrow> a + 25 \<le> p \<and> p + l \<le> end_of a xs"
proof (induction a xs rule: blocks.induct)
  case (2 a k f xs)
  then show ?case
    using end_of_ge [of "a + 25 + k" xs] by (fastforce split: if_splits)
qed simp

lemma blocks_split:
  "(p, l) \<in> set (blocks a xs) \<Longrightarrow>
     \<exists>us vs. xs = us @ (l, False) # vs \<and> p = end_of a us + 25"
proof (induction a xs rule: blocks.induct)
  case (2 a k f xs)
  show ?case
  proof (cases "(p, l) \<in> set (blocks (a + 25 + k) xs)")
    case True
    with 2 obtain us vs where "xs = us @ (l, False) # vs" "p = end_of (a + 25 + k) us + 25" by blast
    then show ?thesis by (intro exI [of _ "(k, f) # us"] exI [of _ vs]) simp
  next
    case False
    with 2 show ?thesis by (intro exI [of _ "[]"] exI [of _ xs]) (auto split: if_splits)
  qed
qed simp

text \<open>Blocks in use do not overlap; not even their headers do.\<close>

definition apart :: "nat \<times> nat \<Rightarrow> nat \<times> nat \<Rightarrow> bool" where
  "apart b c \<longleftrightarrow> fst b + snd b + 25 \<le> fst c \<or> fst c + snd c + 25 \<le> fst b"

lemma blocks_apart: "sorted_wrt apart (blocks a xs)"
proof (induction a xs rule: blocks.induct)
  case (2 a k f xs)
  then show ?case
    using blocks_range [of _ _ "a + 25 + k" xs] by (auto simp: apart_def)
qed simp

lemma blocks_join_next: "blocks a (join_next l vs) = blocks (a + 25 + l) vs"
proof (cases vs)
  case (Cons x ws)
  then show ?thesis by (cases x; cases "snd x") (auto simp: join_next_def add_ac)
qed (simp add: join_next_def)

lemma blocks_join_prev:
  "blocks a (join_prev us (join_next l vs)) = blocks a us @ blocks (end_of a us + 25 + l) vs"
proof (cases "us \<noteq> [] \<and> snd (last us)")
  case True
  then obtain us' l1 where u: "us = us' @ [(l1, True)]" by (cases us rule: rev_cases) auto
  obtain l' ws where jn: "join_next l vs = (l', True) # ws" using join_next_Cons by blast
  have "blocks (end_of a us) (join_next l vs) = blocks (end_of a us + 25 + l') ws" by (simp add: jn)
  then show ?thesis
    using True blocks_join_next [of "end_of a us" l vs] by (simp add: join_prev_def u jn add_ac)
next
  case False
  then show ?thesis by (auto simp: join_prev_def blocks_join_next)
qed

lemma join_prev_ne: "join_prev us (join_next l vs) \<noteq> []"
  using join_next_Cons [of l vs] by (auto simp: join_prev_def)

text \<open>\<open>free\<close> of a block in use takes it from the blocks, and leaves the others.\<close>

lemma free_blocks:
  assumes inv: "heap_inv H xs" and b: "(p, l) \<in> set (blocks (unat (heapStart H)) xs)"
  shows "\<exists>ys. heap_inv (free (of_nat p) H) ys \<and>
    set (blocks (unat (heapStart H)) ys) = set (blocks (unat (heapStart H)) xs) - {(p, l)}"
proof -
  let ?a = "unat (heapStart H)"
  from blocks_split [OF b] obtain us vs where xs: "xs = us @ (l, False) # vs"
    and p: "p = end_of ?a us + 25" by blast
  have "heap_inv (free (of_nat p) H) (join_prev us (join_next l vs))"
    using inv free_str [of H us l vs] by (simp add: heap_inv_def xs p)
  moreover have "set (blocks ?a (join_prev us (join_next l vs))) = set (blocks ?a xs) - {(p, l)}"
  proof -
    have s: "sorted_wrt apart (blocks ?a us @ (p, l) # blocks (p + l) vs)"
      using blocks_apart [of ?a xs] by (simp add: xs p add_ac)
    have "\<not> apart (p, l) (p, l)" by (simp add: apart_def)
    then have "(p, l) \<notin> set (blocks ?a us @ blocks (p + l) vs)"
      using s by (auto simp: sorted_wrt_append)
    then show ?thesis unfolding blocks_join_prev by (auto simp: xs p add_ac)
  qed
  ultimately show ?thesis by blast
qed


section \<open>Searching\<close>

definition fits :: "nat \<Rightarrow> nat \<times> bool \<Rightarrow> bool" where
  "fits n x \<longleftrightarrow> snd x \<and> n \<le> fst x"

text \<open>The first segment that fits, with what lies before and behind it.\<close>

fun first_fit :: "nat \<Rightarrow> segs \<Rightarrow> (segs \<times> nat \<times> segs) option" where
  "first_fit n [] = None"
| "first_fit n (x # xs) =
     (if fits n x then Some ([], fst x, xs)
      else map_option (\<lambda>(us, r). (x # us, r)) (first_fit n xs))"

lemma first_fit_Some:
  "first_fit n xs = Some (us, l, vs) \<Longrightarrow>
     xs = us @ (l, True) # vs \<and> n \<le> l \<and> (\<forall>x \<in> set us. \<not> fits n x)"
proof (induction xs arbitrary: us)
  case (Cons x xs)
  show ?case
  proof (cases "fits n x")
    case True
    with Cons.prems show ?thesis by (cases x) (auto simp: fits_def)
  next
    case False
    with Cons show ?thesis by auto
  qed
qed simp

lemma first_fit_None: "first_fit n xs = None \<longleftrightarrow> (\<forall>x \<in> set xs. \<not> fits n x)"
  by (induction xs) auto

lemma find_seg_chain:
  assumes "chain h p a xs 0" and "xs \<noteq> []" and "end_of a xs \<le> 9223372036854775808"
    and "0 < a" and "n < 9223372036854775808"
  shows "find_seg h (of_nat n) (of_nat a) =
    Some (map_option (\<lambda>(us, _). of_nat (end_of a us)) (first_fit n xs))"
  using assms
proof (induction xs arbitrary: p a)
  case (Cons x xs)
  obtain l f where x: "x = (l, f)" by (cases x)
  have bd: "a + 25 + l \<le> 9223372036854775808"
    using Cons.prems end_of_ge [of "a + 25 + l" xs] by (simp add: x)
  have ha: "h (of_nat a) = \<lparr>seg_length = of_nat l,
      seg_next = (if xs = [] then 0 else of_nat (a + 25 + l)), seg_last = p, seg_free = f\<rparr>"
    using Cons.prems by (simp add: x)
  have le: "(of_nat n :: u64) \<le> of_nat l \<longleftrightarrow> n \<le> l"
    using bd Cons.prems by (simp add: word_le_nat_alt unat_of_nat64)
  show ?case
  proof (cases "fits n x")
    case True
    then show ?thesis by (simp add: find_seg.simps [of h] ha le fits_def x)
  next
    case False
    show ?thesis
    proof (cases "xs = []")
      case True
      with False show ?thesis by (simp add: find_seg.simps [of h] ha le fits_def x)
    next
      case ne: False
      have nz: "(of_nat (a + 25 + l) :: u64) \<noteq> 0" using bd by (subst of_nat_eq_0) auto
      have "find_seg h (of_nat n) (of_nat a) = find_seg h (of_nat n) (of_nat (a + 25 + l))"
        using False ne nz by (subst find_seg.simps) (auto simp: ha le fits_def x)
      also have "\<dots> = Some (map_option (\<lambda>(us, _). of_nat (end_of (a + 25 + l) us)) (first_fit n xs))"
        using Cons.prems ne by (intro Cons.IH) (auto simp: x)
      finally show ?thesis
        using False by (simp add: x option.map_comp comp_def case_prod_unfold)
    qed
  qed
qed simp

lemma find_seg_str:
  assumes "heap_str H xs" and "n < 9223372036854775808"
  shows "find_seg (hdr H) (of_nat n) (heapStart H) =
    Some (map_option (\<lambda>(us, _). of_nat (end_of (unat (heapStart H)) us)) (first_fit n xs))"
  using assms find_seg_chain [of "hdr H" 0 "unat (heapStart H)" xs n]
  by (simp add: heap_str_def Let_def)

section \<open>Expanding\<close>

text \<open>The list after a growth by \<open>k\<close> bytes: joined to a free last segment.\<close>

definition grow :: "nat \<Rightarrow> segs \<Rightarrow> segs" where
  "grow k xs = (if snd (last xs) then butlast xs @ [(fst (last xs) + k, True)] else xs @ [(k - 25, True)])"

definition append_segment :: "u64 \<Rightarrow> u64 \<Rightarrow> u64 \<Rightarrow> heap \<Rightarrow> heap" where
  "append_segment pos new len H =
     (let H = H\<lparr>heapEnd := pos\<rparr>;
          H = set_hdr new (\<lambda>h. h\<lparr>seg_free := True\<rparr>) H;
          H = set_hdr new (\<lambda>h. h\<lparr>seg_last := LastHdr H\<rparr>) H;
          H = set_hdr (LastHdr H) (\<lambda>h. h\<lparr>seg_next := new\<rparr>) H;
          H = H\<lparr>LastHdr := new\<rparr>;
          H = set_hdr new (\<lambda>h. h\<lparr>seg_next := 0\<rparr>) H
      in set_hdr new (\<lambda>h. h\<lparr>seg_length := len - 25\<rparr>) H)"

lemma append_segment_str:
  assumes str: "heap_str H xs" and k: "25 \<le> k" "unat (heapEnd H) + k \<le> 9223372036854775808"
  shows "heap_str (append_segment (heapEnd H + of_nat k) (heapEnd H) (of_nat k) H) (xs @ [(k - 25, True)])"
proof -
  let ?a = "unat (heapStart H)"
  define E where "E = end_of ?a xs"
  have st: "xs \<noteq> []" "0 < ?a" "chain (hdr H) 0 ?a xs 0" "LastHdr H = last_of 0 ?a xs"
    "unat (heapEnd H) = E" "E \<le> 9223372036854775808"
    using str by (simp_all add: heap_str_def Let_def E_def)
  have new: "heapEnd H = of_nat E" using st(5) by (metis of_nat_unat_id)
  have pos: "unat (heapEnd H + of_nat k) = E + k"
    using k st by (subst unat_add_small) (simp_all add: unat_of_nat64)
  obtain L where L: "last_of 0 ?a xs = of_nat L" "?a \<le> L" "L < E"
    using last_of_range [OF st(1)] E_def by blast
  have ne: "(of_nat L :: u64) \<noteq> of_nat E" "(of_nat E :: u64) \<noteq> of_nat L"
    using L st by (simp_all add: of_nat_eq64)
  define h1 where "h1 = (hdr H)(of_nat L := hdr H (of_nat L)\<lparr>seg_next := of_nat E\<rparr>)"
  define h2 where "h2 = h1(of_nat E := \<lparr>seg_length = of_nat k - 25, seg_next = 0,
      seg_last = of_nat L, seg_free = True\<rparr>)"
  let ?H = "append_segment (heapEnd H + of_nat k) (heapEnd H) (of_nat k) H"
  have hdr: "hdr ?H = h2"
  proof (rule ext)
    fix x
    show "hdr ?H x = h2 x"
      using ne by (cases "x = of_nat L"; cases "x = of_nat E")
        (simp_all add: append_segment_def Let_def new st(4) L(1) h1_def h2_def)
  qed
  have H: "heapStart ?H = heapStart H" "heapEnd ?H = heapEnd H + of_nat k" "LastHdr ?H = of_nat E"
    by (simp_all add: append_segment_def Let_def new)
  have "E \<le> 18446744073709551616" using st by simp
  from chain_set_next [OF st(3,1) this [unfolded E_def], of "of_nat E"]
  have "chain h1 0 ?a xs (of_nat E)" by (simp add: h1_def L(1))
  then have "chain h2 0 ?a xs (of_nat E)"
    using st(6) by (simp add: h2_def chain_upd_other E_def [symmetric] del: fun_upd_apply)
  then have "chain h2 0 ?a (xs @ [(k - 25, True)]) 0"
    using k by (simp add: chain_mid E_def [symmetric] L(1) h2_def of_nat_diff)
  moreover have "end_of ?a (xs @ [(k - 25, True)]) = E + k"
    using k by (simp add: E_def [symmetric])
  ultimately show ?thesis
    using st k pos by (simp add: heap_str_def Let_def H hdr E_def [symmetric])
qed

lemma ExpandHeap_with_eq:
  "ExpandHeap_with mp len H s =
     rbind (map_pages mp (unat (round_up 0x1000 len div 0x1000)) (heapEnd H) s) (\<lambda>(pos, s).
       Inr (CombineBackward (heapEnd H) (append_segment pos (heapEnd H) (round_up 0x1000 len) H), s))"
  unfolding ExpandHeap_with_def append_segment_def Let_def ..

lemma grow_inv:
  assumes inv: "heap_inv H xs" and k: "25 \<le> k" "unat (heapEnd H) + k \<le> 9223372036854775808"
  shows "heap_inv (CombineBackward (heapEnd H)
            (append_segment (heapEnd H + of_nat k) (heapEnd H) (of_nat k) H)) (grow k xs)"
proof -
  let ?H = "append_segment (heapEnd H + of_nat k) (heapEnd H) (of_nat k) H"
  have np: "no_free_pair xs" and str: "heap_str H xs" using inv by (simp_all add: heap_inv_def)
  have hs: "heapStart ?H = heapStart H" by (simp add: append_segment_def Let_def)
  have E: "heapEnd H = of_nat (end_of (unat (heapStart H)) xs)"
    using str by (metis heap_str_def of_nat_unat_id)
  note s = append_segment_str [OF str k]
  show ?thesis
  proof (cases "snd (last xs)")
    case False
    have "CombineBackward (of_nat (end_of (unat (heapStart ?H)) xs)) ?H = ?H"
      by (rule CombineBackward_none [OF s]) (simp add: False)
    then have "CombineBackward (heapEnd H) ?H = ?H" unfolding hs E [symmetric] .
    moreover have "no_free_pair (xs @ [(k - 25, True)])"
      using np False by (auto simp: no_free_pair_append)
    ultimately show ?thesis using s False by (simp add: heap_inv_def grow_def)
  next
    case True
    have "xs \<noteq> []" using str by (simp add: heap_str_def Let_def)
    with True obtain us l where xs: "xs = us @ [(l, True)]"
      by (cases xs rule: rev_cases) auto
    have s': "heap_str ?H (us @ (l, True) # (k - 25, True) # [])" using s xs by simp
    have "heapEnd H = of_nat (end_of (unat (heapStart ?H)) us + 25 + l)" using E xs hs by simp
    then have "CombineBackward (heapEnd H) ?H = CombineForward (of_nat (end_of (unat (heapStart ?H)) us)) ?H"
      using CombineBackward_merge [OF s'] by simp
    moreover have "no_free_pair (us @ [(l + 25 + (k - 25), True)])"
      using np xs by (auto simp: no_free_pair_append)
    ultimately show ?thesis
      using CombineForward_merge [OF s'] k True by (simp add: heap_inv_def grow_def xs)
  qed
qed

lemma blocks_grow: "xs \<noteq> [] \<Longrightarrow> 25 \<le> k \<Longrightarrow> blocks a (grow k xs) = blocks a xs"
  by (cases xs rule: rev_cases) (auto simp: grow_def)

lemma end_of_grow: "xs \<noteq> [] \<Longrightarrow> 25 \<le> k \<Longrightarrow> end_of a (grow k xs) = end_of a xs + k"
  by (cases xs rule: rev_cases) (auto simp: grow_def)

end
