(* ===== verification/HeapAllocator.thy ===== *)
theory HeapAllocator
  imports Heap
begin

unbundle bit_operations_syntax

text \<open>
  What \<open>malloc\<close>, \<open>free\<close>, \<open>ExpandHeap\<close> and \<open>InitializeHeap\<close> of \<open>memory/heap.cpp\<close> promise: the
  contract of the page mapper they rely on, and that the heap keeps a set of disjoint blocks of
  mapped memory to which \<open>malloc\<close> adds and from which \<open>free\<close> takes one.
\<close>

section \<open>Rounding\<close>

definition nround :: "nat \<Rightarrow> nat \<Rightarrow> nat" where
  "nround k n = (n + (k - 1)) div k * k"

lemma nround_ge: "0 < k \<Longrightarrow> n \<le> nround k n"
proof -
  assume k: "0 < k"
  have "(n + (k - 1)) mod k < k" using k by simp
  moreover have "n + (k - 1) = nround k n + (n + (k - 1)) mod k"
    unfolding nround_def by (simp add: div_mult_mod_eq)
  ultimately show ?thesis by linarith
qed

lemma nround_le: "nround k n \<le> n + (k - 1)"
  by (simp add: nround_def)

lemma nround_mod [simp]: "nround k n mod k = 0"
  by (simp add: nround_def)

lemma nround_id: "0 < k \<Longrightarrow> n mod k = 0 \<Longrightarrow> nround k n = n"
proof -
  assume k: "0 < k" and "n mod k = 0"
  then obtain q where "n = k * q" by (metis mod_0_imp_dvd dvdE)
  moreover have "(k * q + (k - 1)) div k = q"
    using k by (intro div_nat_eqI) (simp_all add: algebra_simps)
  ultimately show ?thesis by (simp add: nround_def mult.commute)
qed

lemma nround_pos: "0 < k \<Longrightarrow> 0 < n \<Longrightarrow> k \<le> nround k n"
  using mod_gap [of 0 k "nround k n"] nround_ge [of k n] by simp

lemma nround_step:
  assumes "0 < k"
  shows "nround k n = (if n mod k = 0 then n else n - n mod k + k)"
proof (cases "n mod k = 0")
  case True
  with assms show ?thesis by (simp add: nround_id)
next
  case False
  define q r where "q = n div k" and "r = n mod k"
  have n: "n = q * k + r" "0 < r" "r < k"
    using False assms by (simp_all add: q_def r_def)
  have "n + (k - 1) = (q + 1) * k + (r - 1)" "r - 1 < k" using n by (simp_all add: algebra_simps)
  then have "(n + (k - 1)) div k = q + 1"
    by (metis div_mult_self3 div_less add.commute assms less_not_refl add_cancel_right_left)
  with n False show ?thesis by (simp add: nround_def r_def [symmetric])
qed

lemma unat_round_up:
  assumes "0 < unat k" and "unat n + unat k \<le> 18446744073709551616"
  shows "unat (round_up k n) = nround (unat k) (unat n)"
proof (cases "unat n mod unat k = 0")
  case True
  then have "\<not> n mod k > 0" by (simp add: word_less_nat_alt unat_mod)
  with True assms show ?thesis by (simp add: round_up_def nround_id)
next
  case False
  then have g: "n mod k > 0" by (simp add: word_less_nat_alt unat_mod)
  have le: "n mod k \<le> n" by (simp add: word_le_nat_alt unat_mod)
  have "unat (n - n mod k) = unat n - unat n mod unat k"
    using le by (simp add: unat_diff_le unat_mod)
  moreover have "unat n - unat n mod unat k + unat k < 18446744073709551616"
    using False assms mod_less_eq_dividend [of "unat n" "unat k"] by linarith
  ultimately have "unat (n - n mod k + k) = unat n - unat n mod unat k + unat k"
    by (subst unat_add_small) simp_all
  with g False assms(1) show ?thesis by (simp add: round_up_def nround_step)
qed

lemma split_seg_end: "n + 41 \<le> l \<Longrightarrow> (a :: nat) + 25 + n + 25 + (l - n - 25) = a + 25 + l"
  by simp

lemma end_of_split_seg: "n \<le> l \<Longrightarrow> end_of a (split_seg n l) = a + 25 + l"
  using split_seg_end [of n l a]
  by (cases "n + 41 \<le> l") (simp_all only: split_seg_def if_True if_False end_of.simps)

lemma blocks_split_seg:
  "blocks a (split_seg n l) = [(a + 25, if n + 41 \<le> l then n else l)]"
  by (simp add: split_seg_def)

lemma heapEnd_ops [simp]:
  "heapEnd (CombineForward a H) = heapEnd H" "heapEnd (CombineBackward a H) = heapEnd H"
proof -
  show f: "heapEnd (CombineForward a H) = heapEnd H" for a
    by (simp add: CombineForward_def Let_def)
  show "heapEnd (CombineBackward a H) = heapEnd H"
    by (simp add: CombineBackward_def Let_def f)
qed

section \<open>The page mapper\<close>

text \<open>
  What the heap needs of "request a page and map it": the page of the address becomes mapped,
  nothing becomes unmapped, and the only failure is running out of memory.
\<close>

locale page_mapper =
  fixes mp :: "u64 \<Rightarrow> 's \<Rightarrow> 's result"
    and ok :: "'s \<Rightarrow> bool"
    and mapped :: "'s \<Rightarrow> u64 set"
  assumes map_ok: "ok s \<Longrightarrow> mp v s = Inr s' \<Longrightarrow>
      ok s' \<and> mapped s \<subseteq> mapped s' \<and> {a. a div 4096 = v div 4096} \<subseteq> mapped s'"
    and map_fails: "ok s \<Longrightarrow> mp v s = Inl e \<Longrightarrow> e = OutOfMemory"
begin

lemma map_pages_fails: "ok s \<Longrightarrow> map_pages mp n pos s = Inl e \<Longrightarrow> e = OutOfMemory"
proof (induction n arbitrary: pos s)
  case (Suc n)
  then show ?case
    using map_fails [of s pos] map_ok [of s pos] by (auto simp: rbind_def split: sum.splits)
qed simp

lemma map_pages_spec:
  "ok s \<Longrightarrow> map_pages mp n pos s = Inr (pos', s') \<Longrightarrow>
     unat pos mod 4096 = 0 \<Longrightarrow> unat pos + n * 4096 \<le> 9223372036854775808 \<Longrightarrow>
     ok s' \<and> mapped s \<subseteq> mapped s' \<and> pos' = pos + of_nat (n * 4096) \<and>
     (\<forall>x. unat pos \<le> x \<longrightarrow> x < unat pos + n * 4096 \<longrightarrow> of_nat x \<in> mapped s')"
proof (induction n arbitrary: pos s)
  case (Suc n)
  then obtain s1 where s1: "mp pos s = Inr s1" "map_pages mp n (pos + 0x1000) s1 = Inr (pos', s')"
    by (auto simp: rbind_def split: sum.splits)
  note m = map_ok [OF Suc.prems(1) s1(1)]
  have u: "unat (pos + 0x1000) = unat pos + 4096"
    using Suc.prems(4) by (subst unat_add_small) simp_all
  have "ok s' \<and> mapped s1 \<subseteq> mapped s' \<and> pos' = pos + 0x1000 + of_nat (n * 4096) \<and>
     (\<forall>x. unat pos + 4096 \<le> x \<longrightarrow> x < unat pos + 4096 + n * 4096 \<longrightarrow> of_nat x \<in> mapped s')"
    using Suc.IH [of s1 "pos + 0x1000"] m s1(2) Suc.prems(3,4) by (simp add: u)
  moreover have "of_nat x \<in> mapped s1" if "unat pos \<le> x" "x < unat pos + 4096" for x
  proof -
    obtain q where q: "unat pos = 4096 * q" using Suc.prems(3) by (metis mod_0_imp_dvd dvdE)
    have "x div 4096 = q" using that q by (intro div_nat_eqI) auto
    moreover have "unat (of_nat x :: u64) = x"
      using that Suc.prems(4) by (intro unat_of_nat64) simp
    ultimately have "of_nat x div 4096 = pos div 4096"
      by (simp only: word_unat_eq_iff unat_div) (simp add: q)
    with m show ?thesis by blast
  qed
  moreover have "mapped s \<subseteq> mapped s1" using m by blast
  ultimately show ?case
    by (auto simp: add.assoc intro: linorder_not_less) (metis linorder_not_less subsetD)
qed simp

definition heap_ok :: "heap \<Rightarrow> segs \<Rightarrow> 's \<Rightarrow> bool" where
  "heap_ok H xs s \<longleftrightarrow> heap_inv H xs \<and> ok s \<and> unat (heapEnd H) mod 4096 = 0 \<and>
     (\<forall>x. unat (heapStart H) \<le> x \<longrightarrow> x < unat (heapEnd H) \<longrightarrow> of_nat x \<in> mapped s)"

lemma ExpandHeap_fails: "ok s \<Longrightarrow> ExpandHeap_with mp sz H s = Inl e \<Longrightarrow> e = OutOfMemory"
  by (auto simp: ExpandHeap_with_eq rbind_def split: sum.splits dest: map_pages_fails)

lemma ExpandHeap_spec:
  assumes hp: "heap_ok H xs s" and n: "0 < unat sz"
    and bd: "unat (heapEnd H) + nround 4096 (unat sz) \<le> 9223372036854775808"
    and r: "ExpandHeap_with mp sz H s = Inr (H', s')"
  shows "heap_ok H' (grow (nround 4096 (unat sz)) xs) s'" "heapStart H' = heapStart H"
    "unat (heapEnd H') = unat (heapEnd H) + nround 4096 (unat sz)"
proof -
  let ?k = "nround 4096 (unat sz)"
  have k: "25 \<le> ?k" using nround_pos [of 4096 "unat sz"] n by simp
  have "unat sz \<le> ?k" by (rule nround_ge) simp
  then have u: "unat (round_up 0x1000 sz) = ?k"
    using unat_round_up [of "0x1000" sz] bd by simp
  then have kw: "round_up 0x1000 sz = of_nat ?k" by (metis of_nat_unat_id)
  have pc: "unat (round_up 0x1000 sz div 0x1000) * 4096 = ?k"
    using u nround_mod [of 4096 "unat sz"] div_mult_mod_eq [of ?k 4096] by (simp add: unat_div)
  obtain pos where mp: "map_pages mp (unat (round_up 0x1000 sz div 0x1000)) (heapEnd H) s = Inr (pos, s')"
    and H': "H' = CombineBackward (heapEnd H) (append_segment pos (heapEnd H) (of_nat ?k) H)"
    using r by (auto simp: ExpandHeap_with_eq rbind_def kw [symmetric] split: sum.splits)
  have m: "ok s'" "mapped s \<subseteq> mapped s'" "pos = heapEnd H + of_nat ?k"
     "\<And>x. unat (heapEnd H) \<le> x \<Longrightarrow> x < unat (heapEnd H) + ?k \<Longrightarrow> of_nat x \<in> mapped s'"
    using map_pages_spec [OF _ mp] hp bd pc by (auto simp: heap_ok_def)
  show hs: "heapStart H' = heapStart H" by (simp add: H' append_segment_def Let_def)
  have inv: "heap_inv H' (grow ?k xs)"
    unfolding H' m(3) using hp bd k by (intro grow_inv) (auto simp: heap_ok_def)
  have "xs \<noteq> []" "unat (heapEnd H) = end_of (unat (heapStart H)) xs"
    using hp by (auto simp: heap_ok_def heap_inv_def heap_str_def Let_def)
  then show he: "unat (heapEnd H') = unat (heapEnd H) + ?k"
    using inv k by (simp add: heap_inv_def heap_str_def Let_def hs end_of_grow)
  have "(unat (heapEnd H) + ?k) mod 4096 = 0"
    using hp nround_mod [of 4096 "unat sz"] by (simp add: heap_ok_def mod_add_eq [symmetric])
  then show "heap_ok H' (grow ?k xs) s'"
    using inv m hp by (auto simp: heap_ok_def hs he)
qed

text \<open>A block found: what \<open>malloc\<close> returns then.\<close>

definition malloc_post :: "nat \<Rightarrow> heap \<Rightarrow> segs \<Rightarrow> (u64 \<times> heap \<times> 's) result \<Rightarrow> bool" where
  "malloc_post n H xs r \<longleftrightarrow> (case r of
      Inl e \<Rightarrow> e = OutOfMemory
    | Inr (p, H', s') \<Rightarrow> \<exists>ys l. heap_ok H' ys s' \<and> n \<le> l \<and> heapStart H' = heapStart H \<and>
        (unat p, l) \<notin> set (blocks (unat (heapStart H)) xs) \<and>
        set (blocks (unat (heapStart H)) ys) =
          insert (unat p, l) (set (blocks (unat (heapStart H)) xs)))"

lemma malloc_found:
  assumes hp: "heap_ok H xs s" and n: "16 \<le> n" "n < 9223372036854775808" "n mod 16 = 0"
    and ff: "first_fit n xs = Some (us, l, vs)"
  shows "\<exists>r. malloc_with mp (of_nat n) H s = Some r \<and> malloc_post n H xs r"
proof -
  let ?a = "unat (heapStart H)" let ?A = "end_of ?a us"
  have inv: "heap_str H xs" "no_free_pair xs" using hp by (auto simp: heap_ok_def heap_inv_def)
  have xs: "xs = us @ (l, True) # vs" "n \<le> l" using first_fit_Some [OF ff] by auto
  have un: "unat (of_nat n :: u64) = n" using n by (intro unat_of_nat64) simp
  have rd: "round_up 0x10 (of_nat n :: u64) = of_nat n"
    using n by (simp add: round_up_def word_less_nat_alt unat_mod un)
  have "malloc_with mp (of_nat n) H s =
      Some (Inr (of_nat ?A + 25, take_seg (of_nat ?A) (of_nat n) H, s))"
    using find_seg_str [OF inv(1), of n] n of_nat_eq_0 [of n]
    by (subst malloc_with.simps) (simp add: rd ff)
  moreover have "malloc_post n H xs (Inr (of_nat ?A + 25, take_seg (of_nat ?A) (of_nat n) H, s))"
  proof -
    let ?H = "take_seg (of_nat ?A) (of_nat n) H" and ?ys = "us @ split_seg n l @ vs"
    have str: "heap_str ?H ?ys" using take_seg_str [of H us l vs n] inv xs n by simp
    have "no_free_pair ?ys"
      using inv(2) by (auto simp: xs split_seg_def no_free_pair_append no_free_pair_Cons)
    moreover have he: "unat (heapEnd ?H) = unat (heapEnd H)"
      using str inv(1) xs by (auto simp: heap_str_def Let_def end_of_split_seg)
    ultimately have "heap_ok ?H ?ys s"
      using hp str by (auto simp: heap_ok_def heap_inv_def)
    moreover have bd: "?A + 25 + l \<le> 9223372036854775808" "0 < ?A"
      using heap_str_seg [of H us l True vs] inv(1) xs(1) by auto
    then have p: "unat (of_nat ?A + 25 :: u64) = ?A + 25"
      by (subst unat_add_small) (simp_all add: unat_of_nat64)
    moreover have "\<exists>k. n \<le> k \<and> (?A + 25, k) \<notin> set (blocks ?a xs) \<and>
        set (blocks ?a ?ys) = insert (?A + 25, k) (set (blocks ?a xs))"
    proof -
      define k where "k = (if n + 41 \<le> l then n else l)"
      have b: "blocks ?a ?ys = blocks ?a us @ (?A + 25, k) # blocks (?A + 25 + l) vs"
        using xs(2) by (simp add: blocks_split_seg end_of_split_seg k_def)
      have b0: "blocks ?a xs = blocks ?a us @ blocks (?A + 25 + l) vs" by (simp add: xs)
      have "sorted_wrt apart (blocks ?a us @ (?A + 25, k) # blocks (?A + 25 + l) vs)"
        using blocks_apart [of ?a ?ys] b by simp
      moreover have "\<not> apart (?A + 25, k) (?A + 25, k)" by (simp add: apart_def)
      ultimately have "(?A + 25, k) \<notin> set (blocks ?a xs)"
        by (auto simp: b0 sorted_wrt_append)
      moreover have "n \<le> k" using xs by (simp add: k_def)
      ultimately show ?thesis unfolding b b0 by (intro exI [of _ k]) auto
    qed
    ultimately show ?thesis
      unfolding malloc_post_def sum.case prod.case p by (meson heapStart_ops(4))
  qed
  ultimately show ?thesis by blast
qed

lemma malloc_grows:
  assumes hp: "heap_ok H xs s" and n: "16 \<le> n" "n < 9223372036854775808" "n mod 16 = 0"
    and ff: "first_fit n xs = None"
  shows "malloc_with mp (of_nat n) H s =
     (case ExpandHeap_with mp (of_nat n) H s of
        Inl e \<Rightarrow> Some (Inl e) | Inr (H, s) \<Rightarrow> malloc_with mp (of_nat n) H s)"
proof -
  have inv: "heap_str H xs" using hp by (auto simp: heap_ok_def heap_inv_def)
  have un: "unat (of_nat n :: u64) = n" using n by (intro unat_of_nat64) simp
  have rd: "round_up 0x10 (of_nat n :: u64) = of_nat n"
    using n by (simp add: round_up_def word_less_nat_alt unat_mod un)
  show ?thesis
    using find_seg_str [OF inv(1), of n] n of_nat_eq_0 [of n]
    by (subst malloc_with.simps) (simp add: rd ff Let_def)
qed

lemma malloc_post_grow:
  "xs \<noteq> [] \<Longrightarrow> 25 \<le> k \<Longrightarrow> heapStart H' = heapStart H \<Longrightarrow>
     malloc_post n H' (grow k xs) r \<Longrightarrow> malloc_post n H xs r"
  by (auto simp: malloc_post_def blocks_grow split: sum.splits)

text \<open>Without a segment that fits, \<open>malloc\<close> goes on in the grown heap or reports exhausted memory.\<close>

lemma malloc_after_growth:
  assumes hp: "heap_ok H xs s" and n: "16 \<le> n" "n < 9223372036854775808" "n mod 16 = 0"
    and ff: "first_fit n xs = None" and bd: "unat (heapEnd H) + nround 4096 n \<le> 9223372036854775808"
  obtains "malloc_with mp (of_nat n) H s = Some (Inl OutOfMemory)"
  | H' s' where "malloc_with mp (of_nat n) H s = malloc_with mp (of_nat n) H' s'" "heap_ok H' (grow (nround 4096 n) xs) s'"
    "unat (heapEnd H') = unat (heapEnd H) + nround 4096 n"
    "\<And>r. malloc_post n H' (grow (nround 4096 n) xs) r \<Longrightarrow> malloc_post n H xs r"
proof (cases "ExpandHeap_with mp (of_nat n) H s")
  case (Inl e)
  then have "e = OutOfMemory" using hp ExpandHeap_fails by (auto simp: heap_ok_def)
  with Inl malloc_grows [OF hp n ff] show ?thesis by (intro that(1)) simp
next
  case (Inr x)
  obtain H' s' where x: "x = (H', s')" by (cases x)
  have un: "unat (of_nat n :: u64) = n" using n by (intro unat_of_nat64) simp
  note e = ExpandHeap_spec [OF hp _ _ Inr [unfolded x], unfolded un]
  have "xs \<noteq> []" using hp by (simp add: heap_ok_def heap_inv_def heap_str_def Let_def)
  moreover have "25 \<le> nround 4096 n" using nround_pos [of 4096 n] n by simp
  ultimately have "malloc_post n H' (grow (nround 4096 n) xs) r \<Longrightarrow> malloc_post n H xs r" for r
    using e(2) n bd by (intro malloc_post_grow [of xs "nround 4096 n" H' H]) simp_all
  then show ?thesis
    using malloc_grows [OF hp n ff] Inr x e n bd by (intro that(2) [of H' s']) simp_all
qed

text \<open>At most two expansions are needed: the second is joined to the first.\<close>

lemma first_fit_grown:
  assumes "n \<le> k"
  shows "first_fit n (grow k (grow k xs)) \<noteq> None"
proof -
  have "snd (last (grow k xs))" by (simp add: grow_def)
  then have "\<exists>z \<in> set (grow k (grow k xs)). fits n z"
    using assms unfolding grow_def [of _ "grow k xs"] by (auto simp: fits_def)
  then show ?thesis unfolding first_fit_None by blast
qed

lemma malloc_returns:
  assumes hp: "heap_ok H xs s" and n: "16 \<le> n" "n mod 16 = 0"
    and bd: "unat (heapEnd H) + 2 * nround 4096 n \<le> 9223372036854775808"
  shows "\<exists>r. malloc_with mp (of_nat n) H s = Some r \<and> malloc_post n H xs r"
proof -
  let ?k = "nround 4096 n"
  have k: "n \<le> ?k" "0 < ?k" using nround_ge [of 4096 n] nround_pos [of 4096 n] n by auto
  then have n2: "n < 9223372036854775808" using bd by linarith
  have found: "\<exists>r. malloc_with mp (of_nat n) H s = Some r \<and> malloc_post n H xs r"
    if "heap_ok H xs s" "first_fit n xs \<noteq> None" for H xs s
    using malloc_found [OF that(1) n(1) n2 n(2)] that(2) by auto
  show ?thesis
  proof (cases "first_fit n xs = None")
    case True
    have e0: "unat (heapEnd H) + ?k \<le> 9223372036854775808" using bd by simp
    show ?thesis
    proof (cases rule: malloc_after_growth [OF hp n(1) n2 n(2) True e0])
      case (2 H1 s1)
      note m1 = 2(1,4)
      show ?thesis
      proof (cases "first_fit n (grow ?k xs) = None")
        case True
        have e1: "unat (heapEnd H1) + ?k \<le> 9223372036854775808" using bd 2(3) by simp
        show ?thesis
        proof (cases rule: malloc_after_growth [OF 2(2) n(1) n2 n(2) True e1])
          case (2 H2 s2)
          with found [OF 2(2) first_fit_grown [OF k(1)]] m1 show ?thesis by auto
        qed (use 2(1) in \<open>simp add: malloc_post_def\<close>)
      qed (use found [OF 2(2)] 2(1,4) in auto)
    qed (simp add: malloc_post_def)
  qed (use found [OF hp] in simp)
qed

lemma malloc_rounds:
  assumes "unat sz + 16 \<le> 18446744073709551616"
  shows "malloc_with mp sz H s = malloc_with mp (of_nat (nround 16 (unat sz))) H s"
proof -
  have u: "unat (round_up 0x10 sz) = nround 16 (unat sz)"
    using unat_round_up [of "0x10" sz] assms by simp
  then have r: "round_up 0x10 sz = of_nat (nround 16 (unat sz))" by (metis of_nat_unat_id)
  have "round_up 0x10 (round_up 0x10 sz) = round_up 0x10 sz"
    using nround_mod [of 16 "unat sz"] by (simp add: round_up_def [of _ "round_up 0x10 sz"]
        word_less_nat_alt unat_mod u)
  then show ?thesis
    unfolding r [symmetric]
    by (simp only: malloc_with.simps [of mp sz H s] malloc_with.simps [of mp "round_up 0x10 sz" H s]
        Let_def)
qed

lemma free_ok:
  assumes hp: "heap_ok H xs s" and b: "(unat p, l) \<in> set (blocks (unat (heapStart H)) xs)"
  shows "\<exists>ys. heap_ok (free p H) ys s \<and> heapStart (free p H) = heapStart H \<and>
    set (blocks (unat (heapStart H)) ys) = set (blocks (unat (heapStart H)) xs) - {(unat p, l)}"
proof -
  from hp b obtain ys where ys: "heap_inv (free p H) ys"
    "set (blocks (unat (heapStart H)) ys) = set (blocks (unat (heapStart H)) xs) - {(unat p, l)}"
    using free_blocks [of H xs "unat p" l] by (auto simp: heap_ok_def)
  have hs: "heapStart (free p H) = heapStart H" by (simp add: free_def Let_def)
  have "heapEnd (free p H) = heapEnd H"
    by (simp add: free_def Let_def)
  with hp ys hs show ?thesis by (intro exI [of _ ys]) (auto simp: heap_ok_def)
qed

lemma InitializeHeap_ok:
  assumes "ok s" and "unat a mod 4096 = 0" and "0 < a" and "0 < n"
    and "unat a + unat n * 4096 \<le> 9223372036854775808"
    and r: "InitializeHeap_with mp a n H s = Inr (H', s')"
  shows "heap_ok H' [(unat n * 4096 - 25, True)] s' \<and> heapStart H' = a"
proof -
  obtain pos where mp: "map_pages mp (unat n) a s = Inr (pos, s')"
    and H': "H' = H\<lparr>heapStart := a, heapEnd := a + n * 0x1000,
                hdr := (hdr H)(a := \<lparr>seg_length = n * 0x1000 - 25, seg_next = 0,
                   seg_last = 0, seg_free = True\<rparr>), LastHdr := a\<rparr>"
    using r by (auto simp: InitializeHeap_with_def Let_def rbind_def split: sum.splits)
  note m = map_pages_spec [OF assms(1) mp assms(2,5)]
  have n: "unat (n * 0x1000) = unat n * 4096" using assms(5) by (intro unat_mult_4096) simp
  then have nw: "n * 0x1000 = of_nat (unat n * 4096)" by (metis of_nat_unat_id)
  have e: "unat (a + n * 0x1000) = unat a + unat n * 4096"
    using assms(5) n by (subst unat_add_small) simp_all
  have n0: "0 < unat n" using assms(4) by (simp add: word_less_nat_alt)
  have "n * 0x1000 - 25 = of_nat (unat n * 4096 - 25)"
    unfolding nw using n0 by (simp add: of_nat_diff)
  then have "heap_str H' [(unat n * 4096 - 25, True)]"
    using assms(3,5) n0 e by (simp add: heap_str_def Let_def H' word_less_nat_alt)
  moreover have "(unat a + unat n * 4096) mod 4096 = 0" using assms(2) by simp
  ultimately show ?thesis
    using m e by (auto simp: heap_ok_def heap_inv_def H')
qed

lemma InitializeHeap_fails: "ok s \<Longrightarrow> InitializeHeap_with mp a n H s = Inl e \<Longrightarrow> e = OutOfMemory"
  by (auto simp: InitializeHeap_with_def Let_def rbind_def split: sum.splits dest: map_pages_fails)

end

section \<open>The kernel's page mapper\<close>

definition vm_ok :: "vm \<Rightarrow> bool" where
  "vm_ok s \<longleftrightarrow> source_fine (vm_pfa s) \<and> tables_ok (taken (vm_pfa s)) (vm_mem s) (vm_root s)"

definition vm_mapped :: "vm \<Rightarrow> u64 set" where
  "vm_mapped s = {a. translate (vm_mem s) (vm_root s) a \<noteq> None}"

lemma tables_ok_mono: "tables_ok U m root \<Longrightarrow> U \<subseteq> U' \<Longrightarrow> tables_ok U' m root"
  unfolding tables_ok_def by blast

lemma same_page_index: "a div 4096 = v div 4096 \<Longrightarrow> path_of a = path_of v"
proof -
  assume "a div 4096 = v div 4096"
  then have "drop_bit 12 a = drop_bit 12 v" by (simp add: drop_bit_eq_div)
  then show ?thesis by (simp add: path_of_eq_iff PageMapIndexer_eq_iff)
qed

interpretation pages: page_mapper map_new_page vm_ok vm_mapped
proof
  fix s v s'
  assume ok: "vm_ok s" and r: "map_new_page v s = Inr s'"
  then obtain pg p1 where 1: "RequestPage (vm_pfa s) = Inr (pg, p1)"
    and 2: "MapMemory_with RequestPage (vm_root s) v pg (vm_mem s) p1 = Inr (vm_mem s', vm_pfa s')"
    and root: "vm_root s' = vm_root s"
    by (auto simp: map_new_page_def rbind_def MapMemory_def split: sum.splits)
  have g: "source_fine p1" "taken (vm_pfa s) \<subseteq> taken p1"
    using frames.granted [OF _ 1] ok by (auto simp: vm_ok_def)
  have t: "tables_ok (taken p1) (vm_mem s) (vm_root s)"
    using ok g(2) by (auto simp: vm_ok_def intro: tables_ok_mono)
  note m = frames.MapMemory_with_spec [OF g(1) t 2]
  have tr: "translate (vm_mem s') (vm_root s) a \<noteq> None \<longleftrightarrow>
      path_of a = path_of v \<or> translate (vm_mem s) (vm_root s) a \<noteq> None" for a
    using m(3) [of "path_of a"] path_of_ok [of a] by (simp add: translate_def)
  have "vm_mapped s \<subseteq> vm_mapped s'" "{a. a div 4096 = v div 4096} \<subseteq> vm_mapped s'"
    unfolding vm_mapped_def root tr using same_page_index by blast+
  then show "vm_ok s' \<and> vm_mapped s \<subseteq> vm_mapped s' \<and> {a. a div 4096 = v div 4096} \<subseteq> vm_mapped s'"
    using m(1,2) root by (simp add: vm_ok_def)
next
  fix s v e
  assume "vm_ok s" "map_new_page v s = Inl e"
  then show "e = OutOfMemory"
    by (auto simp: map_new_page_def rbind_def MapMemory_def split: sum.splits)
       (blast dest: frames.MapMemory_with_fails RequestPage_Inl)+
qed

section \<open>Properties\<close>

text \<open>
  The heap in order: the segments tile it, no two free ones are neighbours, the page tables and
  the page allocator are in order, and every byte of the heap is mapped.
\<close>

definition kernel_heap_ok :: "heap \<Rightarrow> segs \<Rightarrow> vm \<Rightarrow> bool" where
  "kernel_heap_ok H xs s \<longleftrightarrow> heap_str H xs \<and> no_free_pair xs \<and> vm_ok s \<and>
     unat (heapEnd H) mod 4096 = 0 \<and>
     (\<forall>x. unat (heapStart H) \<le> x \<longrightarrow> x < unat (heapEnd H) \<longrightarrow>
        translate (vm_mem s) (vm_root s) (of_nat x) \<noteq> None)"

definition in_use :: "heap \<Rightarrow> segs \<Rightarrow> (nat \<times> nat) set" where
  "in_use H xs = set (blocks (unat (heapStart H)) xs)"

lemma kernel_heap_ok_eq: "kernel_heap_ok H xs s = pages.heap_ok H xs s"
  by (auto simp: kernel_heap_ok_def pages.heap_ok_def heap_inv_def vm_mapped_def)


text \<open>A heap of one page, at \<open>0x1000\<close>, in the tables of \<open>four_tables\<close>.\<close>

definition page_pfa :: pfa where
  "page_pfa = some_pages\<lparr>PageBitmap := \<lparr>Size = 1, Buffer = (\<lambda>i. 0xF8)\<rparr>\<rparr>"

definition page_vm :: vm where
  "page_vm = \<lparr>vm_mem = four_tables, vm_pfa = page_pfa, vm_root = 0x1000\<rparr>"

lemma page_vm_ok: "vm_ok page_vm"
proof -
  have t: "{0, 1, 2, 3, 4} \<subseteq> taken page_pfa"
    by (auto simp: Get_taken [symmetric] Get_def page_pfa_def some_pages_def top_bit_def)
  have "pageBitmapIndex page_pfa = 1" by (simp add: page_pfa_def some_pages_def)
  then have "hint_ok page_pfa" using t by (auto simp: hint_ok_def word_less_1)
  then have "source_fine page_pfa" by (simp add: source_fine_def page_pfa_def)
  moreover have "tables_ok (taken page_pfa) four_tables 0x1000"
    using t by (intro tables_ok_mono [OF four_tables_ok]) auto
  ultimately show ?thesis by (simp add: vm_ok_def page_vm_def)
qed

lemma page_vm_mapped:
  "0x1000 \<le> x \<Longrightarrow> x < 0x2000 \<Longrightarrow> translate (vm_mem page_vm) (vm_root page_vm) (of_nat x) \<noteq> None"
proof -
  assume x: "(0x1000 :: nat) \<le> x" "x < 0x2000"
  have "unat (of_nat x :: u64) = x" using x by (intro unat_of_nat64) simp
  moreover have "x div 4096 = 1" using x by (intro div_nat_eqI) auto
  ultimately have "of_nat x div 4096 = (0x1000 div 4096 :: u64)"
    by (simp add: word_unat_eq_iff unat_div)
  then have "path_of (of_nat x) = path_of 0x1000" by (rule same_page_index)
  then have "translate four_tables 0x1000 (of_nat x) = Some 0x5000"
    by (intro four_tables_translate) (simp add: path_of_eq_iff)
  then show ?thesis by (simp add: page_vm_def)
qed

definition page_heap :: "bool \<Rightarrow> heap" where
  "page_heap f = \<lparr>heapStart = 0x1000, heapEnd = 0x2000, LastHdr = 0x1000, hdr = (\<lambda>_.
     \<lparr>seg_length = 4071, seg_next = 0, seg_last = 0, seg_free = f\<rparr>)\<rparr>"

lemma page_heap_ok: "kernel_heap_ok (page_heap f) [(4071, f)] page_vm"
proof -
  have "heap_str (page_heap f) [(4071, f)]" by (simp add: heap_str_def page_heap_def)
  then show ?thesis
    using page_vm_ok page_vm_mapped by (simp add: kernel_heap_ok_def page_heap_def)
qed

lemma heapEnd_page: "heapEnd (page_heap f) = 0x2000"
  by (simp add: page_heap_def)


text \<open>
  C3: \<open>free\<close> of the address of a block in use takes that block from the blocks in use, leaves
  the others, and keeps the heap in order: neighbouring free segments are joined.
\<close>

theorem free_takes_block_back:
  assumes "kernel_heap_ok H xs s" and "(unat p, l) \<in> in_use H xs"
  shows "\<exists>ys. kernel_heap_ok (free p H) ys s \<and> in_use (free p H) ys = in_use H xs - {(unat p, l)}"
  using pages.free_ok [OF assms(1) [unfolded kernel_heap_ok_eq] assms(2) [unfolded in_use_def]]
  by (auto simp: kernel_heap_ok_eq in_use_def)

theorem free_takes_block_back_witness:
  "\<exists>ys. kernel_heap_ok (free 0x1019 (page_heap False)) ys page_vm \<and>
     in_use (free 0x1019 (page_heap False)) ys = {}"
proof -
  have e: "in_use (page_heap False) [(4071, False)] = {(4121, 4071)}"
    by (simp add: in_use_def page_heap_def)
  show ?thesis
    using free_takes_block_back [OF page_heap_ok, of "0x1019" 4071 False] by (simp add: e)
qed

lemma sorted_wrt_symp:
  "sorted_wrt R xs \<Longrightarrow> (\<And>x y. R x y \<Longrightarrow> R y x) \<Longrightarrow>
     b \<in> set xs \<Longrightarrow> c \<in> set xs \<Longrightarrow> b \<noteq> c \<Longrightarrow> R b c"
  by (induction xs) auto

lemma apart_sym: "apart b c \<Longrightarrow> apart c b"
  by (auto simp: apart_def)



text \<open>
  C24: \<open>InitializeHeap\<close> on a page-aligned address sets up a heap in order, with nothing in use,
  or reports exhausted memory.
\<close>

theorem InitializeHeap_sets_up:
  assumes "vm_ok s" and "unat a mod 4096 = 0" and "0 < a" and "0 < n"
    and "unat a + unat n * 4096 \<le> 9223372036854775808"
  shows "case InitializeHeap a n H s of
      Inl e \<Rightarrow> e = OutOfMemory
    | Inr (H', s') \<Rightarrow> \<exists>xs. kernel_heap_ok H' xs s' \<and> in_use H' xs = {} \<and> heapStart H' = a"
proof (cases "InitializeHeap a n H s")
  case (Inl e)
  then show ?thesis using pages.InitializeHeap_fails [OF assms(1)] by (simp add: InitializeHeap_def)
next
  case (Inr x)
  obtain H' s' where x: "x = (H', s')" by (cases x)
  then have "InitializeHeap_with map_new_page a n H s = Inr (H', s')"
    using Inr by (simp add: InitializeHeap_def)
  from pages.InitializeHeap_ok [OF assms this] show ?thesis
    using Inr x by (auto simp: kernel_heap_ok_eq in_use_def intro!: exI)
qed

theorem InitializeHeap_sets_up_witness:
  "case InitializeHeap 0x100000 4 (page_heap True) page_vm of
      Inl e \<Rightarrow> e = OutOfMemory
    | Inr (H', s') \<Rightarrow> \<exists>xs. kernel_heap_ok H' xs s' \<and> in_use H' xs = {}"
  using InitializeHeap_sets_up [OF page_vm_ok, of "0x100000" 4 "page_heap True"]
  by (auto split: sum.splits)

end
