(* ===== verification/LLFS.thy ===== *)
theory LLFS
  imports CString PageTableManager
begin

text \<open>
  The Low Level File System: the image that \<open>tools/buildllfs.py\<close> writes, and the kernel's reader
  \<open>filesystem/llfs.cpp\<close>.  The headers are packed: 17 bytes for the file system, 377 for an
  entry, whose \<open>FileSize\<close> is at offset 368 and whose contents follow it.
\<close>

section \<open>The reader\<close>

record llfs_header =
  Signature :: "u8 list"
  Version :: u8
  Entries :: u64

definition read_header :: "mem \<Rightarrow> u64 \<Rightarrow> llfs_header" where
  "read_header m fs = \<lparr>Signature = bytes_at m fs 4, Version = m (fs + 4), Entries = load64 m (fs + 5)\<rparr>"

text \<open>\<open>Filename\<close> lies at the start of an entry.\<close>

definition FileSize :: "mem \<Rightarrow> u64 \<Rightarrow> u64" where
  "FileSize m entry = load64 m (entry + 368)"

definition next_entry :: "mem \<Rightarrow> u64 \<Rightarrow> u64" where
  "next_entry m entry = entry + 377 + FileSize m entry"

definition LLFSOpenFile :: "mem \<Rightarrow> u64 \<Rightarrow> u64 \<Rightarrow> u64 option" where
  "LLFSOpenFile m fs filename =
     (case loop_int (Entries (read_header m fs))
        (\<lambda>_ firstEntry.
          case strlen m filename of
            None \<Rightarrow> None
          | Some n \<Rightarrow> if memcmp m firstEntry filename (sext n) = 0 then Some (Inl firstEntry)
                      else Some (Inr (next_entry m firstEntry))) (fs + 17) of
        None \<Rightarrow> None
      | Some (Inl entry) \<Rightarrow> Some entry
      | Some (Inr _) \<Rightarrow> Some 0)"

definition LLFSReadFile :: "u64 \<Rightarrow> u64" where
  "LLFSReadFile entry = entry + 377"

definition LLFSVFSHelperReader :: "mem \<Rightarrow> u64 \<Rightarrow> u64 \<Rightarrow> u64 option" where
  "LLFSVFSHelperReader m LLFSSource filename =
     map_option LLFSReadFile (LLFSOpenFile m LLFSSource (filename + 1))"

definition LLFSGetFileSystemSize :: "mem \<Rightarrow> u64 \<Rightarrow> u64" where
  "LLFSGetFileSystemSize m fs =
     fst (for_int (Entries (read_header m fs))
       (\<lambda>_ (fsize, firstEntry). (fsize + (377 + FileSize m firstEntry), next_entry m firstEntry))
       (17, fs + 17))"

definition LLFSCheck :: "mem \<Rightarrow> u64 \<Rightarrow> i32" where
  "LLFSCheck m fs =
     (if m fs \<noteq> 76 \<or> m (fs + 1) \<noteq> 76 \<or> m (fs + 2) \<noteq> 70 \<or> m (fs + 3) \<noteq> 83 then 0
      else if m (fs + 4) = 2 then 1 else 0)"

text \<open>The entries are read before and between the updates of the page tables.\<close>

definition LLFSMap :: "u64 \<Rightarrow> u64 \<Rightarrow> mem \<Rightarrow> mem" where
  "LLFSMap PML4 fs m =
     fst (for_int (Entries (read_header m fs))
       (\<lambda>_ (m, firstEntry).
          let m = MapUserspaceMemory PML4 firstEntry m
          in (m, next_entry m firstEntry)) (m, fs + 17))"

section \<open>The image\<close>

text \<open>A number as \<open>k\<close> little-endian bytes; Python's \<open>to_bytes\<close> fails where it does not fit.\<close>

fun to_bytes :: "nat \<Rightarrow> nat \<Rightarrow> u8 list" where
  "to_bytes 0 n = []"
| "to_bytes (Suc k) n = of_nat n # to_bytes k (n div 256)"

definition pad_name :: "u8 list \<Rightarrow> u8 list" where
  "pad_name name = name @ replicate (368 - length name) 32"

definition AddFile :: "u8 list \<Rightarrow> u8 list \<Rightarrow> u8 list \<Rightarrow> u8 list" where
  "AddFile name sz content = name @ sz @ [0] @ content"

definition AddFileFromHardDisk :: "u8 list \<times> u8 list \<Rightarrow> u8 list" where
  "AddFileFromHardDisk = (\<lambda>(name, data). AddFile (pad_name name) (to_bytes 8 (length data)) data)"

definition build_llfs :: "(u8 list \<times> u8 list) list \<Rightarrow> u8 list" where
  "build_llfs files =
     [76, 76, 70, 83] @ [2] @ to_bytes 8 (length files) @ [0, 0, 0, 0] @
     concat (map AddFileFromHardDisk files)"

section \<open>Bytes of an image in memory\<close>

definition loaded :: "mem \<Rightarrow> u64 \<Rightarrow> u8 list \<Rightarrow> bool" where
  "loaded m a xs \<longleftrightarrow> bytes_at m a (length xs) = xs"

lemma loaded_Nil [simp]: "loaded m a []"
  by (simp add: loaded_def)

lemma loaded_Cons [simp]: "loaded m a (x # xs) \<longleftrightarrow> m a = x \<and> loaded m (a + 1) xs"
  by (auto simp: loaded_def bytes_at_Suc)

lemma loaded_append: "loaded m a (xs @ ys) \<longleftrightarrow> loaded m a xs \<and> loaded m (a + of_nat (length xs)) ys"
  by (induction xs arbitrary: a) (auto simp: add.assoc)

lemma loaded_nth: "loaded m a xs \<Longrightarrow> i < length xs \<Longrightarrow> m (a + of_nat i) = xs ! i"
  unfolding loaded_def by (metis nth_bytes_at)

lemma loaded_take: "loaded m a xs \<Longrightarrow> n \<le> length xs \<Longrightarrow> bytes_at m a n = take n xs"
  by (rule nth_equalityI) (auto simp: loaded_nth)

lemma length_to_bytes [simp]: "length (to_bytes k n) = k"
  by (induction k arbitrary: n) auto

lemma nth_to_bytes: "i < k \<Longrightarrow> to_bytes k n ! i = of_nat (n div 256 ^ i)"
proof (induction k arbitrary: n i)
  case (Suc k)
  then show ?case by (cases i) (simp_all add: div_mult2_eq)
qed simp

lemma bit_of_nat_word: "bit (of_nat x :: 'a::len word) n \<longleftrightarrow> n < LENGTH('a) \<and> bit x n"
proof -
  have "(of_nat x :: 'a word) = word_of_int (int x)" by simp
  then show ?thesis by (simp only: bit_word_of_int_iff bit_of_nat_iff_bit)
qed

lemma load64_to_bytes:
  assumes "loaded m a (to_bytes 8 n)" and "n < 18446744073709551616"
  shows "load64 m a = of_nat n"
proof (rule bit_word_eqI)
  fix j assume j: "j < LENGTH(64)"
  then have d: "j div 8 < 8" by (simp add: div_less_iff_less_mult)
  then have "m (a + of_nat (j div 8)) = of_nat (n div 256 ^ (j div 8))"
    using loaded_nth [OF assms(1), of "j div 8"] by (simp add: nth_to_bytes)
  moreover have "(256 :: nat) ^ (j div 8) = 2 ^ (8 * (j div 8))" by (simp add: power_mult)
  moreover have "bit (of_nat (n div 2 ^ (8 * (j div 8))) :: u8) (j mod 8) = bit n (8 * (j div 8) + j mod 8)"
    by (simp add: bit_of_nat_word bit_drop_bit_eq flip: drop_bit_eq_div)
  moreover have "8 * (j div 8) + j mod 8 = j" by simp
  ultimately show "bit (load64 m a) j = bit (of_nat n :: u64) j"
    using j by (simp add: load64_def bit_load_le bit_of_nat_word)
qed


section \<open>The entries of an image\<close>

lemma length_pad_name: "length name \<le> 368 \<Longrightarrow> length (pad_name name) = 368"
  by (simp add: pad_name_def)

definition entry_size :: "u8 list \<times> u8 list \<Rightarrow> nat" where
  "entry_size f = 377 + length (snd f)"

lemma length_entry: "length (fst f) \<le> 368 \<Longrightarrow> length (AddFileFromHardDisk f) = entry_size f"
  by (simp add: AddFileFromHardDisk_def AddFile_def entry_size_def length_pad_name case_prod_unfold)

lemma loaded_entry:
  assumes "loaded m e (AddFileFromHardDisk f)" and "length (fst f) \<le> 368"
    and "length (snd f) < 9223372036854775808"
  shows "loaded m e (pad_name (fst f))" "FileSize m e = of_nat (length (snd f))"
    "loaded m (LLFSReadFile e) (snd f)" "next_entry m e = e + of_nat (entry_size f)"
proof -
  have l: "loaded m e (pad_name (fst f))" "loaded m (e + 368) (to_bytes 8 (length (snd f)))"
    "loaded m (e + 377) (snd f)"
    using assms(1,2)
    by (simp_all add: AddFileFromHardDisk_def AddFile_def case_prod_unfold loaded_append length_pad_name
        add.assoc)
  then show "loaded m e (pad_name (fst f))" "loaded m (LLFSReadFile e) (snd f)"
    by (simp_all add: LLFSReadFile_def)
  show fs: "FileSize m e = of_nat (length (snd f))"
    unfolding FileSize_def using l(2) assms(3) by (intro load64_to_bytes) auto
  show "next_entry m e = e + of_nat (entry_size f)"
    by (simp add: next_entry_def fs entry_size_def)
qed

definition files_ok :: "(u8 list \<times> u8 list) list \<Rightarrow> bool" where
  "files_ok files \<longleftrightarrow> length files < 2147483648 \<and>
     (\<forall>f \<in> set files. length (fst f) \<le> 368 \<and> length (snd f) < 9223372036854775808)"

lemma loaded_image:
  assumes "loaded m fs (build_llfs files)" and "files_ok files"
  shows "LLFSCheck m fs = 1" "Entries (read_header m fs) = of_nat (length files)"
    "loaded m (fs + 17) (concat (map AddFileFromHardDisk files))"
proof -
  have l: "loaded m fs ([76, 76, 70, 83] @ [2])" "loaded m (fs + 5) (to_bytes 8 (length files))"
    "loaded m (fs + 17) (concat (map AddFileFromHardDisk files))"
    using assms(1) unfolding build_llfs_def loaded_append by (simp_all add: add.assoc)
  then show "LLFSCheck m fs = 1" by (simp add: LLFSCheck_def add.assoc)
  show "Entries (read_header m fs) = of_nat (length files)"
    using load64_to_bytes [OF l(2)] assms(2) by (simp add: read_header_def files_ok_def)
  show "loaded m (fs + 17) (concat (map AddFileFromHardDisk files))" by (rule l)
qed

text \<open>Where the entry of the \<open>i\<close>-th file lies, from the first entry at \<open>e\<close>.\<close>

definition entry_at :: "u64 \<Rightarrow> (u8 list \<times> u8 list) list \<Rightarrow> nat \<Rightarrow> u64" where
  "entry_at e files i = e + of_nat (sum_list (map entry_size (take i files)))"

lemma entry_at_0 [simp]: "entry_at e files 0 = e"
  by (simp add: entry_at_def)

lemma entry_at_Suc [simp]: "entry_at e (f # files) (Suc i) = entry_at (e + of_nat (entry_size f)) files i"
  by (simp add: entry_at_def add.assoc)

text \<open>The first file whose padded name starts with the given bytes.\<close>

fun lookup_name :: "u8 list \<Rightarrow> (u8 list \<times> u8 list) list \<Rightarrow> nat option" where
  "lookup_name s [] = None"
| "lookup_name s (f # files) =
     (if take (length s) (pad_name (fst f)) = s then Some 0
      else map_option Suc (lookup_name s files))"

lemma lookup_name_Some:
  "lookup_name s files = Some i \<Longrightarrow> i < length files \<and>
     take (length s) (pad_name (fst (files ! i))) = s \<and>
     (\<forall>j < i. take (length s) (pad_name (fst (files ! j))) \<noteq> s)"
proof (induction files arbitrary: i)
  case (Cons f files)
  show ?case
  proof (cases "take (length s) (pad_name (fst f)) = s")
    case False
    with Cons.prems obtain k where "lookup_name s files = Some k" "i = Suc k" by auto
    with Cons.IH False show ?thesis by (auto simp: less_Suc_eq_0_disj)
  qed (use Cons.prems in simp)
qed simp

lemma sext_strlen:
  "length s < 2147483648 \<Longrightarrow> unat (sext (of_nat (length s - 1))) = length s - 1"
  by (simp add: sext_of_nat unat_of_nat64)

lemma cstr_bytes: "cstr m q s \<Longrightarrow> n \<le> length s \<Longrightarrow> bytes_at m q n = take n s"
  by (rule nth_equalityI) (auto simp: cstr_nth)

lemma memcmp_name:
  assumes "loaded m e (pad_name name)" and "length name \<le> 368" and "cstr m q s" and "length s \<le> 368"
  shows "memcmp m e q (sext (of_nat (length s - 1))) = 0 \<longleftrightarrow>
     take (length s - 1) (pad_name name) = take (length s - 1) s"
proof -
  let ?n = "length s - 1"
  have "bytes_at m e ?n = take ?n (pad_name name)"
    using assms by (intro loaded_take) (auto simp: length_pad_name)
  moreover have "bytes_at m q ?n = take ?n s" using assms(3) by (intro cstr_bytes) auto
  moreover have "length s < 2147483648" using assms(4) by simp
  ultimately show ?thesis by (simp only: memcmp_zero sext_strlen)
qed

lemma open_loop:
  assumes "loaded m e (concat (map AddFileFromHardDisk files))"
    and "\<forall>f \<in> set files. length (fst f) \<le> 368 \<and> length (snd f) < 9223372036854775808"
    and "cstr m q s" and "length s \<le> 368" and "length xs = length files"
  shows "loop_list xs
        (\<lambda>_ firstEntry.
          case strlen m q of
            None \<Rightarrow> None
          | Some n \<Rightarrow> if memcmp m firstEntry q (sext n) = 0 then Some (Inl firstEntry)
                      else Some (Inr (next_entry m firstEntry))) e =
     Some (case lookup_name (take (length s - 1) s) files of
             Some i \<Rightarrow> Inl (entry_at e files i)
           | None \<Rightarrow> Inr (entry_at e files (length files)))"
  using assms(1,2,5)
proof (induction xs arbitrary: e files)
  case Nil
  then show ?case by simp
next
  case (Cons x xs)
  then obtain f fs where files: "files = f # fs" by (cases files) auto
  have n: "strlen m q = Some (of_nat (length s - 1))"
    using strlen_cstr [OF assms(3)] assms(4) by simp
  have le: "length (AddFileFromHardDisk f) = entry_size f"
    using Cons.prems files by (intro length_entry) auto
  have l: "loaded m e (AddFileFromHardDisk f)"
    "loaded m (e + of_nat (entry_size f)) (concat (map AddFileFromHardDisk fs))"
    using Cons.prems(1) by (simp_all add: files loaded_append le)
  have f: "length (fst f) \<le> 368" "length (snd f) < 9223372036854775808"
    using Cons.prems files by auto
  note en = loaded_entry [OF l(1) f]
  note mc = memcmp_name [OF en(1) f(1) assms(3,4)]
  have ln: "length (take (length s - 1) s) = length s - 1" by simp
  show ?case
    using Cons.IH [OF l(2)] Cons.prems files mc
    by (auto simp: n en(4) ln split: option.splits)
qed

lemma LLFSOpenFile_image:
  assumes img: "loaded m fs (build_llfs files)" and ok: "files_ok files"
    and q: "cstr m q s" "length s \<le> 368"
  shows "LLFSOpenFile m fs q =
     Some (case lookup_name (butlast s) files of
             Some i \<Rightarrow> entry_at (fs + 17) files i | None \<Rightarrow> 0)"
proof -
  note h = loaded_image [OF img ok]
  have un: "unat (of_nat (length files) :: u64) = length files"
    using ok by (intro unat_of_nat64) (simp add: files_ok_def)
  have "loop_int (Entries (read_header m fs))
        (\<lambda>_ firstEntry.
          case strlen m q of
            None \<Rightarrow> None
          | Some n \<Rightarrow> if memcmp m firstEntry q (sext n) = 0 then Some (Inl firstEntry)
                      else Some (Inr (next_entry m firstEntry))) (fs + 17) =
     Some (case lookup_name (take (length s - 1) s) files of
             Some i \<Rightarrow> Inl (entry_at (fs + 17) files i)
           | None \<Rightarrow> Inr (entry_at (fs + 17) files (length files)))"
    using ok open_loop [OF h(3) _ q, of "[0..<length files]"]
    by (subst loop_int_list) (simp_all add: h(2) un files_ok_def)
  then show ?thesis
    by (simp add: LLFSOpenFile_def butlast_conv_take split: option.splits)
qed

lemma entry_loaded:
  "loaded m e (concat (map AddFileFromHardDisk files)) \<Longrightarrow>
   \<forall>f \<in> set files. length (fst f) \<le> 368 \<Longrightarrow> i < length files \<Longrightarrow>
     loaded m (entry_at e files i) (AddFileFromHardDisk (files ! i))"
proof (induction files arbitrary: e i)
  case (Cons f files)
  have le: "length (AddFileFromHardDisk f) = entry_size f"
    using Cons.prems by (intro length_entry) auto
  with Cons show ?case by (cases i) (auto simp: loaded_append)
qed simp

lemma length_image:
  "\<forall>f \<in> set files. length (fst f) \<le> 368 \<Longrightarrow>
     length (build_llfs files) = 17 + sum_list (map entry_size files)"
proof -
  assume "\<forall>f \<in> set files. length (fst f) \<le> 368"
  then have "map (length \<circ> AddFileFromHardDisk) files = map entry_size files"
    by (simp add: length_entry)
  then show ?thesis by (simp add: build_llfs_def length_concat comp_def cong: map_cong)
qed

lemma size_loop_image:
  "loaded m e (concat (map AddFileFromHardDisk files)) \<Longrightarrow>
   \<forall>f \<in> set files. length (fst f) \<le> 368 \<and> length (snd f) < 9223372036854775808 \<Longrightarrow>
   length xs = length files \<Longrightarrow>
     fst (fold (\<lambda>_ (fsize, firstEntry). (fsize + (377 + FileSize m firstEntry), next_entry m firstEntry))
        xs (k, e)) = k + of_nat (sum_list (map entry_size files))"
proof (induction xs arbitrary: e k files)
  case (Cons x xs)
  then obtain f fs where files: "files = f # fs" by (cases files) auto
  have le: "length (AddFileFromHardDisk f) = entry_size f"
    using Cons.prems files by (intro length_entry) auto
  have l: "loaded m e (AddFileFromHardDisk f)"
    "loaded m (e + of_nat (entry_size f)) (concat (map AddFileFromHardDisk fs))"
    using Cons.prems(1) by (simp_all add: files loaded_append le)
  have f: "length (fst f) \<le> 368" "length (snd f) < 9223372036854775808"
    using Cons.prems files by auto
  note en = loaded_entry [OF l(1) f]
  show ?case
    using Cons.IH [OF l(2)] Cons.prems files by (simp add: en entry_size_def add.assoc)
qed simp

lemma LLFSGetFileSystemSize_image:
  assumes img: "loaded m fs (build_llfs files)" and ok: "files_ok files"
  shows "LLFSGetFileSystemSize m fs = of_nat (length (build_llfs files))"
proof -
  note h = loaded_image [OF img ok]
  have un: "unat (of_nat (length files) :: u64) = length files"
    using ok by (intro unat_of_nat64) (simp add: files_ok_def)
  have "\<forall>f \<in> set files. length (fst f) \<le> 368" using ok by (auto simp: files_ok_def)
  then show ?thesis
    using ok size_loop_image [OF h(3), of "[0..<length files]" 17]
    by (simp add: LLFSGetFileSystemSize_def h(2) for_int_fold un files_ok_def length_image)
qed

section \<open>Properties\<close>

text \<open>Bytes placed in memory.\<close>

definition place :: "u64 \<Rightarrow> u8 list \<Rightarrow> mem \<Rightarrow> mem" where
  "place a xs m = (\<lambda>x. if unat (x - a) < length xs then xs ! unat (x - a) else m x)"

lemma loaded_place: "length xs < 18446744073709551616 \<Longrightarrow> loaded (place a xs m) a xs"
  unfolding loaded_def by (rule nth_equalityI) (auto simp: place_def unat_of_nat64)

lemma llfs_reads_image:
  assumes "loaded m fs (build_llfs files)" and "files_ok files"
    and "cstr m q s" and "length s \<le> 368"
  shows "LLFSCheck m fs = 1 \<and>
    LLFSGetFileSystemSize m fs = of_nat (length (build_llfs files)) \<and>
    (case lookup_name (butlast s) files of
       None \<Rightarrow> LLFSOpenFile m fs q = Some 0
     | Some i \<Rightarrow> \<exists>e. LLFSOpenFile m fs q = Some e \<and>
         FileSize m e = of_nat (length (snd (files ! i))) \<and>
         loaded m (LLFSReadFile e) (snd (files ! i)))"
proof -
  note h = loaded_image [OF assms(1,2)]
  note o = LLFSOpenFile_image [OF assms]
  have names: "\<forall>f \<in> set files. length (fst f) \<le> 368" using assms(2) by (auto simp: files_ok_def)
  have "\<exists>e. LLFSOpenFile m fs q = Some e \<and> FileSize m e = of_nat (length (snd (files ! i))) \<and>
      loaded m (LLFSReadFile e) (snd (files ! i))" if "lookup_name (butlast s) files = Some i" for i
  proof -
    have i: "i < length files" using lookup_name_Some [OF that] by simp
    then have f: "length (fst (files ! i)) \<le> 368" "length (snd (files ! i)) < 9223372036854775808"
      using assms(2) by (auto simp: files_ok_def)
    note e = loaded_entry [OF entry_loaded [OF h(3) names i] f]
    show ?thesis using o that e by auto
  qed
  then show ?thesis
    using h(1) LLFSGetFileSystemSize_image [OF assms(1,2)] o by (auto split: option.splits)
qed

text \<open>
  C8: The kernel reads back what \<open>buildllfs.py\<close> packs.  An image in memory passes the check, its
  size is computed right, and opening a name finds the first file whose padded name starts with
  all but the last character of it: \<open>FileSize\<close> is the length of that file and \<open>LLFSReadFile\<close>
  points at its contents.  If there is none the null pointer is returned.
\<close>

theorem llfs_reads_packed_files:
  assumes "loaded m fs (build_llfs files)" and "files_ok files"
    and "cstr m q s" and "length s \<le> 368"
  shows "LLFSCheck m fs = 1 \<and>
    LLFSGetFileSystemSize m fs = of_nat (length (build_llfs files)) \<and>
    (case lookup_name (butlast s) files of
       None \<Rightarrow> LLFSOpenFile m fs q = Some 0
     | Some i \<Rightarrow> \<exists>e. LLFSOpenFile m fs q = Some e \<and>
         FileSize m e = of_nat (length (snd (files ! i))) \<and>
         loaded m (LLFSReadFile e) (snd (files ! i)))"
  using assms by (rule llfs_reads_image)

definition two_files :: "(u8 list \<times> u8 list) list" where
  "two_files = [([105, 110, 105, 116], [1, 2, 3]), ([115, 104], [4, 5])]"

lemma length_two_files: "length (build_llfs two_files) = 776"
  by (subst length_image) (simp_all add: two_files_def entry_size_def)

theorem llfs_reads_packed_files_witness:
  "\<exists>e. LLFSOpenFile (place 0x1000 (build_llfs two_files) (put_str 0x10 [115, 104] (\<lambda>_. 0))) 0x1000 0x10 = Some e \<and>
     FileSize (place 0x1000 (build_llfs two_files) (put_str 0x10 [115, 104] (\<lambda>_. 0))) e = 2"
proof -
  let ?m = "place 0x1000 (build_llfs two_files) (put_str 0x10 [115, 104] (\<lambda>_. 0))"
  have c: "cstr ?m 0x10 [115, 104]" by (simp add: place_def length_two_files)
  have l: "loaded ?m 0x1000 (build_llfs two_files)" by (rule loaded_place) (simp add: length_two_files)
  have ok: "files_ok two_files" by (simp add: files_ok_def two_files_def)
  have "lookup_name (butlast [115, 104]) two_files = Some 1"
    by (simp add: two_files_def pad_name_def)
  then show ?thesis
    using llfs_reads_packed_files [OF l ok c] by (auto simp: two_files_def)
qed

end
