(* ===== verification/VFS.thy ===== *)
theory VFS
  imports LLFS
begin

unbundle bit_operations_syntax

text \<open>
  The virtual file system, \<open>filesystem/vfs.cpp\<close>, and the loop of \<open>kernelMain\<close> that enters the
  files of the RAM disk into it.  A descriptor is 369 bytes of memory: a path of 368 characters
  and a source.  The array of pointers \<open>VFSDescriptors\<close>, written once by \<open>VFSInit\<close>, is the list
  of the addresses it holds.
\<close>

section \<open>Comparing paths\<close>

definition min_int :: "i32 \<Rightarrow> i32 \<Rightarrow> i32" where
  "min_int a b = (if sint a > sint b then b else a)"

definition VFSPathEq :: "mem \<Rightarrow> u64 \<Rightarrow> u64 \<Rightarrow> bool option" where
  "VFSPathEq m path path2 =
     (case strlen m path of None \<Rightarrow> None | Some lenA \<Rightarrow>
      case strlen m path2 of None \<Rightarrow> None | Some lenB \<Rightarrow>
        let cmp = memcmp m path path2 (sext (min_int lenA lenB))
        in Some (if cmp = 0
             then if sint lenA > sint lenB
                  then m (path + sext (lenB + 1)) = 32 \<or> m (path + sext (lenB + 1)) = 0
                  else m (path2 + sext (lenA + 1)) = 32 \<or> m (path2 + sext (lenA + 1)) = 0
             else False))"

section \<open>The operations\<close>

record file_descriptor =
  fd_path :: "u8 list"
  fd_source :: u8

definition VFS_SOURCE_RAMFS :: u8 where "VFS_SOURCE_RAMFS = 1"
definition VFS_MAX_DESCRIPTORS :: nat where "VFS_MAX_DESCRIPTORS = 0x19F"

text \<open>The state is memory and \<open>VFSTotalEntries\<close>.\<close>

fun VFSAdd :: "u64 list \<Rightarrow> file_descriptor \<Rightarrow> mem \<Rightarrow> u64 \<Rightarrow> mem \<times> u64" where
  "VFSAdd [] toAdd m tot = (m, tot)"
| "VFSAdd (d # ds) toAdd m tot =
     (if m d = 0
      then let tot = tot + 1;
               m = place (d + 1) (take 367 (fd_path toAdd)) m;
               m = m(d := 47);
               m = m(d + 368 := fd_source toAdd)
           in (m, tot)
      else VFSAdd ds toAdd m tot)"

fun VFSRemove :: "u64 list \<Rightarrow> u64 \<Rightarrow> mem \<Rightarrow> u64 \<Rightarrow> (mem \<times> u64) option" where
  "VFSRemove [] path m tot = Some (m, tot)"
| "VFSRemove (d # ds) path m tot =
     (case VFSPathEq m d path of
        None \<Rightarrow> None
      | Some True \<Rightarrow> Some (memset d 0 368 m, tot - 1)
      | Some False \<Rightarrow> VFSRemove ds path m tot)"

fun VFSOpenFile :: "u64 list \<Rightarrow> u64 \<Rightarrow> mem \<Rightarrow> u64 option" where
  "VFSOpenFile [] path m = Some 0"
| "VFSOpenFile (d # ds) path m =
     (case VFSPathEq m d path of
        None \<Rightarrow> None
      | Some True \<Rightarrow> Some d
      | Some False \<Rightarrow> VFSOpenFile ds path m)"

fun VFSExistsFileAt :: "u64 list \<Rightarrow> u64 \<Rightarrow> mem \<Rightarrow> bool option" where
  "VFSExistsFileAt [] path m = Some False"
| "VFSExistsFileAt (d # ds) path m =
     (case VFSPathEq m d path of
        None \<Rightarrow> None
      | Some True \<Rightarrow> Some True
      | Some False \<Rightarrow> VFSExistsFileAt ds path m)"

definition VFSReadFile :: "mem \<Rightarrow> u64 \<Rightarrow> u64 \<Rightarrow> u64 option" where
  "VFSReadFile m LLFSSource file =
     (if file = 0 then Some 0
      else if m (file + 368) = VFS_SOURCE_RAMFS then LLFSVFSHelperReader m LLFSSource file
      else Some 0)"

definition VFSSizeFile :: "mem \<Rightarrow> u64 \<Rightarrow> u64 \<Rightarrow> u64 option" where
  "VFSSizeFile m LLFSSource file =
     (if file = 0 then Some 0
      else if m (file + 368) = VFS_SOURCE_RAMFS
      then map_option (FileSize m) (LLFSOpenFile m LLFSSource (file + 1))
      else Some 0)"

text \<open>
  \<open>VFSInit\<close> over the state the allocator works on: the array, then the descriptors, each cleared
  by \<open>clr\<close>, which fills \<open>n\<close> bytes with zero.
\<close>

fun init_descriptors ::
    "(u64 \<Rightarrow> 's \<Rightarrow> (u64 \<times> 's) result option) \<Rightarrow> (u64 \<Rightarrow> u64 \<Rightarrow> 's \<Rightarrow> 's) \<Rightarrow> nat \<Rightarrow> 's \<Rightarrow> (u64 list \<times> 's) result option" where
  "init_descriptors alloc clr 0 s = Some (Inr ([], s))"
| "init_descriptors alloc clr (Suc n) s =
     (case alloc 369 s of
        None \<Rightarrow> None
      | Some (Inl e) \<Rightarrow> Some (Inl e)
      | Some (Inr (d, s)) \<Rightarrow>
          (case init_descriptors alloc clr n (clr d 369 s) of
             Some (Inr (ds, s)) \<Rightarrow> Some (Inr (d # ds, s))
           | r \<Rightarrow> r))"

definition VFSInit ::
    "(u64 \<Rightarrow> 's \<Rightarrow> (u64 \<times> 's) result option) \<Rightarrow> (u64 \<Rightarrow> u64 \<Rightarrow> 's \<Rightarrow> 's) \<Rightarrow> 's \<Rightarrow> (u64 list \<times> 's) result option" where
  "VFSInit alloc clr s =
     (case alloc (8 * of_nat VFS_MAX_DESCRIPTORS) s of
        None \<Rightarrow> None
      | Some (Inl e) \<Rightarrow> Some (Inl e)
      | Some (Inr (_, s)) \<Rightarrow> init_descriptors alloc clr VFS_MAX_DESCRIPTORS s)"

text \<open>The loop of \<open>kernelMain\<close>: every entry of the RAM disk becomes a descriptor.\<close>

definition register_files :: "u64 list \<Rightarrow> u64 \<Rightarrow> mem \<Rightarrow> u64 \<Rightarrow> mem \<times> u64" where
  "register_files ds LLFSSource m tot =
     fst (for_int (Entries (read_header m LLFSSource))
       (\<lambda>_ ((m, tot), firstEntry).
          let descriptor = \<lparr>fd_path = bytes_at m firstEntry 368, fd_source = VFS_SOURCE_RAMFS\<rparr>;
              r = VFSAdd ds descriptor m tot
          in (r, next_entry (fst r) firstEntry)) ((m, tot), LLFSSource + 17))"

section \<open>What the comparison decides\<close>

definition byte_or_nul :: "u8 list \<Rightarrow> nat \<Rightarrow> u8" where
  "byte_or_nul s i = (if i < length s then s ! i else 0)"

definition path_eq :: "u8 list \<Rightarrow> u8 list \<Rightarrow> bool" where
  "path_eq a b \<longleftrightarrow>
     (let la = length a - 1; lb = length b - 1; n = min la lb
      in take n a = take n b \<and>
         (if la > lb then byte_or_nul a (lb + 1) \<in> {32, 0} else byte_or_nul b (la + 1) \<in> {32, 0}))"

lemma sint_len: "n < 2147483648 \<Longrightarrow> sint (of_nat n :: i32) = int n"
  using sint_of_int32 [of "int n"] by simp

lemma VFSPathEq_cstr:
  assumes a: "cstr m p a" "length a < 2147483648" and b: "cstr m q b" "length b < 2147483648" "b \<noteq> []"
  shows "VFSPathEq m p q = Some (path_eq a b)"
proof -
  define la lb where "la = length a - 1" and "lb = length b - 1"
  have bd: "la < 2147483647" "lb < 2147483647" using a b by (auto simp: la_def lb_def)
  have s: "strlen m p = Some (of_nat la)" "strlen m q = Some (of_nat lb)"
    using strlen_cstr [OF a] strlen_cstr [OF b(1,2)] by (simp_all add: la_def lb_def)
  have mi: "min_int (of_nat la) (of_nat lb) = of_nat (min la lb)"
    using bd by (simp add: min_int_def sint_len min_def)
  have n: "unat (sext (of_nat (min la lb))) = min la lb"
    using bd by (subst sext_of_nat) (auto intro!: unat_of_nat64)
  have cmp: "memcmp m p q (sext (of_nat (min la lb))) = 0 \<longleftrightarrow> take (min la lb) a = take (min la lb) b"
    unfolding memcmp_zero n using cstr_bytes [OF a(1), of "min la lb"] cstr_bytes [OF b(1), of "min la lb"]
    by (simp add: la_def lb_def)
  have nx: "sext (of_nat k + 1) = of_nat (k + 1)" if "k < 2147483647" for k
    using sext_of_nat [of "k + 1"] that by (simp add: add.commute)
  have at: "m (r + of_nat i) = byte_or_nul c i" if "cstr m r c" "i \<le> length c" for r c i
    using that cstr_nth [OF that(1), of i] cstr_end [OF that(1)]
    by (auto simp: byte_or_nul_def le_less)
  have pe: "path_eq a b \<longleftrightarrow> take (min la lb) a = take (min la lb) b \<and>
      (if la > lb then byte_or_nul a (lb + 1) \<in> {32, 0} else byte_or_nul b (la + 1) \<in> {32, 0})"
    by (simp only: path_eq_def Let_def la_def lb_def)
  have gt: "sint (of_nat la :: i32) > sint (of_nat lb :: i32) \<longleftrightarrow> la > lb"
    using bd by (simp add: sint_len)
  show ?thesis
  proof (cases "la > lb")
    case True
    then have "lb + 1 \<le> length a" by (auto simp: la_def lb_def)
    moreover have "memcmp m p q (sext (of_nat lb)) = 0 \<longleftrightarrow> take lb a = take lb b"
      using cmp True by (simp add: min_def)
    ultimately show ?thesis
      using True at [OF a(1), of "lb + 1"] bd
      by (simp add: VFSPathEq_def s mi cmp nx pe gt del: of_nat_add)
  next
    case False
    then have "la + 1 \<le> length b" using b(3) by (cases b) (auto simp: la_def lb_def)
    moreover have "memcmp m p q (sext (of_nat la)) = 0 \<longleftrightarrow> take la a = take la b"
      using cmp False by (simp add: min_def)
    ultimately show ?thesis
      using False at [OF b(1), of "la + 1"] bd
      by (simp add: VFSPathEq_def s mi cmp nx pe gt del: of_nat_add)
  qed
qed

lemma path_eq_same_length:
  "length a = length b \<Longrightarrow> path_eq a b \<longleftrightarrow> butlast a = butlast b"
  by (cases "a = []") (auto simp: path_eq_def Let_def byte_or_nul_def butlast_conv_take)

lemma path_eq_padded:
  "b \<noteq> [] \<Longrightarrow> path_eq (b @ 32 # c) b"
  by (auto simp: path_eq_def byte_or_nul_def Let_def nth_append)

lemma path_eq_empty: "length b \<le> 1 \<Longrightarrow> path_eq [] b"
  by (auto simp: path_eq_def byte_or_nul_def)


section \<open>The descriptors as a directory\<close>

text \<open>What a descriptor holds, and the descriptors as a list of paths and sources.\<close>

type_synonym dir = "(u8 list \<times> u8) list"

definition view :: "mem \<Rightarrow> u64 list \<Rightarrow> dir" where
  "view m ds = map (\<lambda>d. (bytes_at m d 368, m (d + 368))) ds"

definition clear_of :: "u64 \<Rightarrow> u64 \<Rightarrow> bool" where
  "clear_of d e \<longleftrightarrow> 369 \<le> unat (d - e) \<and> 369 \<le> unat (e - d)"

definition separate :: "u64 list \<Rightarrow> bool" where
  "separate ds \<longleftrightarrow> sorted_wrt clear_of ds"

lemma clear_byte:
  assumes "clear_of d e" and "i \<le> 368"
  shows "369 \<le> unat (e + of_nat i - d)"
proof -
  have ne: "d \<noteq> e" using assms(1) by (auto simp: clear_of_def)
  then have "unat (d - e) = 18446744073709551616 - unat (e - d)"
    using unat_uminus [of "e - d"] by simp
  with assms have "unat (e - d) + i < 18446744073709551616"
    unfolding clear_of_def by linarith
  moreover have "unat (of_nat i :: u64) = i" using assms(2) by (intro unat_of_nat64) simp
  ultimately have "unat ((e - d) + of_nat i) = unat (e - d) + i"
    by (subst unat_add_small) simp_all
  moreover have "e + of_nat i - d = (e - d) + of_nat i" by simp
  ultimately have "unat (e + of_nat i - d) = unat (e - d) + i" by (simp only:)
  then show ?thesis using assms(1) unfolding clear_of_def by linarith
qed

text \<open>A write inside one descriptor leaves the others as they are.\<close>

lemma view_other:
  assumes "\<And>x. 369 \<le> unat (x - d) \<Longrightarrow> m' x = m x" and "\<forall>e \<in> set ds. clear_of d e"
  shows "view m' ds = view m ds"
  unfolding view_def
proof (rule map_cong [OF refl])
  fix e assume "e \<in> set ds"
  then have "m' (e + of_nat i) = m (e + of_nat i)" if "i \<le> 368" for i
    using assms clear_byte [of d e i] that by auto
  from this [of 368] this show "(bytes_at m' e 368, m' (e + 368)) = (bytes_at m e 368, m (e + 368))"
    by (auto simp: bytes_at_def)
qed

fun add_dir :: "file_descriptor \<Rightarrow> dir \<Rightarrow> dir" where
  "add_dir fd [] = []"
| "add_dir fd ((p, s) # xs) =
     (if hd p = 0 then (47 # take 367 (fd_path fd), fd_source fd) # xs
      else (p, s) # add_dir fd xs)"

definition free_entries :: "dir \<Rightarrow> nat" where
  "free_entries xs = length (filter (\<lambda>(p, s). hd p = 0) xs)"

lemma hd_bytes: "hd (bytes_at m d 368) = m d"
  by (simp add: bytes_at_def hd_map)

text \<open>The writes of one entry: the slash, the path behind it and the source.\<close>

lemma entry_written:
  assumes lp: "length p = 367" and M: "M = (place (d + 1) p m)(d := 47, d + 368 := src)"
  shows "369 \<le> unat (x - d) \<Longrightarrow> M x = m x" and "bytes_at M d 368 = 47 # p" and "M (d + 368) = src"
proof -
  show "M x = m x" if "369 \<le> unat (x - d)"
  proof -
    have "1 \<le> x - d" using that by (simp add: word_le_nat_alt)
    moreover have "x - (d + 1) = (x - d) - 1" by simp
    ultimately have "unat (x - (d + 1)) = unat (x - d) - 1" by (simp only: unat_diff_le unat_1)
    moreover have "x \<noteq> d" "x \<noteq> d + 368" using that by auto
    ultimately have "x \<noteq> d" "x \<noteq> d + 368" "\<not> unat (x - (d + 1)) < length p"
      using that lp by linarith+
    then show ?thesis by (auto simp: M place_def)
  qed
  have "M (d + of_nat i) = (47 # p) ! i" if "i < 368" for i
  proof (cases i)
    case (Suc j)
    have "d + of_nat i \<noteq> d" "d + of_nat i \<noteq> d + (368 :: u64)"
      using that Suc offset_inj [of i 0 d] offset_inj [of i 368 d] by auto
    moreover have "d + of_nat i - (d + 1) = (of_nat j :: u64)" using Suc by simp
    moreover have "unat (of_nat j :: u64) = j" using that Suc by (intro unat_of_nat64) simp
    ultimately show ?thesis using Suc that lp by (simp add: M place_def)
  qed (simp add: M)
  then show "bytes_at M d 368 = 47 # p" using lp by (intro nth_equalityI) simp_all
  show "M (d + 368) = src" by (simp add: M)
qed

lemma VFSAdd_view:
  assumes "separate ds" and "length (fd_path fd) = 368"
  shows "view (fst (VFSAdd ds fd m tot)) ds = add_dir fd (view m ds) \<and>
    snd (VFSAdd ds fd m tot) = (if free_entries (view m ds) = 0 then tot else tot + 1) \<and>
    (\<forall>x. (\<forall>d \<in> set ds. 369 \<le> unat (x - d)) \<longrightarrow> fst (VFSAdd ds fd m tot) x = m x)"
  using assms(1)
proof (induction ds)
  case Nil
  then show ?case by (simp add: view_def free_entries_def)
next
  case (Cons d ds)
  let ?p = "take 367 (fd_path fd)"
  show ?case
  proof (cases "m d = 0")
    case True
    define M where "M = (place (d + 1) ?p m)(d := 47, d + 368 := fd_source fd)"
    have e: "VFSAdd (d # ds) fd m tot = (M, tot + 1)"
      using True by (simp add: M_def del: fun_upd_apply)
    have "length ?p = 367" using assms(2) by simp
    note M = entry_written [OF this M_def]
    have "view M ds = view m ds"
      using M(1) Cons.prems by (intro view_other [of d]) (auto simp: separate_def)
    then show ?thesis
      using True M by (simp add: e view_def hd_bytes free_entries_def del: VFSAdd.simps)
  next
    case False
    have far: "fst (VFSAdd ds fd m tot) (d + of_nat i) = m (d + of_nat i)" if "i \<le> 368" for i
    proof -
      have "\<forall>e \<in> set ds. 369 \<le> unat (d + of_nat i - e)"
        using Cons.prems clear_byte [of _ d i] that by (auto simp: separate_def clear_of_def)
      with Cons show ?thesis by (auto simp: separate_def)
    qed
    have "bytes_at (fst (VFSAdd ds fd m tot)) d 368 = bytes_at m d 368"
      using far by (intro nth_equalityI) simp_all
    moreover have "fst (VFSAdd ds fd m tot) (d + 368) = m (d + 368)" using far [of 368] by simp
    ultimately show ?thesis
      using False Cons by (auto simp: view_def hd_bytes free_entries_def separate_def)
  qed
qed

text \<open>The path comparison over the descriptors, for paths that end.\<close>

fun find_path :: "u8 list \<Rightarrow> u8 list list \<Rightarrow> nat option" where
  "find_path p [] = None"
| "find_path p (s # ss) = (if path_eq s p then Some 0 else map_option Suc (find_path p ss))"

definition named :: "mem \<Rightarrow> u64 list \<Rightarrow> u8 list list \<Rightarrow> bool" where
  "named m ds names \<longleftrightarrow> list_all2 (\<lambda>d s. cstr m d s \<and> length s < 2147483648) ds names"

lemma named_Cons: "named m (d # ds) names \<longleftrightarrow>
    (\<exists>s ss. names = s # ss \<and> cstr m d s \<and> length s < 2147483648 \<and> named m ds ss)"
  by (auto simp: named_def list_all2_Cons1)

lemma VFSOpenFile_find:
  assumes "cstr m q p" and "length p < 2147483648" and "p \<noteq> []"
  shows "named m ds names \<Longrightarrow>
    VFSOpenFile ds q m = Some (case find_path p names of None \<Rightarrow> 0 | Some i \<Rightarrow> ds ! i)"
    and "named m ds names \<Longrightarrow> VFSExistsFileAt ds q m = Some (find_path p names \<noteq> None)"
    and "named m ds names \<Longrightarrow> VFSRemove ds q m tot =
      Some (case find_path p names of None \<Rightarrow> (m, tot) | Some i \<Rightarrow> (memset (ds ! i) 0 368 m, tot - 1))"
proof -
  show "named m ds names \<Longrightarrow>
    VFSOpenFile ds q m = Some (case find_path p names of None \<Rightarrow> 0 | Some i \<Rightarrow> ds ! i)"
    by (induction ds arbitrary: names)
       (auto simp: named_Cons VFSPathEq_cstr [OF _ _ assms] split: option.splits bool.splits,
        auto simp: named_def)
  show "named m ds names \<Longrightarrow> VFSExistsFileAt ds q m = Some (find_path p names \<noteq> None)"
    by (induction ds arbitrary: names)
       (auto simp: named_Cons VFSPathEq_cstr [OF _ _ assms] split: option.splits bool.splits,
        auto simp: named_def)
  show "named m ds names \<Longrightarrow> VFSRemove ds q m tot =
      Some (case find_path p names of None \<Rightarrow> (m, tot) | Some i \<Rightarrow> (memset (ds ! i) 0 368 m, tot - 1))"
    by (induction ds arbitrary: names)
       (auto simp: named_Cons VFSPathEq_cstr [OF _ _ assms] split: option.splits bool.splits,
        auto simp: named_def)
qed


section \<open>Registering the RAM disk\<close>

definition dir_entry :: "file_descriptor \<Rightarrow> u8 list \<times> u8" where
  "dir_entry fd = (47 # take 367 (fd_path fd), fd_source fd)"

lemma add_dir_append:
  "\<forall>x \<in> set xs. hd (fst x) \<noteq> 0 \<Longrightarrow> hd (fst y) = 0 \<Longrightarrow>
     add_dir fd (xs @ y # ys) = xs @ dir_entry fd # ys"
  by (induction xs) (auto simp: dir_entry_def split: prod.splits; cases y; simp)+

lemma fold_add_dir:
  "\<forall>x \<in> set xs. hd (fst x) \<noteq> 0 \<Longrightarrow> \<forall>x \<in> set ys. hd (fst x) = 0 \<Longrightarrow> length fds \<le> length ys \<Longrightarrow>
     fold add_dir fds (xs @ ys) = xs @ map dir_entry fds @ drop (length fds) ys"
proof (induction fds arbitrary: xs ys)
  case (Cons fd fds)
  then obtain y ys' where ys: "ys = y # ys'" by (cases ys) auto
  have "fold add_dir fds ((xs @ [dir_entry fd]) @ ys') =
      (xs @ [dir_entry fd]) @ map dir_entry fds @ drop (length fds) ys'"
    using Cons.prems ys by (intro Cons.IH) (auto simp: dir_entry_def)
  then show ?case using Cons.prems ys by (simp add: add_dir_append)
qed simp

definition file_desc :: "u8 list \<times> u8 list \<Rightarrow> file_descriptor" where
  "file_desc f = \<lparr>fd_path = pad_name (fst f), fd_source = VFS_SOURCE_RAMFS\<rparr>"

text \<open>Bytes that lie in no descriptor.\<close>

definition outside :: "u64 list \<Rightarrow> u64 \<Rightarrow> bool" where
  "outside ds x \<longleftrightarrow> (\<forall>d \<in> set ds. 369 \<le> unat (x - d))"

lemma loaded_cong:
  "(\<And>i. i < length xs \<Longrightarrow> m' (a + of_nat i) = m (a + of_nat i)) \<Longrightarrow> loaded m a xs \<Longrightarrow> loaded m' a xs"
  unfolding loaded_def bytes_at_def by (metis (no_types, lifting) atLeastLessThan_iff map_cong set_upt)

lemma register_loop:
  assumes "separate ds"
  shows "loaded m e (concat (map AddFileFromHardDisk files)) \<Longrightarrow>
    \<forall>f \<in> set files. length (fst f) \<le> 368 \<and> length (snd f) < 9223372036854775808 \<Longrightarrow>
    (\<And>i. i < length (concat (map AddFileFromHardDisk files)) \<Longrightarrow> outside ds (e + of_nat i)) \<Longrightarrow>
    length xs = length files \<Longrightarrow>
    (let m' = fst (fst (fold (\<lambda>_ ((m, tot), firstEntry).
          let descriptor = \<lparr>fd_path = bytes_at m firstEntry 368, fd_source = VFS_SOURCE_RAMFS\<rparr>;
              r = VFSAdd ds descriptor m tot
          in (r, next_entry (fst r) firstEntry)) xs ((m, tot), e)))
     in view m' ds = fold add_dir (map file_desc files) (view m ds) \<and>
        (\<forall>x. outside ds x \<longrightarrow> m' x = m x))"
proof (induction xs arbitrary: m tot e files)
  case (Cons x xs)
  then obtain f fs where files: "files = f # fs" by (cases files) auto
  have le: "length (AddFileFromHardDisk f) = entry_size f"
    using Cons.prems files by (intro length_entry) auto
  have l: "loaded m e (AddFileFromHardDisk f)" using Cons.prems(1) by (simp add: files loaded_append)
  have f: "length (fst f) \<le> 368" "length (snd f) < 9223372036854775808"
    using Cons.prems files by auto
  have p: "bytes_at m e 368 = pad_name (fst f)"
    using loaded_entry(1) [OF l f] by (simp add: loaded_def length_pad_name [OF f(1)])
  let ?r = "VFSAdd ds \<lparr>fd_path = bytes_at m e 368, fd_source = VFS_SOURCE_RAMFS\<rparr> m tot"
  have fd: "\<lparr>fd_path = bytes_at m e 368, fd_source = VFS_SOURCE_RAMFS\<rparr> = file_desc f"
    by (simp add: p file_desc_def)
  note v = VFSAdd_view [OF assms, of "file_desc f" m tot]
  have v1: "view (fst ?r) ds = add_dir (file_desc f) (view m ds)"
    and v2: "outside ds x \<Longrightarrow> fst ?r x = m x" for x
    using v f unfolding fd by (auto simp: file_desc_def length_pad_name outside_def)
  have all: "loaded (fst ?r) e (concat (map AddFileFromHardDisk files))"
    using Cons.prems(1,3) v2 by (intro loaded_cong [OF _ Cons.prems(1)]) auto
  then have l2: "loaded (fst ?r) e (AddFileFromHardDisk f)"
    "loaded (fst ?r) (e + of_nat (entry_size f)) (concat (map AddFileFromHardDisk fs))"
    by (simp_all add: files loaded_append le)
  note ne = loaded_entry(4) [OF l2(1) f]
  have out: "outside ds (e + of_nat (entry_size f) + of_nat i)"
    if "i < length (concat (map AddFileFromHardDisk fs))" for i
    using Cons.prems(3) [of "entry_size f + i"] that by (simp add: files le add.assoc)
  from Cons.IH [OF l2(2) _ out, of "snd ?r"] Cons.prems(2,4) v1 v2 ne
  show ?case by (simp add: files Let_def case_prod_unfold)
qed simp

lemma register_files_spec:
  assumes sep: "separate ds" and img: "loaded m fs (build_llfs files)" and ok: "files_ok files"
    and out: "\<And>i. i < length (build_llfs files) \<Longrightarrow> outside ds (fs + of_nat i)"
    and fresh: "\<forall>d \<in> set ds. m d = 0" and room: "length files \<le> length ds"
    and r: "fst (register_files ds fs m tot) = m'"
  shows "loaded m' fs (build_llfs files)"
    and "i < length files \<Longrightarrow> bytes_at m' (ds ! i) 368 = 47 # take 367 (pad_name (fst (files ! i)))"
    and "i < length files \<Longrightarrow> m' (ds ! i + 368) = VFS_SOURCE_RAMFS"
    and "outside ds x \<Longrightarrow> m' x = m x"
    and "i < length ds \<Longrightarrow> length files \<le> i \<Longrightarrow> m' (ds ! i) = 0"
proof -
  note h = loaded_image [OF img ok]
  have un: "unat (of_nat (length files) :: u64) = length files"
    using ok by (intro unat_of_nat64) (simp add: files_ok_def)
  let ?xs = "[0..<length files]"
  have m': "m' = fst (fst (fold (\<lambda>_ ((m, tot), firstEntry).
          let descriptor = \<lparr>fd_path = bytes_at m firstEntry 368, fd_source = VFS_SOURCE_RAMFS\<rparr>;
              r = VFSAdd ds descriptor m tot
          in (r, next_entry (fst r) firstEntry)) ?xs ((m, tot), fs + 17)))"
    using r ok by (simp add: register_files_def h(2) for_int_fold un files_ok_def)
  have pre: "length (build_llfs files) = 17 + length (concat (map AddFileFromHardDisk files))"
    by (simp add: build_llfs_def)
  have out': "outside ds (fs + 17 + of_nat i)"
    if "i < length (concat (map AddFileFromHardDisk files))" for i
    using out [of "17 + i"] that pre by (simp add: add.assoc)
  have files: "\<forall>f \<in> set files. length (fst f) \<le> 368 \<and> length (snd f) < 9223372036854775808"
    using ok by (simp add: files_ok_def)
  have v: "view m' ds = fold add_dir (map file_desc files) (view m ds)"
    and same: "\<forall>x. outside ds x \<longrightarrow> m' x = m x"
    using register_loop [OF sep h(3) files out', of ?xs tot] unfolding m' Let_def by simp_all
  have "\<forall>x \<in> set (view m ds). hd (fst x) = 0"
    using fresh by (auto simp: view_def hd_bytes)
  then have v2: "view m' ds = map dir_entry (map file_desc files) @ drop (length files) (view m ds)"
    using fold_add_dir [of "[]" "view m ds" "map file_desc files"] room v by (simp add: view_def)
  show "loaded m' fs (build_llfs files)"
    using same out by (intro loaded_cong [OF _ img]) auto
  show "outside ds x \<Longrightarrow> m' x = m x" using same by blast
  show "m' (ds ! i) = 0" if "i < length ds" "length files \<le> i"
  proof -
    have "length (view m ds) = length ds" by (simp add: view_def)
    then have "view m' ds ! i = view m ds ! i" using that by (simp add: v2 nth_append)
    then have "bytes_at m' (ds ! i) 368 = bytes_at m (ds ! i) 368" using that by (simp add: view_def)
    then show ?thesis using fresh that hd_bytes by (metis nth_mem)
  qed
  assume i: "i < length files"
  then have "view m' ds ! i = dir_entry (file_desc (files ! i))" by (simp add: v2 nth_append)
  moreover have "view m' ds ! i = (bytes_at m' (ds ! i) 368, m' (ds ! i + 368))"
    using i room by (simp add: view_def)
  ultimately show "bytes_at m' (ds ! i) 368 = 47 # take 367 (pad_name (fst (files ! i)))"
    "m' (ds ! i + 368) = VFS_SOURCE_RAMFS"
    by (simp_all add: dir_entry_def file_desc_def)
qed

lemma nth_after_slash:
  assumes "bytes_at m d 368 = 47 # xs" and "m (d + 368) = s" and "m (d + 369) = 0"
    and "length xs = 367" and "0 \<notin> set xs" and "s \<noteq> 0"
  shows "cstr m (d + 1) (xs @ [s])"
proof -
  have "m (d + 1 + of_nat i) = xs ! i" if "i < 367" for i
  proof -
    have e: "d + of_nat (Suc i) = d + 1 + of_nat i" by simp
    have "m (d + of_nat (Suc i)) = bytes_at m d 368 ! Suc i"
      using nth_bytes_at [of "Suc i" 368 m d] that by simp
    then show ?thesis unfolding e assms(1) by simp
  qed
  moreover have "m (d + 1 + of_nat i) = s" if "\<not> i < 367" "i < 368" for i
  proof -
    have i: "i = 367" using that by simp
    show ?thesis unfolding i using assms(2) by (simp add: algebra_simps)
  qed
  ultimately have "bytes_at m (d + 1) 368 = xs @ [s]"
    using assms(4) by (intro nth_equalityI) (simp_all add: nth_append)
  then show ?thesis using assms by (simp add: cstr_def algebra_simps)
qed


lemma set_take_pad: "0 \<notin> set name \<Longrightarrow> 0 \<notin> set (take n (pad_name name))"
  by (auto simp: pad_name_def dest: in_set_takeD)

lemma lookup_own_name:
  assumes "i < length files" and "length (fst (files ! i)) \<le> 368"
  shows "\<exists>j \<le> i. lookup_name (take 367 (pad_name (fst (files ! i)))) files = Some j"
proof -
  let ?s = "take 367 (pad_name (fst (files ! i)))"
  have l: "length ?s = 367" using length_pad_name [OF assms(2)] by simp
  have "\<exists>j \<le> i. lookup_name s files = Some j"
    if "take (length s) (pad_name (fst (files ! i))) = s" for s :: "u8 list"
    using that assms(1)
  proof (induction files arbitrary: i)
    case (Cons f files)
    show ?case
    proof (cases i)
      case (Suc k)
      with Cons.prems Cons.IH [of k] obtain j where "j \<le> k" "lookup_name s files = Some j" by auto
      then show ?thesis using Suc by (auto intro: exI [of _ "0 :: nat"] exI [of _ "Suc j"])
    qed (use Cons.prems in auto)
  qed simp
  then show ?thesis using l by simp
qed

section \<open>Properties\<close>

text \<open>
  The path comparison, on terminated strings of which the second is not empty, ignores the
  last character of the shorter one: two paths of equal length match when all but their last
  characters agree, and the longer of two paths matches when the shorter one, less its last
  character, is a prefix of it and a space follows at the place behind it.
\<close>

theorem VFSPathEq_decides:
  assumes "cstr m p a" and "cstr m q b" and "length a < 2147483648" and "length b < 2147483648"
    and "b \<noteq> []"
  shows "VFSPathEq m p q = Some (path_eq a b) \<and>
    (length a = length b \<longrightarrow> path_eq a b = (butlast a = butlast b))"
  using VFSPathEq_cstr [OF assms(1,3,2,4,5)] path_eq_same_length [of a b] by simp

theorem VFSPathEq_decides_witness:
  "VFSPathEq two_strings 0x10 0x20 = Some True"
proof -
  have "cstr two_strings 0x10 [97, 98]" "cstr two_strings 0x20 [97, 99]"
    by (simp_all add: two_strings_def)
  from VFSPathEq_decides [OF this] show ?thesis by simp
qed

text \<open>
  C25: \<open>VFSOpenFile\<close>, \<open>VFSExistsFileAt\<close> and \<open>VFSRemove\<close> return, on paths that end, and agree on
  the descriptor they mean: the first whose path matches.  \<open>VFSRemove\<close> clears that path and
  counts one entry less; without a match it changes nothing, \<open>VFSOpenFile\<close> returns the null
  pointer and \<open>VFSExistsFileAt\<close> false.
\<close>

theorem VFS_lookup_first_match:
  assumes "cstr m q p" and "length p < 2147483648" and "p \<noteq> []" and "named m ds names"
  shows "VFSOpenFile ds q m = Some (case find_path p names of None \<Rightarrow> 0 | Some i \<Rightarrow> ds ! i) \<and>
    VFSExistsFileAt ds q m = Some (find_path p names \<noteq> None) \<and>
    VFSRemove ds q m tot =
      Some (case find_path p names of None \<Rightarrow> (m, tot) | Some i \<Rightarrow> (memset (ds ! i) 0 368 m, tot - 1))"
  using VFSOpenFile_find [OF assms(1-3)] assms(4) by blast

theorem VFS_lookup_first_match_witness:
  "VFSOpenFile [0x10, 0x30] 0x20 two_strings = Some 0x10"
proof -
  have c: "cstr two_strings 0x20 [97, 99]" "named two_strings [0x10, 0x30] [[97, 98], []]"
    by (simp_all add: two_strings_def named_def)
  have "find_path [97, 99] [[97, 98], []] = Some 0"
    by (simp add: path_eq_def byte_or_nul_def)
  with VFS_lookup_first_match [OF c(1) _ _ c(2)] show ?thesis by simp
qed

text \<open>
  C5: The boot path of a file.  \<open>kernelMain\<close> enters an image packed by \<open>buildllfs.py\<close> into fresh
  descriptors; then, if the byte behind the descriptor of the \<open>i\<close>-th file is zero, reading that
  descriptor gives the contents, and its size the length, of the first file of the image whose
  padded name agrees with that of the \<open>i\<close>-th in 367 characters: file \<open>i\<close> itself where names are
  distinct.
\<close>

theorem VFS_reads_registered_file:
  assumes "separate ds" and "loaded m fs (build_llfs files)" and "files_ok files"
    and "\<forall>i < length (build_llfs files). outside ds (fs + of_nat i)"
    and "\<forall>d \<in> set ds. m d = 0" and "length files \<le> length ds"
    and "\<forall>f \<in> set files. 0 \<notin> set (fst f)"
    and "m' = fst (register_files ds fs m tot)" and "i < length files" and "ds ! i \<noteq> 0"
    and "m' (ds ! i + 369) = 0"
  shows "\<exists>j e. lookup_name (take 367 (pad_name (fst (files ! i)))) files = Some j \<and> j \<le> i \<and>
    VFSReadFile m' fs (ds ! i) = Some e \<and> loaded m' e (snd (files ! j)) \<and>
    VFSSizeFile m' fs (ds ! i) = Some (of_nat (length (snd (files ! j))))"
proof -
  let ?n = "take 367 (pad_name (fst (files ! i)))"
  note r = register_files_spec [OF assms(1-3) _ assms(5,6) assms(8) [symmetric]]
  have out: "outside ds (fs + of_nat k)" if "k < length (build_llfs files)" for k
    using assms(4) that by blast
  have len: "length (fst (files ! i)) \<le> 368" and nz: "0 \<notin> set (fst (files ! i))"
    using assms(3,7,9) by (auto simp: files_ok_def)
  have src: "m' (ds ! i + 368) = 1" using r(3) [OF out assms(9)] by (simp add: VFS_SOURCE_RAMFS_def)
  have c: "cstr m' (ds ! i + 1) (?n @ [1])"
    using r(2) [OF out assms(9)] src assms(11) set_take_pad [OF nz] length_pad_name [OF len]
    by (intro nth_after_slash) simp_all
  obtain j where j: "lookup_name ?n files = Some j" "j \<le> i"
    using lookup_own_name [OF assms(9) len] by blast
  have "length (?n @ [1]) \<le> 368" by simp
  from llfs_reads_image [OF r(1) [OF out] assms(3) c this]
  obtain e where "LLFSOpenFile m' fs (ds ! i + 1) = Some e"
    "FileSize m' e = of_nat (length (snd (files ! j)))" "loaded m' (LLFSReadFile e) (snd (files ! j))"
    using j(1) by auto
  then show ?thesis
    using j src assms(10)
    by (simp add: VFSReadFile_def VFSSizeFile_def VFS_SOURCE_RAMFS_def LLFSVFSHelperReader_def)
qed

definition one_file :: "(u8 list \<times> u8 list) list" where
  "one_file = [([115, 104], [4, 5])]"

theorem VFS_reads_registered_file_witness:
  "\<exists>e. VFSReadFile (fst (register_files [0x9000] 0x1000 (place 0x1000 (build_llfs one_file) (\<lambda>_. 0)) 0))
     0x1000 0x9000 = Some e"
proof -
  let ?m = "place 0x1000 (build_llfs one_file) (\<lambda>_. 0)"
  let ?m' = "fst (register_files [0x9000] 0x1000 ?m 0)"
  have len: "length (build_llfs one_file) = 396"
    by (subst length_image) (simp_all add: one_file_def entry_size_def)
  have l: "loaded ?m 0x1000 (build_llfs one_file)" by (rule loaded_place) (simp add: len)
  have ok: "files_ok one_file" by (simp add: files_ok_def one_file_def)
  have sep: "separate [0x9000]" by (simp add: separate_def)
  have out: "outside [0x9000] (0x1000 + of_nat i)" if "i < length (build_llfs one_file)" for i
  proof -
    have "0x1000 + of_nat i - 0x9000 = (of_nat (18446744073709518848 + i) :: u64)" by simp
    then have "unat (0x1000 + of_nat i - (0x9000 :: u64)) = 18446744073709518848 + i"
      using that len by (simp only:) (intro unat_of_nat64, simp)
    then show ?thesis by (simp add: outside_def)
  qed
  have f: "\<forall>d \<in> set [0x9000]. ?m d = 0" "length one_file \<le> length [0x9000 :: u64]"
    "\<forall>f \<in> set one_file. 0 \<notin> set (fst f)"
    by (simp add: place_def len, simp_all add: one_file_def)
  have "outside [0x9000] (0x9000 + 369)" by (simp add: outside_def)
  from register_files_spec(4) [OF sep l ok out f(1,2) refl this]
  have "?m' (0x9000 + 369) = 0" by (simp add: place_def len)
  then have z: "?m' ([0x9000] ! 0 + 369) = 0" by simp
  have n: "0 < length one_file" "[0x9000 :: u64] ! 0 \<noteq> 0" by (simp_all add: one_file_def)
  have "\<forall>i < length (build_llfs one_file). outside [0x9000] (0x1000 + of_nat i)" using out by blast
  from VFS_reads_registered_file [OF sep l ok this f refl n z] show ?thesis by auto
qed

end
