(* ===== verification/Elf.thy ===== *)
theory Elf
  imports VFS HeapAllocator
begin

unbundle bit_operations_syntax

text \<open>
  The loader of executables, \<open>elf/loader.cpp\<close>: a file of the virtual file system is checked, its
  segments are copied to the addresses they name, and its entry point is returned.
\<close>

section \<open>The headers of a file in memory\<close>

definition EI_CLASS :: u64 where "EI_CLASS = 4"
definition EI_DATA :: u64 where "EI_DATA = 5"
definition ELFCLASS64 :: u8 where "ELFCLASS64 = 2"
definition ELFDATA2LSB :: u8 where "ELFDATA2LSB = 1"
definition ET_EXEC :: u16 where "ET_EXEC = 2"
definition EM_X86_64 :: u16 where "EM_X86_64 = 62"
definition EV_CURRENT :: u32 where "EV_CURRENT = 1"
definition PT_LOAD :: u32 where "PT_LOAD = 1"

record elf64_ehdr =
  e_ident :: "u8 list"
  e_type :: u16
  e_machine :: u16
  e_version :: u32
  e_entry :: u64
  e_phoff :: u64
  e_shoff :: u64
  e_flags :: u32
  e_ehsize :: u16
  e_phentsize :: u16
  e_phnum :: u16
  e_shentsize :: u16
  e_shnum :: u16
  e_shstrndx :: u16

definition read_ehdr :: "mem \<Rightarrow> u64 \<Rightarrow> elf64_ehdr" where
  "read_ehdr m a = \<lparr>e_ident = bytes_at m a 16, e_type = load16 m (a + 16), e_machine = load16 m (a + 18),
     e_version = load32 m (a + 20), e_entry = load64 m (a + 24), e_phoff = load64 m (a + 32),
     e_shoff = load64 m (a + 40), e_flags = load32 m (a + 48), e_ehsize = load16 m (a + 52),
     e_phentsize = load16 m (a + 54), e_phnum = load16 m (a + 56), e_shentsize = load16 m (a + 58),
     e_shnum = load16 m (a + 60), e_shstrndx = load16 m (a + 62)\<rparr>"

record elf64_phdr =
  p_type :: u32
  p_flags :: u32
  p_offset :: u64
  p_vaddr :: u64
  p_paddr :: u64
  p_filesz :: u64
  p_memsz :: u64
  p_align :: u64

definition read_phdr :: "mem \<Rightarrow> u64 \<Rightarrow> elf64_phdr" where
  "read_phdr m a = \<lparr>p_type = load32 m a, p_flags = load32 m (a + 4), p_offset = load64 m (a + 8),
     p_vaddr = load64 m (a + 16), p_paddr = load64 m (a + 24), p_filesz = load64 m (a + 32),
     p_memsz = load64 m (a + 40), p_align = load64 m (a + 48)\<rparr>"

section \<open>The loader\<close>

definition CheckELF :: "mem \<Rightarrow> u64 \<Rightarrow> i32" where
  "CheckELF m header =
     (let h = read_ehdr m header
      in if e_ident h ! unat EI_CLASS \<noteq> ELFCLASS64 \<or> e_ident h ! unat EI_DATA \<noteq> ELFDATA2LSB \<or>
            e_type h \<noteq> ET_EXEC \<or> e_machine h \<noteq> EM_X86_64 \<or> e_version h \<noteq> EV_CURRENT
         then 0 else 1)"

text \<open>The number of headers is read again before every turn: a segment may lie over the header.\<close>

function load_segments :: "u64 \<Rightarrow> u64 \<Rightarrow> bool \<Rightarrow> u64 \<Rightarrow> u64 \<Rightarrow> mem \<Rightarrow> mem" where
  "load_segments Contents offset pie phdrs i m =
     (if i < ucast (e_phnum (read_ehdr m Contents))
      then let ph = read_phdr m phdrs;
               m = (if p_type ph = PT_LOAD
                    then let segmentStart = offset + p_vaddr ph;
                             segmentStart = (if \<not> pie then segmentStart - offset else segmentStart)
                         in memcpy segmentStart (Contents + p_offset ph) (p_filesz ph) m
                    else m)
           in load_segments Contents offset pie (phdrs + 56) (i + 1) m
      else m)"
  by pat_completeness auto
termination
proof (relation "measure (\<lambda>(_, _, _, _, i, _). 65536 - unat i)", simp_all only: in_measure prod.case, simp)
  fix i :: u64 and n :: u16
  assume "i < ucast n"
  then have "unat i < unat (ucast n :: u64)" by (simp add: word_less_nat_alt)
  also have "unat (ucast n :: u64) = unat n"
    using unat_less_65536 [of n] by (simp add: unsigned_ucast_eq take_bit_nat_eq_self_iff)
  finally have "unat i < 65536" using unat_less_65536 [of n] by simp
  moreover have "unat (i + 1) = Suc (unat i)"
  proof (rule unat_Suc_not_max)
    show "i \<noteq> - 1" using \<open>unat i < 65536\<close> by (auto simp: unsigned_minus_1_eq_mask mask_eq_exp_minus_1)
  qed
  ultimately show "65536 - unat (i + 1) < 65536 - unat i" by simp
qed

declare load_segments.simps [simp del]

definition LoadELFExecutable ::
    "u64 list \<Rightarrow> u64 \<Rightarrow> u64 \<Rightarrow> bool \<Rightarrow> heap \<times> vm \<Rightarrow> (u64 \<times> heap \<times> vm) result option" where
  "LoadELFExecutable VFSDescriptors LLFSSource file pie = (\<lambda>(H, s).
     do { fDescriptor \<leftarrow> VFSOpenFile VFSDescriptors file (vm_mem s);
          Contents \<leftarrow> VFSReadFile (vm_mem s) LLFSSource fDescriptor;
          if Contents = 0 then Some (Inr (Contents, H, s))
          else if CheckELF (vm_mem s) Contents = 0 then Some (Inr (2, H, s))
          else let phdrs = Contents + e_phoff (read_ehdr (vm_mem s) Contents)
          in do {
            size \<leftarrow> VFSSizeFile (vm_mem s) LLFSSource fDescriptor;
            r \<leftarrow> malloc size H s;
            Some (rbind r (\<lambda>(offset, H, s).
              let s = s\<lparr>vm_mem := load_segments Contents offset pie phdrs 0 (vm_mem s)\<rparr>;
                  entry = e_entry (read_ehdr (vm_mem s) Contents)
              in Inr (if \<not> pie then entry else offset + entry, H, s))) } })"

section \<open>What the segments become\<close>

text \<open>The \<open>len\<close> bytes of the file at \<open>C\<close> are the same in both memories.\<close>

definition same_image :: "u64 \<Rightarrow> nat \<Rightarrow> mem \<Rightarrow> mem \<Rightarrow> bool" where
  "same_image C len m m' \<longleftrightarrow> (\<forall>x < len. m' (C + of_nat x) = m (C + of_nat x))"

lemma load_le_same:
  assumes "same_image C len m m'" "x + k \<le> len"
  shows "load_le k m' (C + of_nat x) = (load_le k m (C + of_nat x) :: 'w::len word)"
proof (rule bit_word_eqI)
  fix n assume "n < LENGTH('w)"
  have "m' (C + of_nat (x + n div 8)) = m (C + of_nat (x + n div 8))" if "n < 8 * k"
  proof -
    have "n div 8 < k" using that by (simp add: div_less_iff_less_mult)
    then have "x + n div 8 < len" using assms(2) by linarith
    then show ?thesis using assms(1) unfolding same_image_def by blast
  qed
  then show "bit (load_le k m' (C + of_nat x) :: 'w word) n = bit (load_le k m (C + of_nat x) :: 'w word) n"
    by (auto simp: bit_load_le add.assoc)
qed

lemma read_ehdr_same:
  assumes "same_image C len m m'" "64 \<le> len"
  shows "read_ehdr m' C = read_ehdr m C"
proof -
  have "bytes_at m' C 16 = bytes_at m C 16"
    by (rule nth_equalityI) (use assms in \<open>auto simp: same_image_def\<close>)
  then show ?thesis
    using load_le_same [OF assms(1), of 16 2] load_le_same [OF assms(1), of 18 2] load_le_same [OF assms(1), of 20 4]
      load_le_same [OF assms(1), of 24 8] load_le_same [OF assms(1), of 32 8] load_le_same [OF assms(1), of 40 8]
      load_le_same [OF assms(1), of 48 4] load_le_same [OF assms(1), of 52 2] load_le_same [OF assms(1), of 54 2]
      load_le_same [OF assms(1), of 56 2] load_le_same [OF assms(1), of 58 2] load_le_same [OF assms(1), of 60 2]
      load_le_same [OF assms(1), of 62 2] assms(2)
    by (simp add: read_ehdr_def load16_def load32_def load64_def)
qed

lemma load_le_same_at:
  assumes "same_image C len m m'" "x + y + k \<le> len"
  shows "load_le k m' (C + of_nat x + of_nat y) = (load_le k m (C + of_nat x + of_nat y) :: 'w::len word)"
  using load_le_same [OF assms] by (simp add: add.assoc)

lemma read_phdr_same:
  assumes "same_image C len m m'" "x + 56 \<le> len"
  shows "read_phdr m' (C + of_nat x) = read_phdr m (C + of_nat x)"
  using load_le_same_at [OF assms(1), of x 0 4] load_le_same_at [OF assms(1), of x 4 4]
    load_le_same_at [OF assms(1), of x 8 8] load_le_same_at [OF assms(1), of x 16 8]
    load_le_same_at [OF assms(1), of x 24 8] load_le_same_at [OF assms(1), of x 32 8]
    load_le_same_at [OF assms(1), of x 40 8] load_le_same_at [OF assms(1), of x 48 8] assms(2)
  by (simp add: read_phdr_def load32_def load64_def)

text \<open>
  The headers of the file, and the byte they put at an address: the last segment that covers the
  address counts, and an address no segment covers keeps its byte.
\<close>

definition phdrs_of :: "mem \<Rightarrow> u64 \<Rightarrow> elf64_phdr list" where
  "phdrs_of m C = map (\<lambda>k. read_phdr m (C + of_nat (unat (e_phoff (read_ehdr m C)) + 56 * k)))
     [0..<unat (e_phnum (read_ehdr m C))]"

definition covers :: "elf64_phdr \<Rightarrow> u64 \<Rightarrow> bool" where
  "covers ph a \<longleftrightarrow> p_type ph = PT_LOAD \<and> unat (a - p_vaddr ph) < unat (p_filesz ph)"

definition loaded_byte :: "mem \<Rightarrow> u64 \<Rightarrow> elf64_phdr list \<Rightarrow> u64 \<Rightarrow> u8 \<Rightarrow> u8" where
  "loaded_byte m C phs a b =
     fold (\<lambda>ph b. if covers ph a then m (C + p_offset ph + (a - p_vaddr ph)) else b) phs b"

text \<open>
  A file of \<open>len\<close> bytes whose headers and segments lie inside it and whose segments go to memory
  outside it.
\<close>

definition segment_ok :: "u64 \<Rightarrow> nat \<Rightarrow> elf64_phdr \<Rightarrow> bool" where
  "segment_ok C len ph \<longleftrightarrow> (p_type ph = PT_LOAD \<longrightarrow>
     unat (p_offset ph) + unat (p_filesz ph) \<le> len \<and>
     (\<forall>x < len. unat (p_filesz ph) \<le> unat (C + of_nat x - p_vaddr ph)))"

definition image_ok :: "mem \<Rightarrow> u64 \<Rightarrow> nat \<Rightarrow> bool" where
  "image_ok m C len \<longleftrightarrow> 64 \<le> len \<and> len < 18446744073709551616 \<and>
     unat (e_phoff (read_ehdr m C)) + 56 * unat (e_phnum (read_ehdr m C)) \<le> len \<and>
     (\<forall>ph \<in> set (phdrs_of m C). segment_ok C len ph)"

definition load_one :: "u64 \<Rightarrow> elf64_phdr \<Rightarrow> mem \<Rightarrow> mem" where
  "load_one C ph m = (if p_type ph = PT_LOAD then memcpy (p_vaddr ph) (C + p_offset ph) (p_filesz ph) m else m)"

lemma load_one_byte:
  assumes "segment_ok C len ph" "same_image C len m0 m" "len < 18446744073709551616"
  shows "load_one C ph m a = (if covers ph a then m0 (C + p_offset ph + (a - p_vaddr ph)) else m a)"
proof (cases "p_type ph = PT_LOAD")
  case True
  define d s n where "d = p_vaddr ph" and "s = C + p_offset ph" and "n = unat (p_filesz ph)"
  have ok: "unat (p_offset ph) + n \<le> len" "\<forall>x < len. n \<le> unat (C + of_nat x - d)"
    using assms(1) True by (simp_all add: segment_ok_def d_def n_def)
  have img: "s + of_nat j = C + of_nat (unat (p_offset ph) + j)" for j by (simp add: s_def)
  have f: "forward_ok d s n"
  proof -
    have "n \<le> unat (d - s)" if "n \<noteq> 0"
    proof (rule ccontr)
      assume "\<not> n \<le> unat (d - s)"
      then have "unat (p_offset ph) + unat (d - s) < len" using ok(1) by linarith
      then have "n \<le> unat (C + of_nat (unat (p_offset ph) + unat (d - s)) - d)" using ok(2) by blast
      also have "C + of_nat (unat (p_offset ph) + unat (d - s)) = s + of_nat (unat (d - s))" by (rule img [symmetric])
      also have "\<dots> = d" by (simp only: of_nat_unat_id) simp
      finally show False using that by simp
    qed
    then show ?thesis using ok(1) assms(3) by (cases "n = 0") (simp_all add: forward_ok_iff)
  qed
  have c: "load_one C ph m a = copied d s n m a"
    using True f by (simp add: load_one_def memcpy_eq d_def s_def n_def)
  have src: "m (s + (a - d)) = m0 (s + (a - d))" if "unat (a - d) < n"
  proof -
    have "unat (p_offset ph) + unat (a - d) < len" using that ok(1) by linarith
    then have "m (s + of_nat (unat (a - d))) = m0 (s + of_nat (unat (a - d)))"
      using assms(2) unfolding img same_image_def by blast
    then show ?thesis by (simp only: of_nat_unat_id)
  qed
  show ?thesis
  proof (cases "unat (a - d) < n")
    case True
    have "copied d s n m (d + (a - d)) = m (s + (a - d))" using True by (rule copied_in)
    then have "copied d s n m a = m0 (s + (a - d))" using src [OF True] by (simp only: add_diff_eq add_diff_cancel_left')
    then show ?thesis using True \<open>p_type ph = PT_LOAD\<close> c by (simp add: covers_def d_def s_def n_def)
  next
    case False
    then have "copied d s n m a = m a" by (intro copied_out) simp
    then show ?thesis using False c by (simp add: covers_def d_def n_def)
  qed
qed (simp add: load_one_def covers_def)

lemma same_image_load_one:
  assumes "segment_ok C len ph" "same_image C len m0 m" "len < 18446744073709551616"
  shows "same_image C len m0 (load_one C ph m)"
  unfolding same_image_def
proof (intro allI impI)
  fix x assume x: "x < len"
  then have "\<not> covers ph (C + of_nat x)" using assms(1) by (auto simp: segment_ok_def covers_def)
  then show "load_one C ph m (C + of_nat x) = m0 (C + of_nat x)"
    using load_one_byte [OF assms] assms(2) x by (simp add: same_image_def)
qed

lemma fold_load_one:
  assumes "\<forall>ph \<in> set phs. segment_ok C len ph" "same_image C len m0 m" "len < 18446744073709551616"
  shows "fold (load_one C) phs m a = loaded_byte m0 C phs a (m a) \<and> same_image C len m0 (fold (load_one C) phs m)"
  using assms(1,2)
proof (induction phs arbitrary: m)
  case Nil
  then show ?case by (simp add: loaded_byte_def)
next
  case (Cons ph phs)
  have s: "segment_ok C len ph" using Cons.prems(1) by simp
  have IH: "fold (load_one C) phs (load_one C ph m) a = loaded_byte m0 C phs a (load_one C ph m a) \<and>
      same_image C len m0 (fold (load_one C) phs (load_one C ph m))"
    by (rule Cons.IH [OF _ same_image_load_one [OF s Cons.prems(2) assms(3)]]) (use Cons.prems(1) in simp)
  then show ?case using load_one_byte [OF s Cons.prems(2) assms(3), of a] by (simp add: loaded_byte_def)
qed

lemma load_segments_fold:
  assumes ok: "image_ok m0 C len" and "same_image C len m0 m" "k \<le> unat (e_phnum (read_ehdr m0 C))"
  shows "load_segments C off False (C + of_nat (unat (e_phoff (read_ehdr m0 C)) + 56 * k)) (of_nat k) m =
    fold (load_one C) (drop k (phdrs_of m0 C)) m"
  using assms(2,3)
proof (induction "unat (e_phnum (read_ehdr m0 C)) - k" arbitrary: k m)
  case 0
  define n where "n = e_phnum (read_ehdr m0 C)"
  have len: "64 \<le> len" using ok by (simp add: image_ok_def)
  have k: "k = unat n" using 0 by (simp add: n_def)
  then have "\<not> of_nat k < (ucast n :: u64)" by simp
  moreover have "e_phnum (read_ehdr m C) = n" using read_ehdr_same [OF 0(2) len] by (simp add: n_def)
  ultimately show ?case using k by (subst load_segments.simps) (simp add: phdrs_of_def n_def)
next
  case (Suc d)
  define n po where "n = e_phnum (read_ehdr m0 C)" and "po = unat (e_phoff (read_ehdr m0 C))"
  have len: "64 \<le> len" "len < 18446744073709551616" "po + 56 * unat n \<le> len"
    using ok by (simp_all add: image_ok_def n_def po_def)
  have k: "k < unat n" using Suc.hyps(2) by (simp add: n_def)
  have n: "e_phnum (read_ehdr m C) = n" using read_ehdr_same [OF Suc.prems(1) len(1)] by (simp add: n_def)
  have "unat (of_nat k :: u64) = k" using k unat_less_65536 [of n] by (intro unat_of_nat64) simp
  moreover have "unat (ucast n :: u64) = unat n"
    using unat_less_65536 [of n] by (simp add: unsigned_ucast_eq take_bit_nat_eq_self_iff)
  ultimately have c: "of_nat k < (ucast n :: u64)" using k by (simp only: word_less_nat_alt)
  define ph where "ph = phdrs_of m0 C ! k"
  have phs: "drop k (phdrs_of m0 C) = ph # drop (Suc k) (phdrs_of m0 C)"
  proof -
    have "k < length (phdrs_of m0 C)" using k by (simp add: phdrs_of_def n_def)
    then show ?thesis unfolding ph_def by (rule Cons_nth_drop_Suc [symmetric])
  qed
  have "ph = read_phdr m0 (C + of_nat (po + 56 * k))" using k by (simp add: ph_def phdrs_of_def n_def po_def)
  moreover have "po + 56 * k + 56 \<le> len" using len(3) k by linarith
  ultimately have r: "read_phdr m (C + of_nat (po + 56 * k)) = ph" using read_phdr_same [OF Suc.prems(1)] by (simp only:)
  have s: "segment_ok C len ph" using ok k by (auto simp: image_ok_def ph_def phdrs_of_def n_def)
  have nx: "C + of_nat (po + 56 * k) + 56 = C + of_nat (po + 56 * Suc k)" "(of_nat k :: u64) + 1 = of_nat (Suc k)"
    by (simp_all add: algebra_simps)
  have "load_segments C off False (C + of_nat (po + 56 * k)) (of_nat k) m =
      load_segments C off False (C + of_nat (po + 56 * Suc k)) (of_nat (Suc k)) (load_one C ph m)"
    by (subst load_segments.simps) (simp only: n c r Let_def nx load_one_def if_True not_False_eq_True
      add_diff_cancel_left')
  also have "\<dots> = fold (load_one C) (drop (Suc k) (phdrs_of m0 C)) (load_one C ph m)"
    unfolding po_def
    by (rule Suc.hyps(1)) (use Suc.hyps(2) k same_image_load_one [OF s Suc.prems(1) len(2)] in \<open>simp_all add: n_def\<close>)
  finally show ?case by (simp add: phs po_def)
qed


text \<open>An image with one file \<open>/a\<close>, an executable of 128 bytes with one segment of eight bytes.\<close>

definition example_elf :: mem where
  "example_elf a =
     (if a < 0x118A then ((\<lambda>_. 0)(0x20 := 47, 0x21 := 97, 0x100 := 47, 0x101 := 97, 0x270 := 1,
        0x1005 := 1, 0x1181 := 0x80)) a
      else if a < 0x11CA then
        if a < 0x11A2 then ((\<lambda>_. 0)(0x118E := 2, 0x118F := 1, 0x119A := 2, 0x119C := 62, 0x119E := 1)) a
        else ((\<lambda>_. 0)(0x11A4 := 0x40, 0x11AA := 64, 0x11C2 := 1)) a
      else ((\<lambda>_. 0)(0x11CA := 1, 0x11D2 := 120, 0x11DC := 0x40, 0x11EA := 8, 0x11F2 := 16, 0x1202 := 0x90)) a)"

definition example_heap :: heap where
  "example_heap = \<lparr>heapStart = 0x8000, heapEnd = 0x8099, LastHdr = 0x8000,
     hdr = (\<lambda>_. \<lparr>seg_length = 0x80, seg_next = 0, seg_last = 0, seg_free = True\<rparr>)\<rparr>"

lemma example_ehdr:
  "e_type (read_ehdr example_elf 0x118A) = 2" "e_machine (read_ehdr example_elf 0x118A) = 62"
  "e_version (read_ehdr example_elf 0x118A) = 1" "e_entry (read_ehdr example_elf 0x118A) = 0x400000"
  "e_phoff (read_ehdr example_elf 0x118A) = 64" "e_phnum (read_ehdr example_elf 0x118A) = 1"
  "e_ident (read_ehdr example_elf 0x118A) ! 4 = 2" "e_ident (read_ehdr example_elf 0x118A) ! 5 = 1"
  by (simp_all add: read_ehdr_def load_bytes example_elf_def)

lemma example_phdr:
  "p_type (read_phdr example_elf 0x11CA) = 1" "p_offset (read_phdr example_elf 0x11CA) = 120"
  "p_vaddr (read_phdr example_elf 0x11CA) = 0x400000" "p_filesz (read_phdr example_elf 0x11CA) = 8"
  by (simp_all add: read_phdr_def load_bytes example_elf_def)

lemma example_file:
  "VFSOpenFile [0x100] 0x20 example_elf = Some 0x100"
  "VFSReadFile example_elf 0x1000 0x100 = Some 0x118A" "VFSSizeFile example_elf 0x1000 0x100 = Some 0x80"
proof -
  have c: "cstr example_elf 0x20 [47, 97]" "cstr example_elf 0x100 [47, 97]" "cstr example_elf 0x101 [97]"
    by (simp_all add: example_elf_def)
  have "VFSPathEq example_elf 0x100 0x20 = Some (path_eq [47, 97] [47, 97])"
    by (rule VFSPathEq_cstr [OF c(2) _ c(1)]) simp_all
  moreover have "path_eq [47, 97] [47, 97]" by (subst path_eq_same_length) simp_all
  ultimately show "VFSOpenFile [0x100] 0x20 example_elf = Some 0x100" by simp
  have n: "strlen example_elf 0x101 = Some 0" using strlen_cstr [OF c(3)] by simp
  have e: "Entries (read_header example_elf 0x1000) = 1"
    by (simp add: read_header_def load_bytes example_elf_def)
  have z: "memcmp example_elf a b (sext 0) = 0" for a b by (simp add: memcmp_zero sext_def)
  have "LLFSOpenFile example_elf 0x1000 0x101 = Some 0x1011"
    by (simp add: LLFSOpenFile_def e loop_int_list n z)
  moreover have "FileSize example_elf 0x1011 = 0x80" by (simp add: FileSize_def load_bytes example_elf_def)
  moreover have "example_elf 0x270 = 1" by (simp add: example_elf_def)
  ultimately show "VFSReadFile example_elf 0x1000 0x100 = Some 0x118A" "VFSSizeFile example_elf 0x1000 0x100 = Some 0x80"
    by (simp_all add: VFSReadFile_def VFSSizeFile_def VFS_SOURCE_RAMFS_def LLFSVFSHelperReader_def LLFSReadFile_def)
qed

lemma example_image: "image_ok example_elf 0x118A 128" "phdrs_of example_elf 0x118A = [read_phdr example_elf 0x11CA]"
proof -
  show p: "phdrs_of example_elf 0x118A = [read_phdr example_elf 0x11CA]"
    by (simp add: phdrs_of_def example_ehdr)
  have "8 \<le> unat (0x118A + of_nat x - 0x400000 :: u64)" if "x < 128" for x
  proof -
    have "0x118A + of_nat x - 0x400000 = (of_nat (18446744073705361802 + x) :: u64)" by simp
    then show ?thesis using that by (simp only: unat_of_nat64)
  qed
  then show "image_ok example_elf 0x118A 128"
    unfolding image_ok_def p by (simp add: example_ehdr example_phdr segment_ok_def)
qed


text \<open>C39: what the loader rejects.  A file that does not exist gives 0, and a file that is no
  64-bit little-endian executable for this processor gives 2, both without any effect; the
  kernel tests the result against 0 only, so it starts a corrupt file at address 2.\<close>

theorem LoadELFExecutable_rejects:
  assumes "VFSOpenFile ds path (vm_mem s) = Some fd" "VFSReadFile (vm_mem s) src fd = Some C"
  shows "(fd = 0 \<longrightarrow> LoadELFExecutable ds src path pie (H, s) = Some (Inr (0, H, s))) \<and>
    (C \<noteq> 0 \<longrightarrow> \<not> (vm_mem s (C + 4) = 2 \<and> vm_mem s (C + 5) = 1 \<and> load16 (vm_mem s) (C + 16) = 2 \<and>
        load16 (vm_mem s) (C + 18) = 62 \<and> load32 (vm_mem s) (C + 20) = 1) \<longrightarrow>
      LoadELFExecutable ds src path pie (H, s) = Some (Inr (2, H, s)))"
proof -
  have c: "CheckELF (vm_mem s) C = (if vm_mem s (C + 4) = 2 \<and> vm_mem s (C + 5) = 1 \<and> load16 (vm_mem s) (C + 16) = 2 \<and>
        load16 (vm_mem s) (C + 18) = 62 \<and> load32 (vm_mem s) (C + 20) = 1 then 1 else 0)"
    by (auto simp: CheckELF_def Let_def read_ehdr_def EI_CLASS_def EI_DATA_def ELFCLASS64_def ELFDATA2LSB_def
      ET_EXEC_def EM_X86_64_def EV_CURRENT_def)
  have z: "fd = 0 \<Longrightarrow> C = 0" using assms(2) by (simp add: VFSReadFile_def)
  have 0: "LoadELFExecutable ds src path pie (H, s) = Some (Inr (0, H, s))" if "C = 0"
    using assms that by (simp add: LoadELFExecutable_def)
  have 2: "LoadELFExecutable ds src path pie (H, s) = Some (Inr (2, H, s))" if "C \<noteq> 0" "CheckELF (vm_mem s) C = 0"
    using assms that by (simp add: LoadELFExecutable_def)
  show ?thesis using z 0 2 c by simp
qed

text \<open>A descriptor whose file is not in the image is read at address 377, and rejected only there.\<close>

lemma LoadELFExecutable_rejects_witness:
  "LoadELFExecutable [0x100] 0x2000 0x20 False (example_heap, page_vm\<lparr>vm_mem := example_elf\<rparr>) =
     Some (Inr (2, example_heap, page_vm\<lparr>vm_mem := example_elf\<rparr>))"
proof -
  have "Entries (read_header example_elf 0x2000) = 0"
    by (simp add: read_header_def load_bytes example_elf_def)
  then have "LLFSOpenFile example_elf 0x2000 0x101 = Some 0" by (simp add: LLFSOpenFile_def loop_int_list)
  moreover have "example_elf 0x270 = 1" by (simp add: example_elf_def)
  ultimately have r: "VFSReadFile example_elf 0x2000 0x100 = Some 377"
    by (simp add: VFSReadFile_def VFS_SOURCE_RAMFS_def LLFSVFSHelperReader_def LLFSReadFile_def)
  have "example_elf (377 + 4) \<noteq> 2" by (simp add: example_elf_def)
  then show ?thesis
    using LoadELFExecutable_rejects [where ds = "[0x100]" and path = "0x20" and s = "page_vm\<lparr>vm_mem := example_elf\<rparr>"
      and src = "0x2000"] r example_file(1) by simp
qed

end
