(* ===== verification/DoubleString.thy ===== *)
theory DoubleString
  imports NumString
begin

unbundle bit_operations_syntax

text \<open>
  The overloads of \<open>inttostr\<close> for \<open>double\<close>, \<open>libc/stdio/cstring.cpp\<close>.  The operations of the
  floating point unit that the code uses are an argument of the model: constants, arithmetic, the
  comparison, and the conversions, of which those to integers truncate.
\<close>

record 'd double_ops =
  d_zero :: 'd
  d_of_u64 :: "u64 \<Rightarrow> 'd"
  d_add :: "'d \<Rightarrow> 'd \<Rightarrow> 'd"
  d_div :: "'d \<Rightarrow> 'd \<Rightarrow> 'd"
  d_less :: "'d \<Rightarrow> 'd \<Rightarrow> bool"
  d_sub :: "'d \<Rightarrow> 'd \<Rightarrow> 'd"
  d_mul :: "'d \<Rightarrow> 'd \<Rightarrow> 'd"
  d_of_int :: "i32 \<Rightarrow> 'd"
  d_to_i64 :: "'d \<Rightarrow> i64"
  d_to_int :: "'d \<Rightarrow> i32"

text \<open>The copy of the integral part, up to the closing zero.\<close>

partial_function (option) copy_digits :: "u64 \<Rightarrow> u64 \<Rightarrow> mem \<Rightarrow> (u64 \<times> mem) option" where
  "copy_digits intPtr doublePtr m =
     (if m intPtr \<noteq> 0 then copy_digits (intPtr + 1) (doublePtr + 1) (m(doublePtr := m intPtr))
      else Some (doublePtr, m))"

fun decimal_loop :: "'d double_ops \<Rightarrow> nat \<Rightarrow> 'd \<Rightarrow> u64 \<Rightarrow> mem \<Rightarrow> u64 \<times> mem" where
  "decimal_loop fp 0 newVal doublePtr m = (doublePtr, m)"
| "decimal_loop fp (Suc n) newVal doublePtr m =
     (let newVal = d_mul fp newVal (d_of_int fp 10);
          m = m(doublePtr := ucast (d_to_int fp newVal + 48));
          newVal = d_sub fp newVal (d_of_int fp (d_to_int fp newVal))
      in decimal_loop fp n newVal (doublePtr + 1) m)"

text \<open>\<open>out\<close> is the buffer of the digits of the integral part, \<open>dout\<close> the one of the result.\<close>

definition inttostr_double ::
    "'d double_ops \<Rightarrow> u64 \<Rightarrow> u64 \<Rightarrow> u8 \<Rightarrow> 'd \<Rightarrow> u8 \<Rightarrow> mem \<Rightarrow> mem option" where
  "inttostr_double fp out dout size0 val decimalPlaces m =
     (let m = memset dout 0 128 m;
          decimalPlaces = (if decimalPlaces > 10 then 10 else decimalPlaces);
          m = inttostr_s64 out size0 (d_to_i64 fp val) m;
          val = (if d_less fp val (d_of_int fp 0) then d_mul fp val (d_of_int fp (- 1)) else val)
      in do { (doublePtr, m) \<leftarrow> copy_digits out dout m;
              let m = m(doublePtr := 46);
              let newVal = d_sub fp val (d_of_int fp (d_to_int fp val));
              let (doublePtr, m) = decimal_loop fp (unat decimalPlaces) newVal (doublePtr + 1) m;
              Some (m(doublePtr := 0)) })"

definition inttostr_double2 :: "'d double_ops \<Rightarrow> u64 \<Rightarrow> u64 \<Rightarrow> u8 \<Rightarrow> 'd \<Rightarrow> mem \<Rightarrow> mem option" where
  "inttostr_double2 fp out dout size0 val m = inttostr_double fp out dout size0 val 2 m"

end
