(* ===== verification/PortIO.thy ===== *)
theory PortIO
  imports CString "HOL-Library.State_Monad"
begin

unbundle bit_operations_syntax

text \<open>
  The processor's side of the hardware: I/O ports (\<open>io/ports.cpp\<close>), model specific registers
  (\<open>io/msr.cpp\<close>) and the serial line (\<open>io/serial.cpp\<close>).  What the kernel does to the hardware
  is the sequence of its accesses, oldest first; what a device answers may depend on everything
  that went before, so the hardware is a function of that sequence.  The operations run in the
  state monad over it.
\<close>

section \<open>Accesses and devices\<close>

datatype access =
    InB u16
  | InW u16
  | InL u16
  | OutB u16 u8
  | OutW u16 u16
  | OutL u16 u32
  | RdMsr u32
  | Cli
  | Sti
  | Hlt
  | Lgdt u16 u64
  | Lidt u16 u64
  | Ltr u16

type_synonym trace = "access list"
type_synonym 'a io = "(trace, 'a) state"

record hardware =
  in_b :: "trace \<Rightarrow> u16 \<Rightarrow> u8"
  in_w :: "trace \<Rightarrow> u16 \<Rightarrow> u16"
  in_l :: "trace \<Rightarrow> u16 \<Rightarrow> u32"
  msr :: "trace \<Rightarrow> u32 \<Rightarrow> u64"

definition access :: "access \<Rightarrow> unit io" where
  "access e = State (\<lambda>tr. ((), tr @ [e]))"

lemma run_access [simp]: "run_state (access e) tr = ((), tr @ [e])"
  by (simp add: access_def)

text \<open>A read is answered from the sequence before it.\<close>

definition ask :: "(trace \<Rightarrow> 'a) \<Rightarrow> access \<Rightarrow> 'a io" where
  "ask f e = State (\<lambda>tr. (f tr, tr @ [e]))"

lemma run_ask [simp]: "run_state (ask f e) tr = (f tr, tr @ [e])"
  by (simp add: ask_def)

section \<open>Ports\<close>

text \<open>
  The instructions take the port from the 16-bit register \<open>dx\<close>.  \<open>inw\<close> writes only the low half
  of \<open>eax\<close>: the rest of the 64-bit result is what \<open>rax\<close> held before.
\<close>

definition inportb :: "hardware \<Rightarrow> u32 \<Rightarrow> u8 io" where
  "inportb hw port = ask (\<lambda>tr. in_b hw tr (ucast port)) (InB (ucast port))"

definition inportl :: "hardware \<Rightarrow> u64 \<Rightarrow> u64 io" where
  "inportl hw port = ask (\<lambda>tr. ucast (in_l hw tr (ucast port))) (InL (ucast port))"

definition inportw :: "hardware \<Rightarrow> u64 \<Rightarrow> u16 \<Rightarrow> u64 io" where
  "inportw hw rax port = ask (\<lambda>tr. (rax AND NOT 0xFFFF) OR ucast (in_w hw tr port)) (InW port)"

definition outportb :: "u32 \<Rightarrow> u8 \<Rightarrow> unit io" where
  "outportb port value = access (OutB (ucast port) value)"

definition outportw :: "u16 \<Rightarrow> u16 \<Rightarrow> unit io" where
  "outportw port data = access (OutW port data)"

definition outportl :: "u64 \<Rightarrow> u64 \<Rightarrow> unit io" where
  "outportl port data = access (OutL (ucast port) (ucast data))"

definition io_wait :: "unit io" where
  "io_wait = access (OutB 0x80 0)"

lemmas port_defs = inportb_def inportl_def inportw_def outportb_def outportw_def outportl_def io_wait_def

section \<open>Model specific registers\<close>

definition MSR_CPU_TEMP :: u32 where "MSR_CPU_TEMP = 0x19C"
definition MSR_CPU_TJUNCTION :: u32 where "MSR_CPU_TJUNCTION = 0x1A2"

text \<open>\<open>low\<close> and \<open>high\<close> are out parameters: the result is the pair.\<close>

definition ReadMSR :: "hardware \<Rightarrow> u32 \<Rightarrow> (u32 \<times> u32) io" where
  "ReadMSR hw r = ask (\<lambda>tr. (ucast (msr hw tr r), ucast (drop_bit 32 (msr hw tr r)))) (RdMsr r)"

definition GetCPUTJunction :: "hardware \<Rightarrow> u32 io" where
  "GetCPUTJunction hw =
     do { (TJunctionLow, TJunctionHigh) \<leftarrow> ReadMSR hw MSR_CPU_TJUNCTION;
          State_Monad.return (drop_bit 16 TJunctionLow AND 0xff) }"

definition GetCPUTemp :: "hardware \<Rightarrow> u32 io" where
  "GetCPUTemp hw =
     do { (TempLow, TempHigh) \<leftarrow> ReadMSR hw MSR_CPU_TEMP;
          TJunction \<leftarrow> GetCPUTJunction hw;
          State_Monad.return (TJunction - (drop_bit 16 TempLow AND 0x7f)) }"

section \<open>The serial line\<close>

definition COM1 :: u32 where "COM1 = 0x3F8"

definition SerialisReceived :: "hardware \<Rightarrow> i32 io" where
  "SerialisReceived hw =
     do { b \<leftarrow> inportb hw (COM1 + 5); State_Monad.return (ucast b AND 1) }"

definition SerialRead :: "hardware \<Rightarrow> u8 io" where
  "SerialRead hw =
     do { r \<leftarrow> SerialisReceived hw;
          if r \<noteq> 0 then inportb hw COM1 else State_Monad.return 0 }"

definition SerialWrite_char :: "u8 \<Rightarrow> unit io" where
  "SerialWrite_char chr = outportb COM1 chr"

text \<open>The loop over a string in memory, which ends at the first zero if there is one.\<close>

partial_function (option) serial_loop :: "mem \<Rightarrow> u64 \<Rightarrow> i32 \<Rightarrow> trace \<Rightarrow> trace option" where
  "serial_loop m chr i tr =
     (let c = m (chr + sext i)
      in if c = 0 then Some tr
         else let tr = snd (run_state (SerialWrite_char c) tr);
                  tr = (if c = 10 then snd (run_state (SerialWrite_char 13) tr) else tr)
              in serial_loop m chr (i + 1) tr)"

definition SerialWrite :: "mem \<Rightarrow> u64 \<Rightarrow> trace \<Rightarrow> trace option" where
  "SerialWrite m chr tr = serial_loop m chr 0 tr"

definition SerialClearMonitor :: "mem \<Rightarrow> u64 \<Rightarrow> u64 \<Rightarrow> trace \<Rightarrow> trace option" where
  "SerialClearMonitor m clr home tr =
     do { tr \<leftarrow> SerialWrite m clr (snd (run_state (SerialWrite_char 27) tr));
          SerialWrite m home (snd (run_state (SerialWrite_char 27) tr)) }"

definition SerialWrite2 :: "mem \<Rightarrow> u64 \<Rightarrow> u64 \<Rightarrow> trace \<Rightarrow> trace option" where
  "SerialWrite2 m chr chr2 tr = do { tr \<leftarrow> SerialWrite m chr tr; SerialWrite m chr2 tr }"

definition SerialWrite3 :: "mem \<Rightarrow> u64 \<Rightarrow> u64 \<Rightarrow> u64 \<Rightarrow> trace \<Rightarrow> trace option" where
  "SerialWrite3 m chr chr2 chr3 tr =
     do { tr \<leftarrow> SerialWrite m chr tr; tr \<leftarrow> SerialWrite m chr2 tr; SerialWrite m chr3 tr }"

definition SerialWrite4 :: "mem \<Rightarrow> u64 \<Rightarrow> u64 \<Rightarrow> u64 \<Rightarrow> u64 \<Rightarrow> trace \<Rightarrow> trace option" where
  "SerialWrite4 m chr chr2 chr3 chr4 tr =
     do { tr \<leftarrow> SerialWrite m chr tr; tr \<leftarrow> SerialWrite m chr2 tr;
          tr \<leftarrow> SerialWrite m chr3 tr; SerialWrite m chr4 tr }"

definition SerialWrite5 :: "mem \<Rightarrow> u64 \<Rightarrow> u64 \<Rightarrow> u64 \<Rightarrow> u64 \<Rightarrow> u64 \<Rightarrow> trace \<Rightarrow> trace option" where
  "SerialWrite5 m chr chr2 chr3 chr4 chr5 tr =
     do { tr \<leftarrow> SerialWrite m chr tr; tr \<leftarrow> SerialWrite m chr2 tr;
          tr \<leftarrow> SerialWrite m chr3 tr; tr \<leftarrow> SerialWrite m chr4 tr; SerialWrite m chr5 tr }"

text \<open>What a string puts on the line: its characters, each newline followed by a return.\<close>

definition serial_out :: "u8 list \<Rightarrow> trace" where
  "serial_out s = concat (map (\<lambda>c. if c = 10 then [OutB 0x3F8 10, OutB 0x3F8 13] else [OutB 0x3F8 c]) s)"

lemma serial_loop_cstr:
  assumes "cstr m p s" and "length s < 2147483648" and "i \<le> length s"
  shows "serial_loop m p (of_nat i) tr = Some (tr @ serial_out (drop i s))"
  using assms(3)
proof (induction "length s - i" arbitrary: i tr)
  case 0
  then have i: "i = length s" by simp
  have "m (p + sext (of_nat i)) = 0"
    using cstr_end [OF assms(1)] assms(2) by (simp add: i sext_of_nat)
  then show ?case by (subst serial_loop.simps) (simp add: i serial_out_def)
next
  case (Suc k)
  then have i: "i < length s" by simp
  then have c: "m (p + sext (of_nat i)) = s ! i" "s ! i \<noteq> 0"
    using cstr_nth [OF assms(1)] assms(2) by (simp_all add: sext_of_nat)
  have IH: "serial_loop m p (of_nat i + 1) tr' = Some (tr' @ serial_out (drop (Suc i) s))" for tr'
    using Suc.hyps(1) [of "Suc i" tr'] Suc.hyps(2) i by (simp add: add.commute)
  show ?case
    using i c by (subst serial_loop.simps)
      (simp add: Let_def IH Cons_nth_drop_Suc [symmetric] serial_out_def SerialWrite_char_def
        outportb_def COM1_def)
qed

lemma SerialWrite_cstr:
  "cstr m p s \<Longrightarrow> length s < 2147483648 \<Longrightarrow> SerialWrite m p tr = Some (tr @ serial_out s)"
  using serial_loop_cstr [of m p s 0 tr] by (simp add: SerialWrite_def)

lemma serial_out_append: "serial_out (s @ t) = serial_out s @ serial_out t"
  by (simp add: serial_out_def)

end
