(* ===== verification/Clock.thy ===== *)
theory Clock
  imports PortIO DoubleString
begin

unbundle bit_operations_syntax

text \<open>
  Time: the real time clock in the CMOS, \<open>drivers/rtc/rtc.cpp\<close>, and the interval timer,
  \<open>scheduling/pit.cpp\<close>.  A loop that waits for a device is a \<open>partial_function (option)\<close>:
  \<open>None\<close> is a wait that never ends.
\<close>

section \<open>The real time clock\<close>

definition CMOS_ADDRESS :: u32 where "CMOS_ADDRESS = 0x70"
definition CMOS_DATA :: u32 where "CMOS_DATA = 0x71"

definition BCDToBinary :: "u32 \<Rightarrow> u32" where
  "BCDToBinary bcd = (bcd AND 0x0F) + (bcd div 16) * 10"

definition RTCgetRegister :: "hardware \<Rightarrow> i32 \<Rightarrow> u8 io" where
  "RTCgetRegister hw reg = do { outportb CMOS_ADDRESS (ucast reg); inportb hw CMOS_DATA }"

definition RTCgetUpdateInProgress :: "hardware \<Rightarrow> i32 io" where
  "RTCgetUpdateInProgress hw =
     do { outportb CMOS_ADDRESS 0x0A; b \<leftarrow> inportb hw CMOS_DATA;
          State_Monad.return (ucast b AND 0x80) }"

partial_function (option) same_register :: "hardware \<Rightarrow> i32 \<Rightarrow> trace \<Rightarrow> trace option" where
  "same_register hw old tr =
     (case run_state (RTCgetRegister hw 0x0) tr of (b, tr) \<Rightarrow>
        if ucast b = old then same_register hw old tr else Some tr)"

definition RTCwaitUpdate :: "hardware \<Rightarrow> trace \<Rightarrow> trace option" where
  "RTCwaitUpdate hw tr =
     (case run_state (RTCgetRegister hw 0x0) tr of (old, tr) \<Rightarrow> same_register hw (ucast old) tr)"

partial_function (option) while_updating :: "hardware \<Rightarrow> trace \<Rightarrow> trace option" where
  "while_updating hw tr =
     (case run_state (RTCgetUpdateInProgress hw) tr of (b, tr) \<Rightarrow>
        if b \<noteq> 0 then while_updating hw tr else Some tr)"

definition read_bcd :: "hardware \<Rightarrow> i32 \<Rightarrow> trace \<Rightarrow> (u32 \<times> trace) option" where
  "read_bcd hw reg tr =
     do { tr \<leftarrow> while_updating hw tr;
          let (b, tr) = run_state (RTCgetRegister hw reg) tr;
          Some (BCDToBinary (ucast b), tr) }"

definition RTCreadSeconds :: "hardware \<Rightarrow> trace \<Rightarrow> (u32 \<times> trace) option" where
  "RTCreadSeconds hw = read_bcd hw 0x0"

definition RTCreadHours :: "hardware \<Rightarrow> trace \<Rightarrow> (u32 \<times> trace) option" where
  "RTCreadHours hw = read_bcd hw 0x4"

definition RTCreadMinutes :: "hardware \<Rightarrow> trace \<Rightarrow> (u32 \<times> trace) option" where
  "RTCreadMinutes hw = read_bcd hw 0x2"

definition RTCreadDay :: "hardware \<Rightarrow> trace \<Rightarrow> (u32 \<times> trace) option" where
  "RTCreadDay hw = read_bcd hw 0x7"

definition RTCreadMonth :: "hardware \<Rightarrow> trace \<Rightarrow> (u32 \<times> trace) option" where
  "RTCreadMonth hw = read_bcd hw 0x8"

definition RTCreadYear :: "hardware \<Rightarrow> trace \<Rightarrow> (u32 \<times> trace) option" where
  "RTCreadYear hw = read_bcd hw 0x9"

text \<open>The operands are evaluated from left to right, as the compiler of the project does.\<close>

definition RTCreadTime :: "hardware \<Rightarrow> trace \<Rightarrow> (u32 \<times> trace) option" where
  "RTCreadTime hw tr =
     do { (h, tr) \<leftarrow> RTCreadHours hw tr;
          (m, tr) \<leftarrow> RTCreadMinutes hw tr;
          (s, tr) \<leftarrow> RTCreadSeconds hw tr;
          Some (h * 3600 + m * 60 + s, tr) }"

partial_function (option) until_time :: "hardware \<Rightarrow> u32 \<Rightarrow> trace \<Rightarrow> trace option" where
  "until_time hw lastsec tr =
     Option.bind (RTCreadTime hw tr)
       (\<lambda>(t, tr). if lastsec \<noteq> t then until_time hw lastsec tr else Some tr)"

definition RTCwaitSeconds :: "hardware \<Rightarrow> u32 \<Rightarrow> trace \<Rightarrow> trace option" where
  "RTCwaitSeconds hw secs tr =
     do { tr \<leftarrow> RTCwaitUpdate hw tr;
          (t, tr) \<leftarrow> RTCreadTime hw tr;
          until_time hw (t + secs) tr }"

section \<open>The interval timer\<close>

text \<open>The code counts time in \<open>double\<close>s, with the operations \<open>double_ops\<close>.\<close>

record 'd pit =
  TimeSinceBoot :: 'd
  Divisor :: u16

definition pit_boot :: "'d double_ops \<Rightarrow> 'd pit" where
  "pit_boot fp = \<lparr>TimeSinceBoot = d_zero fp, Divisor = 65535\<rparr>"

definition PITBaseFrequency :: u64 where "PITBaseFrequency = 1193182"

definition PITSetDivisor :: "u16 \<Rightarrow> 'd pit \<Rightarrow> trace \<Rightarrow> 'd pit \<times> trace" where
  "PITSetDivisor divisor p tr =
     (p\<lparr>Divisor := divisor\<rparr>,
      snd (run_state (do { outportb 0x40 (ucast (divisor AND 0x00FF));
                           io_wait;
                           outportb 0x40 (ucast (drop_bit 8 (divisor AND 0xFF00))) }) tr))"

definition PITGetFrequency :: "'d pit \<Rightarrow> u64 result" where
  "PITGetFrequency p =
     (if Divisor p = 0 then Inl DivideError else Inr (PITBaseFrequency div ucast (Divisor p)))"

definition PITSetFrequency :: "u64 \<Rightarrow> 'd pit \<Rightarrow> trace \<Rightarrow> ('d pit \<times> trace) result" where
  "PITSetFrequency frequency p tr =
     (if frequency = 0 then Inl DivideError
      else Inr (PITSetDivisor (ucast (PITBaseFrequency div frequency)) p tr))"

definition PITTick :: "'d double_ops \<Rightarrow> 'd pit \<Rightarrow> 'd pit result" where
  "PITTick fp p =
     rbind (PITGetFrequency p) (\<lambda>f.
       Inr (p\<lparr>TimeSinceBoot := d_add fp (TimeSinceBoot p) (d_div fp (d_of_u64 fp 1) (d_of_u64 fp f))\<rparr>))"

text \<open>Every \<open>hlt\<close> of the wait ends with an interrupt of the timer, which ticks.\<close>

partial_function (option) sleep_until ::
    "'d double_ops \<Rightarrow> 'd \<Rightarrow> 'd pit \<Rightarrow> trace \<Rightarrow> ('d pit \<times> trace) result option" where
  "sleep_until fp t p tr =
     (if d_less fp (TimeSinceBoot p) t
      then (case PITTick fp p of
              Inl e \<Rightarrow> Some (Inl e)
            | Inr p \<Rightarrow> sleep_until fp t p (tr @ [Hlt]))
      else Some (Inr (p, tr)))"

definition PITSleep ::
    "'d double_ops \<Rightarrow> 'd \<Rightarrow> 'd pit \<Rightarrow> trace \<Rightarrow> ('d pit \<times> trace) result option" where
  "PITSleep fp seconds p tr = sleep_until fp (d_add fp (TimeSinceBoot p) seconds) p tr"

definition PITSleep_ms ::
    "'d double_ops \<Rightarrow> u64 \<Rightarrow> 'd pit \<Rightarrow> trace \<Rightarrow> ('d pit \<times> trace) result option" where
  "PITSleep_ms fp ms p tr = PITSleep fp (d_div fp (d_of_u64 fp ms) (d_of_u64 fp 1000)) p tr"

definition PIT2SetFreq :: "u32 \<Rightarrow> trace \<Rightarrow> trace result" where
  "PIT2SetFreq frequency tr =
     (if frequency = 0 then Inl DivideError
      else let zdivisor = ucast (PITBaseFrequency div ucast frequency) :: i32
           in Inr (snd (run_state (do { outportb 0x43 0xb6;
                                        outportb 0x42 (ucast (zdivisor AND 0xFF));
                                        outportb 0x42 (ucast (signed_drop_bit 8 zdivisor)) }) tr)))"

section \<open>Readings\<close>

lemma BCD_digits:
  assumes "d1 \<le> 9" and "d0 \<le> 9"
  shows "BCDToBinary (of_nat (16 * d1 + d0)) = of_nat (10 * d1 + d0)"
proof -
  have u: "unat (of_nat (16 * d1 + d0) :: u32) = 16 * d1 + d0" using assms by (intro unat_of_nat32) simp
  have "of_nat (16 * d1 + d0) div 16 = (of_nat d1 :: u32)"
    using u assms by (intro unsigned_word_eqI [where 'a = nat]) (simp add: unat_div unat_of_nat32)
  moreover have "of_nat (16 * d1 + d0) AND 0x0F = (of_nat d0 :: u32)"
  proof -
    have "(0x0F :: u32) = mask 4" by (simp add: mask_eq_exp_minus_1)
    then have "of_nat (16 * d1 + d0) AND 0x0F = take_bit 4 (of_nat (16 * d1 + d0) :: u32)"
      by (simp only: take_bit_eq_mask)
    also have "\<dots> = of_nat d0"
      using u assms by (intro unsigned_word_eqI [where 'a = nat]) (simp add: unat_of_nat32 unsigned_take_bit_eq take_bit_eq_mod unat_mod)
    finally show ?thesis .
  qed
  ultimately show ?thesis by (simp add: BCDToBinary_def)
qed

text \<open>The \<open>n\<close>-th reading of the time from a point on.\<close>

fun reading :: "nat \<Rightarrow> hardware \<Rightarrow> trace \<Rightarrow> u32 option" where
  "reading 0 hw tr = map_option fst (RTCreadTime hw tr)"
| "reading (Suc n) hw tr = Option.bind (RTCreadTime hw tr) (\<lambda>(_, tr). reading n hw tr)"

lemma until_time_found:
  "reading n hw tr = Some t \<Longrightarrow> until_time hw t tr \<noteq> None"
proof (induction n arbitrary: tr)
  case 0
  then show ?case by (subst until_time.simps) (auto split: if_splits)
next
  case (Suc n)
  then obtain s tr1 where "RTCreadTime hw tr = Some (s, tr1)" "reading n hw tr1 = Some t"
    by (auto simp: Option.bind_eq_Some_conv)
  with Suc.IH show ?case by (subst until_time.simps) auto
qed

lemma until_time_returns:
  assumes "until_time hw t tr = Some tr'"
  shows "\<exists>n. reading n hw tr = Some t"
proof (rule until_time.raw_induct [where P = "\<lambda>hw t tr _. \<exists>n. reading n hw tr = Some t", OF _ assms])
  fix loop hw lastsec tr y
  assume IH: "\<And>hw lastsec tr y. loop hw lastsec tr = Some y \<Longrightarrow> \<exists>n. reading n hw tr = Some lastsec"
    and "RTCreadTime hw tr \<bind> (\<lambda>(t, tr). if lastsec \<noteq> t then loop hw lastsec tr else Some tr) = Some y"
  then obtain s tr1 where r: "RTCreadTime hw tr = Some (s, tr1)"
    and l: "(if lastsec \<noteq> s then loop hw lastsec tr1 else Some tr1) = Some y"
    by (auto simp: Option.bind_eq_Some_conv)
  show "\<exists>n. reading n hw tr = Some lastsec"
  proof (cases "lastsec = s")
    case True
    then have "reading 0 hw tr = Some lastsec" using r by simp
    then show ?thesis by blast
  next
    case False
    with l IH obtain n where "reading n hw tr1 = Some lastsec" by fastforce
    then have "reading (Suc n) hw tr = Some lastsec" using r by simp
    then show ?thesis by blast
  qed
qed

lemma until_time_iff: "until_time hw t tr \<noteq> None \<longleftrightarrow> (\<exists>n. reading n hw tr = Some t)"
  using until_time_found until_time_returns by (metis not_None_eq)

text \<open>A clock whose registers hold a time of day in BCD, and no update is ever reported.\<close>

definition bcd :: "nat \<Rightarrow> u8" where
  "bcd n = of_nat (16 * (n div 10) + n mod 10)"

definition shows_time_of_day :: "hardware \<Rightarrow> bool" where
  "shows_time_of_day hw \<longleftrightarrow>
     (\<forall>tr. \<not> bit (in_b hw (tr @ [OutB 0x70 0x0A]) 0x71) 7) \<and>
     (\<forall>tr. \<exists>h < 24. in_b hw (tr @ [OutB 0x70 0x4]) 0x71 = bcd h) \<and>
     (\<forall>tr. \<exists>m < 60. in_b hw (tr @ [OutB 0x70 0x2]) 0x71 = bcd m) \<and>
     (\<forall>tr. \<exists>s < 60. in_b hw (tr @ [OutB 0x70 0x0]) 0x71 = bcd s)"

lemma BCD_bcd: "n < 100 \<Longrightarrow> BCDToBinary (ucast (bcd n)) = of_nat n"
proof -
  assume n: "n < 100"
  have "unat (bcd n) = 16 * (n div 10) + n mod 10"
  proof -
    have "16 * (n div 10) + n mod 10 < 256" using n by linarith
    then show ?thesis unfolding bcd_def by (simp add: unat_of_nat del: of_nat_add of_nat_mult)
  qed
  then have "(ucast (bcd n) :: u32) = of_nat (16 * (n div 10) + n mod 10)"
    by (simp only: ucast_eq_of_nat)
  moreover have "n div 10 \<le> 9" "n mod 10 \<le> 9" using n by linarith+
  ultimately show ?thesis using BCD_digits [of "n div 10" "n mod 10"] by simp
qed

lemma while_updating_idle:
  "shows_time_of_day hw \<Longrightarrow> while_updating hw tr = Some (tr @ [OutB 0x70 0x0A, InB 0x71])"
proof -
  assume "shows_time_of_day hw"
  then have "\<not> bit (in_b hw (tr @ [OutB 0x70 0x0A]) 0x71) 7" by (simp add: shows_time_of_day_def)
  then have "(ucast (in_b hw (tr @ [OutB 0x70 0x0A]) 0x71) :: i32) AND 0x80 = 0"
    using and_exp_eq_0_iff_not_bit [of "ucast (in_b hw (tr @ [OutB 0x70 0x0A]) 0x71) :: i32" 7]
    by (simp add: bit_ucast_iff del: and_exp_eq_0_iff_not_bit)
  then show ?thesis
    by (subst while_updating.simps)
       (simp add: RTCgetUpdateInProgress_def port_defs CMOS_ADDRESS_def CMOS_DATA_def)
qed

lemma RTCreadTime_of_day:
  assumes "shows_time_of_day hw"
  shows "\<exists>t tr'. RTCreadTime hw tr = Some (t, tr') \<and> unat t < 86400"
proof -
  have rd: "read_bcd hw reg tr = Some (of_nat n, tr @ [OutB 0x70 0x0A, InB 0x71, OutB 0x70 (ucast reg), InB 0x71])"
    if "in_b hw (tr @ [OutB 0x70 0x0A, InB 0x71, OutB 0x70 (ucast reg)]) 0x71 = bcd n" "n < 100" for reg tr n
    using that by (simp add: read_bcd_def while_updating_idle [OF assms] RTCgetRegister_def port_defs
        CMOS_ADDRESS_def CMOS_DATA_def BCD_bcd)
  define E where "E = [OutB 0x70 0x0A, InB 0x71]"
  obtain h where h: "h < 24" "in_b hw ((tr @ E) @ [OutB 0x70 0x4]) 0x71 = bcd h"
    using assms unfolding shows_time_of_day_def by blast
  define t1 where "t1 = tr @ E @ [OutB 0x70 0x4, InB 0x71]"
  obtain m where m: "m < 60" "in_b hw ((t1 @ E) @ [OutB 0x70 0x2]) 0x71 = bcd m"
    using assms unfolding shows_time_of_day_def by blast
  define t2 where "t2 = t1 @ E @ [OutB 0x70 0x2, InB 0x71]"
  obtain s where s: "s < 60" "in_b hw ((t2 @ E) @ [OutB 0x70 0x0]) 0x71 = bcd s"
    using assms unfolding shows_time_of_day_def by blast
  have r: "RTCreadHours hw tr = Some (of_nat h, t1)" "RTCreadMinutes hw t1 = Some (of_nat m, t2)"
    "RTCreadSeconds hw t2 = Some (of_nat s, t2 @ E @ [OutB 0x70 0x0, InB 0x71])"
    using h m s rd [of tr "0x4" h] rd [of t1 "0x2" m] rd [of t2 "0x0" s]
    by (simp_all add: RTCreadHours_def RTCreadMinutes_def RTCreadSeconds_def E_def t1_def t2_def)
  have v: "of_nat h * 3600 + of_nat m * 60 + of_nat s = (of_nat (h * 3600 + m * 60 + s) :: u32)"
    by simp
  have bd: "h * 3600 + m * 60 + s < 86400" using h(1) m(1) s(1) by linarith
  then have "unat (of_nat (h * 3600 + m * 60 + s) :: u32) < 86400"
    by (subst unat_of_nat32) simp_all
  then have "unat (of_nat h * 3600 + of_nat m * 60 + of_nat s :: u32) < 86400" by (simp only: v)
  moreover have "RTCreadTime hw tr = Some (of_nat h * 3600 + of_nat m * 60 + of_nat s,
      t2 @ E @ [OutB 0x70 0x0, InB 0x71])"
    by (simp add: RTCreadTime_def r)
  ultimately show ?thesis by blast
qed

lemma reading_of_day:
  "shows_time_of_day hw \<Longrightarrow> \<exists>t. reading n hw tr = Some t \<and> unat t < 86400"
proof (induction n arbitrary: tr)
  case 0
  then show ?case using RTCreadTime_of_day [of hw tr] by auto
next
  case (Suc n)
  then show ?case using RTCreadTime_of_day [of hw tr] by auto
qed

section \<open>Properties\<close>


definition late_clock :: hardware where
  "late_clock = \<lparr>in_b = (\<lambda>tr port. case last tr of
       OutB _ v \<Rightarrow> if v = 4 then 0x23 else if v = 2 then 0x59
                  else if v = 0 then (if length tr < 2 then 0x58 else 0x59) else 0
     | _ \<Rightarrow> 0), in_w = (\<lambda>_ _. 0), in_l = (\<lambda>_ _. 0), msr = (\<lambda>_ _. 0)\<rparr>"

lemma late_clock_time: "shows_time_of_day late_clock"
proof -
  have "\<exists>h < 24. (0x23 :: u8) = bcd h" by (rule exI [of _ 23]) (simp add: bcd_def)
  moreover have "\<exists>m < 60. (0x58 :: u8) = bcd m" by (rule exI [of _ 58]) (simp add: bcd_def)
  moreover have "\<exists>m < 60. (0x59 :: u8) = bcd m" by (rule exI [of _ 59]) (simp add: bcd_def)
  ultimately show ?thesis by (simp add: shows_time_of_day_def late_clock_def)
qed

lemma late_clock_read:
  "read_bcd late_clock reg tr = Some (BCDToBinary (ucast (in_b late_clock
      (tr @ [OutB 0x70 0x0A, InB 0x71, OutB 0x70 (ucast reg)]) 0x71)),
    tr @ [OutB 0x70 0x0A, InB 0x71, OutB 0x70 (ucast reg), InB 0x71])"
  by (simp add: read_bcd_def while_updating_idle [OF late_clock_time] RTCgetRegister_def port_defs
      CMOS_ADDRESS_def CMOS_DATA_def)


text \<open>
  Setting the frequency of the timer, on every argument: zero is a division fault; otherwise the
  divisor is the base frequency divided by it, truncated to 16 bits, and goes out low byte first.
  The frequency that follows is the base divided by that divisor, and where the truncated divisor
  is zero, as for every frequency above the base, the next tick is a division fault.
\<close>

theorem PITSetFrequency_divides:
  "case PITSetFrequency f p tr of
     Inl e \<Rightarrow> e = DivideError \<and> f = 0
   | Inr (p', tr') \<Rightarrow> f \<noteq> 0 \<and> unat (Divisor p') = 1193182 div unat f mod 65536 \<and>
       tr' = tr @ [OutB 0x40 (ucast (Divisor p')), OutB 0x80 0, OutB 0x40 (ucast (drop_bit 8 (Divisor p')))] \<and>
       PITGetFrequency p' =
         (if 1193182 div unat f mod 65536 = 0 then Inl DivideError
          else Inr (of_nat (1193182 div (1193182 div unat f mod 65536)))) \<and>
       (1193182 < unat f \<longrightarrow> PITTick fp p' = Inl DivideError)"
proof (cases "f = 0")
  case False
  define d where "d = (ucast (PITBaseFrequency div f) :: u16)"
  have d: "unat d = 1193182 div unat f mod 65536"
    by (simp add: d_def PITBaseFrequency_def unsigned_ucast_eq unsigned_take_bit_eq take_bit_eq_mod unat_div)
  then have z: "d = 0 \<longleftrightarrow> 1193182 div unat f mod 65536 = 0" by (metis unat_eq_0)
  have b: "ucast (d AND 0x00FF) = (ucast d :: u8)" "ucast (drop_bit 8 (d AND 0xFF00)) = (ucast (drop_bit 8 d) :: u8)"
  proof -
    have m: "(0x00FF :: u16) = mask 8" "(0xFF00 :: u16) = push_bit 8 (mask 8)"
      by (simp_all add: mask_eq_exp_minus_1 push_bit_eq_mult)
    show "ucast (d AND 0x00FF) = (ucast d :: u8)" "ucast (drop_bit 8 (d AND 0xFF00)) = (ucast (drop_bit 8 d) :: u8)"
      unfolding m by (rule bit_word_eqI; auto simp: bit_simps dest: bit_imp_le_length)+
  qed
  have q: "PITBaseFrequency div ucast d = of_nat (1193182 div (1193182 div unat f mod 65536))"
  proof (rule unsigned_word_eqI [where 'a = nat])
    have "1193182 div k < (18446744073709551616 :: nat)" for k by (rule le_less_trans [OF div_le_dividend]) simp
    then show "unat (PITBaseFrequency div ucast d) = unat (of_nat (1193182 div (1193182 div unat f mod 65536)) :: u64)"
      by (simp add: PITBaseFrequency_def unat_div unat_of_nat64 unsigned_ucast_eq d unat_less_65536
          take_bit_nat_eq_self)
  qed
  have "1193182 div unat f = 0" if "1193182 < unat f" using that by simp
  then show ?thesis
    using False d z b q
    by (auto simp: PITSetFrequency_def PITSetDivisor_def port_defs d_def [symmetric] PITGetFrequency_def
        PITTick_def)
qed (simp add: PITSetFrequency_def)

theorem PITSetFrequency_divides_witness:
  "\<exists>p' tr'. PITSetFrequency 100 \<lparr>TimeSinceBoot = (), Divisor = 0\<rparr> [] = Inr (p', tr') \<and>
     PITGetFrequency p' = Inr 100"
  using PITSetFrequency_divides [where f = 100 and p = "\<lparr>TimeSinceBoot = (), Divisor = 0\<rparr>"
      and tr = "[]" and fp = "\<lparr>d_zero = (), d_of_u64 = (\<lambda>_. ()), d_add = (\<lambda>_ _. ()), d_div = (\<lambda>_ _. ()), d_less = (\<lambda>_ _. False),
        d_sub = (\<lambda>_ _. ()), d_mul = (\<lambda>_ _. ()), d_of_int = (\<lambda>_. ()), d_to_i64 = (\<lambda>_. 0), d_to_int = (\<lambda>_. 0)\<rparr>"]
  by (auto split: sum.splits)

end
