(* ===== verification/Terminal.thy ===== *)
theory Terminal
  imports DoubleString Clock PageFrameAllocator
begin

unbundle bit_operations_syntax

text \<open>
  The virtual terminals, \<open>terminal/terminal.cpp\<close>, and what writes to them: \<open>printf\<close>
  (\<open>libc/stdio/printf.cpp\<close>), the log (\<open>misc/logging/log.cpp\<close>) and the list of the SMBIOS
  entries (\<open>misc/smbios/smbios.cpp\<close>).
\<close>

section \<open>The terminals\<close>

record vterminal =
  vt_buffer :: u64
  maxLen :: u32
  vt_index :: u32
  initialized :: bool

definition vt_init :: "u32 \<Rightarrow> vterminal \<Rightarrow> pfa \<Rightarrow> (vterminal \<times> pfa) option" where
  "vt_init len vt p =
     (if initialized vt then Some (vt, p)
      else map_option (\<lambda>(b, p). (vt\<lparr>initialized := True, maxLen := len, vt_index := 0, vt_buffer := b\<rparr>, p))
             (RequestPages (ucast (len div 4096)) p))"

definition vt_append :: "u64 \<Rightarrow> vterminal \<times> mem \<Rightarrow> (vterminal \<times> mem) option" where
  "vt_append string = (\<lambda>(vt, m).
     let (vt, m) = (if vt_index vt \<ge> maxLen vt
                    then (vt\<lparr>vt_index := 0\<rparr>, memset (vt_buffer vt) 0 (ucast (maxLen vt)) m)
                    else (vt, m))
     in do { n \<leftarrow> strlen m string;
             let m = memcpy (vt_buffer vt + ucast (vt_index vt)) string (sext (n + 1)) m;
             n \<leftarrow> strlen m string;
             Some (vt\<lparr>vt_index := vt_index vt + (n + 1)\<rparr>, m) })"

text \<open>The array and \<open>CurrentTerminal\<close>; an index outside the array reaches the memory behind it.\<close>

record terminals =
  VirtualTerminals :: "u32 \<Rightarrow> vterminal"
  CurrentTerminal :: u32
  t_mem :: mem

definition append_current :: "u64 \<Rightarrow> terminals \<Rightarrow> terminals option" where
  "append_current string t =
     (let c = CurrentTerminal t
      in do { (vt, m) \<leftarrow> vt_append string (VirtualTerminals t c, t_mem t);
              Some (t\<lparr>VirtualTerminals := (VirtualTerminals t)(c := vt), t_mem := m\<rparr>) })"

section \<open>printf\<close>

text \<open>
  A \<open>va_list\<close> is a position in the integer arguments and one in the floating point ones; behind
  the last argument the sequences go on with what the stack holds.  The static buffers of the
  conversions are at the addresses of \<open>buffers\<close>, and \<open>size0\<close> and \<open>stack\<close> are the uninitialised
  count and the bytes behind a value that these routines read.
\<close>

record 'd va_list =
  gp :: "nat \<Rightarrow> u64"
  fp_args :: "nat \<Rightarrow> 'd"
  gp_pos :: nat
  fp_pos :: nat

record buffers =
  chartostrOutput :: u64
  uintTo_StringOutput :: u64
  intTo_StringOutput :: u64
  doubleTo_StringOutput :: u64
  hexTo_StringOutput :: u64
  size0 :: u8
  stack :: "nat \<Rightarrow> u8"

definition va_int :: "'d va_list \<Rightarrow> u64 \<times> 'd va_list" where
  "va_int v = (gp v (gp_pos v), v\<lparr>gp_pos := gp_pos v + 1\<rparr>)"

definition va_double :: "'d va_list \<Rightarrow> 'd \<times> 'd va_list" where
  "va_double v = (fp_args v (fp_pos v), v\<lparr>fp_pos := fp_pos v + 1\<rparr>)"

text \<open>One directive: the state afterwards and the step of the index beyond one.\<close>

definition directive ::
    "'d double_ops \<Rightarrow> buffers \<Rightarrow> u8 \<Rightarrow> u8 \<Rightarrow> 'd va_list \<times> terminals \<Rightarrow> (i32 \<times> 'd va_list \<times> terminals) option" where
  "directive fp b c1 c2 = (\<lambda>(v, t).
     let out = (\<lambda>p v m. do { t \<leftarrow> append_current p (t\<lparr>t_mem := m\<rparr>); Some (0 :: i32, v, t) });
         m = t_mem t
     in if c1 = 100 then
          (let (a, v) = va_int v
           in out (uintTo_StringOutput b) v (inttostr_int (uintTo_StringOutput b) (size0 b) (ucast a) m))
        else if c1 = 117 then
          (let (a, v) = va_int v
           in out (uintTo_StringOutput b) v (inttostr (uintTo_StringOutput b) (size0 b) a m))
        else if c1 = 120 then
          (let (a, v) = va_int v
           in out (hexTo_StringOutput b) v (inttohstr64 (hexTo_StringOutput b) (stack b) a m))
        else if c1 = 102 then
          (let (a, v) = va_double v
           in do { m \<leftarrow> inttostr_double2 fp (intTo_StringOutput b) (doubleTo_StringOutput b) (size0 b) a m;
                   out (doubleTo_StringOutput b) v m })
        else if c1 = 99 \<and> c2 \<noteq> 111 then
          (let (a, v) = va_int v
           in out (chartostrOutput b) v (chartostr (chartostrOutput b) (ucast a) m))
        else if c1 = 115 then (let (a, v) = va_int v in out a v m)
        else if c1 = 112 then
          (let (a, v) = va_int v
           in out (uintTo_StringOutput b) v (inttostr (uintTo_StringOutput b) (size0 b) a m))
        else if c1 = 99 \<and> c2 = 111 then (let (a, v) = va_int v in Some (1, v, t))
        else Some (0, v, t))"

partial_function (option) printf_loop ::
    "'d double_ops \<Rightarrow> buffers \<Rightarrow> u64 \<Rightarrow> i32 \<Rightarrow> 'd va_list \<times> terminals \<Rightarrow> terminals option" where
  "printf_loop fp b str index s =
     (let m = t_mem (snd s); c = m (str + sext index)
      in if c = 0 then Some (snd s)
         else if c = 37
         then Option.bind (directive fp b (m (str + sext (index + 1))) (m (str + sext (index + 2))) s)
                (\<lambda>(k, s). printf_loop fp b str (index + k + 1 + 1) s)
         else Option.bind (append_current (chartostrOutput b)
                  ((snd s)\<lparr>t_mem := chartostr (chartostrOutput b) c m\<rparr>))
                (\<lambda>t. printf_loop fp b str (index + 1) (fst s, t)))"

definition vprintf ::
    "'d double_ops \<Rightarrow> buffers \<Rightarrow> u64 \<Rightarrow> 'd va_list \<Rightarrow> terminals \<Rightarrow> terminals option" where
  "vprintf fp b str list t = printf_loop fp b str 0 (list, t)"

definition printf ::
    "'d double_ops \<Rightarrow> buffers \<Rightarrow> u64 \<Rightarrow> 'd va_list \<Rightarrow> terminals \<Rightarrow> terminals option" where
  "printf fp b str args t = vprintf fp b str args t"

definition printf_to ::
    "'d double_ops \<Rightarrow> buffers \<Rightarrow> u32 \<Rightarrow> u64 \<Rightarrow> 'd va_list \<Rightarrow> terminals \<Rightarrow> terminals option" where
  "printf_to fp b vt str args t =
     (let tmp = CurrentTerminal t
      in map_option (\<lambda>t. t\<lparr>CurrentTerminal := tmp\<rparr>) (vprintf fp b str args (t\<lparr>CurrentTerminal := vt\<rparr>)))"

section \<open>The log\<close>

text \<open>
  The arguments of the log lines: a colour, the time, a colour and the text, which is the last.
  The clock is read from the last argument to the first, as the compiler of the project does.
\<close>

definition log_args :: "(nat \<Rightarrow> 'd) \<Rightarrow> u64 list \<Rightarrow> (nat \<Rightarrow> u64) \<Rightarrow> 'd va_list" where
  "log_args fs as rest = \<lparr>gp = (\<lambda>i. if i < length as then as ! i else rest i), fp_args = fs,
     gp_pos = 0, fp_pos = 0\<rparr>"

definition log_line ::
    "'d double_ops \<Rightarrow> buffers \<Rightarrow> hardware \<Rightarrow> (nat \<Rightarrow> 'd) \<Rightarrow> (nat \<Rightarrow> u64) \<Rightarrow> u64 \<Rightarrow> u64 \<Rightarrow> u64 \<Rightarrow>
      terminals \<times> trace \<Rightarrow> (terminals \<times> trace) option" where
  "log_line fp b hw fs rest fmt clr text = (\<lambda>(t, tr).
     do { (s, tr) \<leftarrow> RTCreadSeconds hw tr;
          (mi, tr) \<leftarrow> RTCreadMinutes hw tr;
          (h, tr) \<leftarrow> RTCreadHours hw tr;
          t \<leftarrow> printf_to fp b 0 fmt
                 (log_args fs [clr, ucast h, ucast mi, ucast s, 0xffffff, text] rest) t;
          Some (t, tr) })"

text \<open>The three levels differ in the format, whose address is an argument, and in the colour.\<close>

definition LogInfo where "LogInfo fp b hw fs rest fmt text s = log_line fp b hw fs rest fmt 0x6060ff text s"
definition LogWarn where "LogWarn fp b hw fs rest fmt text s = log_line fp b hw fs rest fmt 0xffff00 text s"
definition LogError where "LogError fp b hw fs rest fmt text s = log_line fp b hw fs rest fmt 0xff0000 text s"

section \<open>SMBIOS\<close>

text \<open>
  \<open>TableLength\<close> is at offset 22 and \<open>TableAddress\<close> at 24.  \<open>entry += n\<close> on a pointer to the
  four-byte \<open>SMBiosEntry\<close> moves by \<open>4 * n\<close> bytes.
\<close>

partial_function (option) smbios_loop ::
    "'d double_ops \<Rightarrow> buffers \<Rightarrow> (nat \<Rightarrow> 'd) \<Rightarrow> (nat \<Rightarrow> u64) \<Rightarrow> u64 \<Rightarrow> u64 \<Rightarrow> i32 \<Rightarrow> u64 \<Rightarrow> terminals \<Rightarrow> terminals option" where
  "smbios_loop fp b fs rest fmt hdr i entry t =
     (if sint i < sint (ucast (load16 (t_mem t) (hdr + 22)) :: i32)
      then Option.bind (printf fp b fmt (log_args fs [ucast (t_mem t entry)] rest) t)
             (\<lambda>t. smbios_loop fp b fs rest fmt hdr (i + 1)
                    (entry + 4 * (ucast (t_mem t (entry + 1)) + 4)) t)
      else Some t)"

definition SMBiosParse ::
    "'d double_ops \<Rightarrow> buffers \<Rightarrow> (nat \<Rightarrow> 'd) \<Rightarrow> (nat \<Rightarrow> u64) \<Rightarrow> u64 \<Rightarrow> u64 \<Rightarrow> u64 \<Rightarrow> u64 \<Rightarrow> terminals \<Rightarrow> terminals option" where
  "SMBiosParse fp b fs rest fmt_entries fmt_u fmt_newline hdr t =
     (let entry = ucast (load32 (t_mem t) (hdr + 24)); n = load16 (t_mem t) (hdr + 22)
      in do { t \<leftarrow> printf fp b fmt_entries (log_args fs [ucast n] rest) t;
              t \<leftarrow> smbios_loop fp b fs rest fmt_u hdr 0 entry t;
              printf fp b fmt_newline (log_args fs [] rest) t })"

end
