(* ===== verification/Display.thy ===== *)
theory Display
  imports CString
begin

unbundle bit_operations_syntax

text \<open>
  The text display, \<open>drivers/display/display.cpp\<close>, and the interpreter of escape sequences that
  writes on it, \<open>terminal/ansi.cpp\<close>.  The frame buffers and the font are in memory.
\<close>

section \<open>Colours\<close>

definition BLACK :: u64 where "BLACK = 0"
definition LIGHTBLUE :: u64 where "LIGHTBLUE = 0x6060ff"
definition LIGHTGREEN :: u64 where "LIGHTGREEN = 0x00ff00"
definition LIGHTTURQOISE :: u64 where "LIGHTTURQOISE = 0x00ffff"
definition LIGHTRED :: u64 where "LIGHTRED = 0xff0000"
definition YELLOW :: u64 where "YELLOW = 0xffff00"
definition WHITE :: u64 where "WHITE = 0xffffff"
definition LIGHTMAGENTA :: u64 where "LIGHTMAGENTA = 0x7e38ff"

section \<open>The display\<close>

record display_buffer =
  BaseAddr :: u64
  BufferSize :: u64
  Width :: u64
  Height :: u64
  PixelPerScanLine :: u64

record psf_font =
  charsize :: u8
  glyphBuffer :: u64

record display =
  secondFrameBuffer :: display_buffer
  globalFrameBuffer :: display_buffer
  globalFont :: psf_font
  CursorX :: u32
  CursorY :: u32
  colour :: u64

definition getWidth :: "display \<Rightarrow> u64" where "getWidth d = Width (globalFrameBuffer d)"
definition getHeight :: "display \<Rightarrow> u64" where "getHeight d = Height (globalFrameBuffer d)"

definition InitDoubleBuffer :: "display_buffer \<Rightarrow> display \<Rightarrow> display" where
  "InitDoubleBuffer f d = d\<lparr>secondFrameBuffer := f\<rparr>"

definition InitDisplayDriver :: "display_buffer \<Rightarrow> psf_font \<Rightarrow> display \<Rightarrow> display" where
  "InitDisplayDriver framebuf font d =
     d\<lparr>globalFont := font, globalFrameBuffer := framebuf, colour := 0xffffff\<rparr>"

definition setCursorPos :: "i32 \<Rightarrow> i32 \<Rightarrow> display \<Rightarrow> display" where
  "setCursorPos x y d = d\<lparr>CursorX := x, CursorY := y\<rparr>"

definition putpix :: "i32 \<Rightarrow> i32 \<Rightarrow> u32 \<Rightarrow> display \<Rightarrow> mem \<Rightarrow> mem" where
  "putpix x y clr d m =
     (let b = secondFrameBuffer d
      in store32 (sext (x * 4) + PixelPerScanLine b * sext y * 4 + BaseAddr b) clr m)"

definition putpix_current :: "i32 \<Rightarrow> i32 \<Rightarrow> display \<Rightarrow> mem \<Rightarrow> mem" where
  "putpix_current x y d m =
     (let b = secondFrameBuffer d
      in store32 (sext (x * 4) + PixelPerScanLine b * sext y * 4 + BaseAddr b) (ucast (colour d)) m)"

text \<open>
  A glyph of 16 rows and 8 columns.  The character is signed when it indexes the font; the bounds
  \<open>yy + 16\<close> and \<open>xx + 8\<close> are 32 bits wide, the counters 64.
\<close>

definition glyph_pixel :: "display \<Rightarrow> u64 \<Rightarrow> u64 \<Rightarrow> u64 \<Rightarrow> u64 \<Rightarrow> mem \<Rightarrow> mem" where
  "glyph_pixel d fontPtr xx x y m =
     (if sint (scast (m fontPtr) AND (signed_drop_bit (unat (x - xx)) 0b10000000 :: i32)) > 0
      then store32 (BaseAddr (secondFrameBuffer d) + 4 * (x + y * PixelPerScanLine (secondFrameBuffer d)))
             (ucast (colour d)) m
      else m)"

definition putc_at :: "u8 \<Rightarrow> u32 \<Rightarrow> u32 \<Rightarrow> display \<Rightarrow> mem \<Rightarrow> mem" where
  "putc_at ch xx yy d m =
     (let fontPtr = glyphBuffer (globalFont d) + sext (scast ch * ucast (charsize (globalFont d)))
      in snd (fold (\<lambda>y (fontPtr, m).
           (fontPtr + 1,
            fold (\<lambda>x. glyph_pixel d fontPtr (ucast xx) (of_nat x) (of_nat y)) [unat xx..<unat (xx + 8)] m))
           [unat yy..<unat (yy + 16)] (fontPtr, m)))"

definition secondBufferPixels :: "display \<Rightarrow> u64" where
  "secondBufferPixels d = BufferSize (secondFrameBuffer d) mod 4"

definition lastLineOfCharacters :: "display \<Rightarrow> u64" where
  "lastLineOfCharacters d = getWidth d * 4 * 16"

definition scroll :: "display \<Rightarrow> mem \<Rightarrow> mem" where
  "scroll d m =
     (let base = BaseAddr (secondFrameBuffer d); sz = BufferSize (globalFrameBuffer d);
          p = secondBufferPixels d; l = lastLineOfCharacters d;
          m = memcpy (base - p) (base + l - p) (sz - l - p) m
      in memset (base + sz - l - p) 0 (l - p) m)"

definition checkScroll :: "display \<times> mem \<Rightarrow> display \<times> mem" where
  "checkScroll = (\<lambda>(d, m).
     if ucast (CursorY d + 17) \<ge> getHeight d
     then (d\<lparr>CursorX := 0, CursorY := CursorY d - 17\<rparr>, scroll d m)
     else (d, m))"

definition cursorNewLine :: "display \<times> mem \<Rightarrow> display \<times> mem" where
  "cursorNewLine = (\<lambda>(d, m). checkScroll (setCursorPos 0 (CursorY d + 16) d, m))"

definition advanceCursor :: "display \<times> mem \<Rightarrow> display \<times> mem" where
  "advanceCursor = (\<lambda>(d, m).
     let d = d\<lparr>CursorX := CursorX d + 8\<rparr>
     in if ucast (CursorX d + 8) \<ge> Width (globalFrameBuffer d) then cursorNewLine (d, m) else (d, m))"

definition putc :: "u8 \<Rightarrow> display \<times> mem \<Rightarrow> display \<times> mem" where
  "putc ch = (\<lambda>(d, m).
     if ch = 10 then cursorNewLine (d, m)
     else advanceCursor (d, putc_at ch (CursorX d) (CursorY d) d m))"

partial_function (option) puts_loop :: "u64 \<Rightarrow> i32 \<Rightarrow> display \<times> mem \<Rightarrow> (display \<times> mem) option" where
  "puts_loop ch i s =
     (case s of (d, m) \<Rightarrow>
        let c = m (ch + sext i)
        in if c = 0 then Some s
           else if c = 10 then puts_loop ch (i + 1) (cursorNewLine s)
           else puts_loop ch (i + 1) (advanceCursor (d, putc_at c (CursorX d) (CursorY d) d m)))"

definition puts :: "u64 \<Rightarrow> display \<times> mem \<Rightarrow> (display \<times> mem) option" where
  "puts ch s = puts_loop ch 0 s"

text \<open>
  The bounds of the fill are inclusive.  The counters are converted to \<open>int\<close> for \<open>putpix\<close>.
\<close>

definition clearScreen :: "u32 \<Rightarrow> display \<times> mem \<Rightarrow> display \<times> mem" where
  "clearScreen clr = (\<lambda>(d, m).
     let b = secondFrameBuffer d;
         m = (if clr = 0 then memset (BaseAddr b) 0 (BufferSize b) m
              else fold (\<lambda>y m. fold (\<lambda>x m. putpix (of_nat x) (of_nat y) clr d m) [0..<Suc (unat (getWidth d))] m)
                     [0..<Suc (unat (getHeight d))] m)
     in (setCursorPos 0 0 d, m))"

definition update :: "display \<Rightarrow> mem \<Rightarrow> mem" where
  "update d m = memcpy (BaseAddr (globalFrameBuffer d)) (BaseAddr (secondFrameBuffer d))
     (BufferSize (globalFrameBuffer d)) m"

section \<open>Escape sequences\<close>

definition handle :: "i32 \<Rightarrow> display \<Rightarrow> display" where
  "handle arg d =
     (if arg = 1 \<or> arg = 2 \<or> arg = 4 \<or> arg = 5 then d
      else if arg = 30 then d\<lparr>colour := BLACK\<rparr>
      else if arg = 31 then d\<lparr>colour := LIGHTRED\<rparr>
      else if arg = 32 then d\<lparr>colour := LIGHTGREEN\<rparr>
      else if arg = 33 then d\<lparr>colour := YELLOW\<rparr>
      else if arg = 34 then d\<lparr>colour := LIGHTBLUE\<rparr>
      else if arg = 35 then d\<lparr>colour := LIGHTMAGENTA\<rparr>
      else if arg = 36 then d\<lparr>colour := LIGHTTURQOISE\<rparr>
      else if arg = 37 then d\<lparr>colour := WHITE\<rparr>
      else d\<lparr>colour := WHITE\<rparr>)"

text \<open>
  The parameters go to two arrays of three characters on the stack, at \<open>param1\<close> and \<open>param2\<close>; the
  loop stores into them until an \<open>m\<close> appears in the text.
\<close>

partial_function (option) param_loop ::
    "u64 \<Rightarrow> u64 \<Rightarrow> u64 \<Rightarrow> i32 \<Rightarrow> bool \<Rightarrow> i32 \<Rightarrow> mem \<Rightarrow> (i32 \<times> mem) option" where
  "param_loop text param1 param2 index switched paramIndex m =
     (let c = m (text + sext index);
          (switched, paramIndex, m) =
            (if c = 59 then (True, 0, m)
             else (switched, paramIndex + 1,
                   m((if switched then param2 else param1) + sext paramIndex := c)));
          index = index + 1
      in if m (text + sext index) \<noteq> 109
         then param_loop text param1 param2 index switched paramIndex m
         else Some (index, m))"

definition escape :: "u64 \<Rightarrow> u64 \<Rightarrow> u64 \<Rightarrow> i32 \<Rightarrow> display \<times> mem \<Rightarrow> (i32 \<times> display \<times> mem) option" where
  "escape text param1 param2 index = (\<lambda>(d, m).
     let index = index + 2; m = memset param2 0 3 (memset param1 0 3 m)
     in do { (index, m) \<leftarrow> param_loop text param1 param2 index False 0 m;
             a \<leftarrow> atoi m param1;
             let d = handle a d;
             b \<leftarrow> atoi m param2;
             Some (index, handle b d, m) })"

partial_function (option) ansi_loop ::
    "u64 \<Rightarrow> u64 \<Rightarrow> u64 \<Rightarrow> i32 \<Rightarrow> display \<times> mem \<Rightarrow> (display \<times> mem) option" where
  "ansi_loop text param1 param2 index s =
     Option.bind (strlen (snd s) text) (\<lambda>n.
       if \<not> sint index < sint n then Some s
       else let index = index + 1
            in if snd s (text + sext index) = 27
               then if sint (index + 1) < sint n \<and> snd s (text + sext (index + 1)) = 91
                    then Option.bind (escape text param1 param2 index s)
                           (\<lambda>(index, s). ansi_loop text param1 param2 index s)
                    else ansi_loop text param1 param2 index s
               else ansi_loop text param1 param2 index (putc (snd s (text + sext index)) s))"

definition ANSIPrint :: "u64 \<Rightarrow> u64 \<Rightarrow> u64 \<Rightarrow> display \<times> mem \<Rightarrow> (display \<times> mem) option" where
  "ANSIPrint text param1 param2 s = ansi_loop text param1 param2 (- 1) s"

section \<open>The screen\<close>

text \<open>
  A display in order: both buffers have one size, a multiple of four, that holds the rows of the
  screen; the screen is at least 16 pixels wide and 34 high, and the cursor has room for a glyph.
\<close>

definition screen_ok :: "display \<Rightarrow> bool" where
  "screen_ok d \<longleftrightarrow>
     (let s = secondFrameBuffer d; w = unat (getWidth d); h = unat (getHeight d);
          p = unat (PixelPerScanLine s); sz = unat (BufferSize s)
      in BufferSize (globalFrameBuffer d) = BufferSize s \<and> sz mod 4 = 0 \<and> w \<le> p \<and> 4 * p * h \<le> sz \<and>
         16 \<le> w \<and> w < 2147483648 \<and> 34 \<le> h \<and> h < 2147483648 \<and>
         unat (CursorX d) + 8 < w \<and> unat (CursorY d) + 17 < h)"

definition off_screen :: "display \<Rightarrow> u64 \<Rightarrow> bool" where
  "off_screen d a \<longleftrightarrow> unat (BufferSize (secondFrameBuffer d)) \<le> unat (a - BaseAddr (secondFrameBuffer d))"

text \<open>The same screen: only the cursor and the colour differ.\<close>

definition same_screen :: "display \<Rightarrow> display \<Rightarrow> bool" where
  "same_screen d d' \<longleftrightarrow> secondFrameBuffer d' = secondFrameBuffer d \<and>
     globalFrameBuffer d' = globalFrameBuffer d \<and> globalFont d' = globalFont d"

lemma unat_ucast64: "unat (ucast (x :: u32) :: u64) = unat x"
  using unat_less_2p32 [of x] by (simp add: unsigned_ucast_eq take_bit_nat_eq_self_iff)

lemma store32_off:
  assumes "off + 4 \<le> S" "S \<le> unat (a - b)"
  shows "store32 (b + of_nat off) v m a = m a"
proof -
  have "unat (a - (b + of_nat off)) = unat (a - b) - off" using assms by (intro unat_shift) simp
  then show ?thesis using assms unfolding store32_def by (intro store_le_other) simp
qed

lemma pixel_off_screen:
  assumes ok: "screen_ok d" and xy: "x < unat (getWidth d)" "y < unat (getHeight d)" and a: "off_screen d a"
  shows "store32 (BaseAddr (secondFrameBuffer d) + 4 * (of_nat x + of_nat y * PixelPerScanLine (secondFrameBuffer d))) v m a = m a"
proof -
  define p sz where "p = unat (PixelPerScanLine (secondFrameBuffer d))"
    and "sz = unat (BufferSize (secondFrameBuffer d))"
  have w: "x < p" "4 * p * unat (getHeight d) \<le> sz" using ok xy by (simp_all add: screen_ok_def Let_def p_def sz_def)
  have "Suc y * p \<le> unat (getHeight d) * p" using xy by (intro mult_right_mono) auto
  then have le: "4 * (x + y * p) + 4 \<le> sz" using w by (simp add: algebra_simps)
  have "4 * (of_nat x + of_nat y * PixelPerScanLine (secondFrameBuffer d)) = (of_nat (4 * (x + y * p)) :: u64)"
    by (simp add: p_def)
  then show ?thesis using store32_off [OF le, of a] a by (simp add: off_screen_def sz_def)
qed

lemma glyph_pixel_off_screen:
  assumes "screen_ok d" "x < unat (getWidth d)" "y < unat (getHeight d)" "off_screen d a"
  shows "glyph_pixel d f xx (of_nat x) (of_nat y) m a = m a"
  using pixel_off_screen [OF assms] by (simp add: glyph_pixel_def)

lemma putc_at_off_screen:
  assumes ok: "screen_ok d" and a: "off_screen d a"
  shows "putc_at ch (CursorX d) (CursorY d) d m a = m a"
proof -
  have xy: "unat (CursorX d + 8) = unat (CursorX d) + 8" "unat (CursorY d + 16) = unat (CursorY d) + 16"
    "unat (CursorX d) + 8 < unat (getWidth d)" "unat (CursorY d) + 16 < unat (getHeight d)"
    using ok by (auto simp: screen_ok_def Let_def unat_add_small)
  have row: "fold (\<lambda>x. glyph_pixel d f (ucast (CursorX d)) (of_nat x) (of_nat y))
       [unat (CursorX d)..<unat (CursorX d + 8)] m' a = m' a" if "y < unat (getHeight d)" for f y m'
    by (rule fold_invariant [where P = "\<lambda>m. m a = m' a"])
      (use xy that in \<open>auto simp: glyph_pixel_off_screen [OF ok _ _ a]\<close>)
  show ?thesis unfolding putc_at_def Let_def
    by (rule fold_invariant [where P = "\<lambda>s. snd s a = m a"]) (use xy row in \<open>auto split: prod.splits\<close>)
qed

lemma scroll_off_screen:
  assumes ok: "screen_ok d" and a: "off_screen d a"
  shows "scroll d m a = m a"
proof -
  define s w l where "s = unat (BufferSize (secondFrameBuffer d))" and "w = unat (getWidth d)" and "l = lastLineOfCharacters d"
  have s: "s < 18446744073709551616" by (simp add: s_def unat_less_2p64)
  have h: "w * 64 \<le> s" "s mod 4 = 0" "BufferSize (globalFrameBuffer d) = BufferSize (secondFrameBuffer d)" "0 < w"
  proof -
    have "w * 34 \<le> unat (PixelPerScanLine (secondFrameBuffer d)) * unat (getHeight d)"
      using ok by (intro mult_le_mono) (simp_all add: screen_ok_def Let_def w_def)
    then show "w * 64 \<le> s" using ok by (simp add: screen_ok_def Let_def s_def)
  qed (use ok in \<open>simp_all add: screen_ok_def Let_def s_def w_def\<close>)
  have l: "unat l = w * 64"
  proof -
    have "l = of_nat (w * 64)" by (simp add: l_def lastLineOfCharacters_def w_def)
    then show ?thesis using h(1) s by (simp only: unat_of_nat64)
  qed
  have z: "secondBufferPixels d = 0"
    using h(2) by (simp add: secondBufferPixels_def word_unat_eq_iff unat_mod s_def)
  have d: "unat (BufferSize (secondFrameBuffer d) - l) = s - w * 64"
    using h(1) l by (subst unat_diff_le) (simp_all add: word_le_nat_alt s_def)
  have f: "forward_ok (BaseAddr (secondFrameBuffer d)) (BaseAddr (secondFrameBuffer d) + l) (unat (BufferSize (secondFrameBuffer d) - l))"
  proof -
    have "l \<noteq> 0" using l h(4) by (cases "l = 0") simp_all
    then have "unat (- l) = 18446744073709551616 - w * 64" using unat_uminus [of l] l by simp
    then have "s - w * 64 \<le> unat (BaseAddr (secondFrameBuffer d) - (BaseAddr (secondFrameBuffer d) + l))"
    proof -
      have e: "BaseAddr (secondFrameBuffer d) - (BaseAddr (secondFrameBuffer d) + l) = - l" by simp
      show ?thesis unfolding e using \<open>unat (- l) = _\<close> h(1) s by linarith
    qed
    moreover have "s - w * 64 \<le> 18446744073709551616" using s by linarith
    ultimately show ?thesis unfolding d by (simp only: forward_ok_iff simp_thms)
  qed
  have c: "memcpy (BaseAddr (secondFrameBuffer d)) (BaseAddr (secondFrameBuffer d) + l) (BufferSize (secondFrameBuffer d) - l) m a = m a"
    unfolding memcpy_eq [OF f] d using a by (intro copied_out) (simp add: off_screen_def s_def)
  have "l \<le> a - (BaseAddr (secondFrameBuffer d) + BufferSize (secondFrameBuffer d) - l)"
  proof -
    define o1 where "o1 = BufferSize (secondFrameBuffer d) - l"
    have o1: "unat o1 = s - w * 64" using d by (simp add: o1_def)
    have as: "s \<le> unat (a - BaseAddr (secondFrameBuffer d))" using a by (simp add: off_screen_def s_def)
    have "unat (a - (BaseAddr (secondFrameBuffer d) + of_nat (unat o1))) = unat (a - BaseAddr (secondFrameBuffer d)) - unat o1"
      unfolding o1 using as h(1) by (intro unat_shift) simp
    then have "unat (a - (BaseAddr (secondFrameBuffer d) + o1)) = unat (a - BaseAddr (secondFrameBuffer d)) - (s - w * 64)"
      unfolding o1 [symmetric] of_nat_unat_id .
    then have "unat l \<le> unat (a - (BaseAddr (secondFrameBuffer d) + o1))"
      using as l h(1) by linarith
    then show ?thesis by (simp add: word_le_nat_alt o1_def algebra_simps)
  qed
  then have "\<not> a - (BaseAddr (secondFrameBuffer d) + BufferSize (secondFrameBuffer d) - l) < l" by (simp only: not_less)
  then show ?thesis using c by (simp add: scroll_def z h(3) Let_def memset_eq l_def [symmetric])
qed

lemma same_screen_refl [simp]: "same_screen d d" by (simp add: same_screen_def)

lemma same_screen_trans: "same_screen d d' \<Longrightarrow> same_screen d' d'' \<Longrightarrow> same_screen d d''"
  by (simp add: same_screen_def)

lemma same_screen_cursor [simp]:
  "same_screen d (d\<lparr>CursorX := x, CursorY := y\<rparr>)" "same_screen d (d\<lparr>CursorX := x\<rparr>)" "same_screen d (d\<lparr>colour := c\<rparr>)"
  by (simp_all add: same_screen_def)

lemma off_screen_same: "same_screen d d' \<Longrightarrow> off_screen d' a = off_screen d a"
  by (simp add: same_screen_def off_screen_def)

text \<open>What an operation on the display keeps: the screen in order, and the memory off the screen.\<close>

definition draws :: "display \<times> mem \<Rightarrow> display \<times> mem \<Rightarrow> bool" where
  "draws s s' \<longleftrightarrow> screen_ok (fst s') \<and> same_screen (fst s) (fst s') \<and>
     (\<forall>a. off_screen (fst s) a \<longrightarrow> snd s' a = snd s a)"

lemma draws_trans: "draws s s' \<Longrightarrow> draws s' s'' \<Longrightarrow> draws s s''"
  by (auto simp: draws_def off_screen_same intro: same_screen_trans)

text \<open>
  A line feed keeps the cursor on the screen: below the last row but one it scrolls and moves the
  cursor up again by 17 rows, one more than the line feed moved it down.
\<close>

lemma cursorNewLine_draws:
  assumes ok: "screen_ok d"
  shows "draws (d, m) (cursorNewLine (d, m))"
proof -
  define y h where "y = unat (CursorY d)" and "h = unat (getHeight d)"
  have b: "y + 17 < h" "34 \<le> h" "h < 2147483648" using ok by (simp_all add: screen_ok_def Let_def y_def h_def)
  have y1: "unat (CursorY d + 16) = y + 16" "unat (CursorY d + 33) = y + 33"
    using b by (simp_all add: y_def unat_add_small)
  have c: "ucast (33 + CursorY d) \<ge> getHeight d \<longleftrightarrow> h \<le> y + 33"
    using y1 by (simp add: add.commute word_le_nat_alt h_def unat_ucast64)
  let ?d = "setCursorPos 0 (CursorY d + 16) d"
  have ok': "screen_ok ?d" if "\<not> h \<le> y + 33"
    using ok that y1 by (simp add: screen_ok_def setCursorPos_def Let_def h_def getHeight_def getWidth_def)
  show ?thesis
  proof (cases "h \<le> y + 33")
    case False
    then show ?thesis using c ok'
      by (simp add: cursorNewLine_def checkScroll_def draws_def setCursorPos_def getHeight_def)
  next
    case True
    have "CursorY d - 1 + 1 = CursorY d" by simp
    have up: "unat (CursorY d - 1) = y - 1" using True b by (subst unat_diff_le) (auto simp: y_def word_le_nat_alt)
    have "screen_ok (d\<lparr>CursorX := 0, CursorY := CursorY d - 1\<rparr>)"
      using ok up b True by (auto simp: screen_ok_def Let_def getHeight_def getWidth_def h_def)
    moreover have "scroll (setCursorPos 0 (CursorY d + 16) d) m = scroll d m"
      by (simp add: scroll_def setCursorPos_def Let_def lastLineOfCharacters_def secondBufferPixels_def getWidth_def)
    ultimately show ?thesis using True c scroll_off_screen [OF ok, of _ m]
      by (simp add: cursorNewLine_def checkScroll_def draws_def setCursorPos_def getHeight_def)
  qed
qed

lemma advanceCursor_draws:
  assumes ok: "screen_ok d"
  shows "draws (d, m) (advanceCursor (d, m))"
proof -
  define x w where "x = unat (CursorX d)" and "w = unat (getWidth d)"
  have b: "x + 8 < w" "w < 2147483648" using ok by (simp_all add: screen_ok_def Let_def x_def w_def)
  have u: "unat (CursorX d + 8) = x + 8" "unat (CursorX d + 16) = x + 16" using b by (simp_all add: x_def unat_add_small)
  have c: "ucast (CursorX d + 16) \<ge> Width (globalFrameBuffer d) \<longleftrightarrow> w \<le> x + 16"
    using u by (simp add: word_le_nat_alt w_def getWidth_def unat_ucast64)
  show ?thesis
  proof (cases "w \<le> x + 16")
    case False
    have "screen_ok (d\<lparr>CursorX := CursorX d + 8\<rparr>)"
      using False ok u by (simp add: screen_ok_def Let_def getHeight_def getWidth_def w_def)
    moreover have "advanceCursor (d, m) = (d\<lparr>CursorX := CursorX d + 8\<rparr>, m)"
      using False c by (simp add: advanceCursor_def Let_def add.assoc)
    ultimately show ?thesis by (simp add: draws_def)
  next
    case True
    have "cursorNewLine (d\<lparr>CursorX := CursorX d + 8\<rparr>, m) = cursorNewLine (d, m)"
      by (simp add: cursorNewLine_def setCursorPos_def)
    then have "advanceCursor (d, m) = cursorNewLine (d, m)" using True c by (simp add: advanceCursor_def Let_def add.assoc)
    then show ?thesis using cursorNewLine_draws [OF ok, of m] by simp
  qed
qed

lemma putc_draws:
  assumes ok: "screen_ok (fst s)"
  shows "draws s (putc ch s)"
proof -
  obtain d m where s: "s = (d, m)" by (cases s)
  have ok': "screen_ok d" using ok s by simp
  define m1 where "m1 = putc_at ch (CursorX d) (CursorY d) d m"
  have "draws (d, m) (d, m1)"
    unfolding draws_def using ok' putc_at_off_screen [OF ok'] by (simp add: m1_def)
  then have "draws (d, m) (advanceCursor (d, m1))" by (rule draws_trans [OF _ advanceCursor_draws [OF ok']])
  moreover have "putc ch s = (if ch = 10 then cursorNewLine (d, m) else advanceCursor (d, m1))"
    unfolding putc_def s m1_def by simp
  ultimately show ?thesis using cursorNewLine_draws [OF ok', of m] unfolding s by (cases "ch = 10") simp_all
qed

text \<open>C34: text never leaves the screen.  Whatever characters are written to a display in order,
  the cursor keeps room for a glyph and every byte outside the back buffer stays as it was,
  line feeds, the end of a row and scrolling included.\<close>

theorem text_stays_on_screen:
  assumes "screen_ok d" "fold putc cs (d, m) = (d', m')"
  shows "screen_ok d' \<and> unat (CursorX d') + 8 < unat (getWidth d) \<and> unat (CursorY d') + 17 < unat (getHeight d) \<and>
    (\<forall>a. unat (BufferSize (secondFrameBuffer d)) \<le> unat (a - BaseAddr (secondFrameBuffer d)) \<longrightarrow> m' a = m a)"
proof -
  have "draws (d, m) (fold putc cs (d, m))"
  proof (rule fold_invariant [where P = "draws (d, m)"])
    show "draws (d, m) (d, m)" using assms(1) by (simp add: draws_def)
    show "draws (d, m) (putc c s)" if "draws (d, m) s" for c s
      using that by (rule draws_trans) (rule putc_draws, use that in \<open>simp add: draws_def\<close>)
  qed
  then have d: "screen_ok d'" "same_screen d d'" "\<forall>a. off_screen d a \<longrightarrow> m' a = m a"
    using assms(2) by (simp_all add: draws_def)
  then show ?thesis by (simp add: off_screen_def screen_ok_def same_screen_def Let_def getWidth_def getHeight_def)
qed

text \<open>A screen of 640 by 480 pixels and text that scrolls it.\<close>

definition example_display :: display where
  "example_display =
     (let b = \<lparr>BaseAddr = 0x100000, BufferSize = 1228800, Width = 640, Height = 480, PixelPerScanLine = 640\<rparr>
      in \<lparr>secondFrameBuffer = b, globalFrameBuffer = b\<lparr>BaseAddr := 0xC0000000\<rparr>,
          globalFont = \<lparr>charsize = 16, glyphBuffer = 0x1000\<rparr>, CursorX = 0, CursorY = 0, colour = WHITE\<rparr>)"

lemma text_stays_on_screen_witness:
  "\<exists>d m. fold putc (65 # replicate 100 10) (example_display, \<lambda>_. 7) = (d, m) \<and>
     m 0x1000 = 7 \<and> m 0x22c000 = 7 \<and> unat (CursorY d) + 17 < 480"
proof -
  obtain d m where f: "fold putc (65 # replicate 100 10) (example_display, \<lambda>_. 7) = (d, m)"
    by (cases "fold putc (65 # replicate 100 10) (example_display, \<lambda>_. 7 :: u8)")
  have "screen_ok example_display"
    by (simp add: example_display_def screen_ok_def getWidth_def getHeight_def Let_def)
  from text_stays_on_screen [OF this f] have "unat (CursorY d) + 17 < 480" "m 0x1000 = 7" "m 0x22c000 = 7"
    by (simp_all add: example_display_def getHeight_def Let_def)
  then show ?thesis using f by blast
qed

end
