(* ===== verification/AnsiText.thy ===== *)
theory AnsiText
  imports Display
begin

unbundle bit_operations_syntax

text \<open>
  What \<open>ANSIPrint\<close> of \<open>terminal/ansi.cpp\<close> does to a text of characters and escape sequences: it
  interprets the sequences in order and writes the rest to the display.
\<close>

section \<open>Texts with escape sequences\<close>

text \<open>
  A character, or a sequence ESC [ p m or ESC [ p ; q m with decimal parameters of at most two
  digits; only in the second form the first parameter may be empty.
\<close>

datatype token = Chr u8 | Sgr "u8 list" "u8 list option"

definition second :: "u8 list option \<Rightarrow> u8 list" where
  "second q = (case q of None \<Rightarrow> [] | Some r \<Rightarrow> r)"

definition params :: "u8 list \<Rightarrow> u8 list option \<Rightarrow> u8 list" where
  "params p q = p @ (case q of None \<Rightarrow> [] | Some r \<Rightarrow> 59 # r)"

fun encode :: "token \<Rightarrow> u8 list" where
  "encode (Chr c) = [c]"
| "encode (Sgr p q) = 27 # 91 # params p q @ [109]"

fun token_ok :: "token \<Rightarrow> bool" where
  "token_ok (Chr c) \<longleftrightarrow> c \<noteq> 0 \<and> c \<noteq> 27"
| "token_ok (Sgr p q) \<longleftrightarrow> is_dec p \<and> length p \<le> 2 \<and> is_dec (second q) \<and> length (second q) \<le> 2 \<and>
     (q = None \<longrightarrow> p \<noteq> [])"

fun put_bytes :: "u64 \<Rightarrow> u8 list \<Rightarrow> mem \<Rightarrow> mem" where
  "put_bytes b [] m = m"
| "put_bytes b (c # cs) m = put_bytes (b + 1) cs (m(b := c))"

text \<open>
  The meaning of a token: a character is written; a sequence applies both parameters, the value
  of an absent one being 0, and leaves them in the two buffers.
\<close>

definition param_memory :: "u64 \<Rightarrow> u64 \<Rightarrow> u8 list \<Rightarrow> u8 list \<Rightarrow> mem \<Rightarrow> mem" where
  "param_memory p1 p2 p r m = put_bytes p2 r (put_bytes p1 p (memset p2 0 3 (memset p1 0 3 m)))"

fun run_token :: "u64 \<Rightarrow> u64 \<Rightarrow> token \<Rightarrow> display \<times> mem \<Rightarrow> display \<times> mem" where
  "run_token p1 p2 (Chr c) s = putc c s"
| "run_token p1 p2 (Sgr p q) s =
     (handle (of_nat (dec_value 0 (second q))) (handle (of_nat (dec_value 0 p)) (fst s)),
      param_memory p1 p2 p (second q) (snd s))"

section \<open>The text in memory\<close>

lemma put_bytes_eq:
  "length cs < 18446744073709551616 \<Longrightarrow>
     put_bytes b cs m a = (if unat (a - b) < length cs then cs ! unat (a - b) else m a)"
proof (induction cs arbitrary: b m)
  case (Cons c cs)
  have IH: "put_bytes (b + 1) cs (m(b := c)) a =
      (if unat (a - (b + 1)) < length cs then cs ! unat (a - (b + 1)) else (m(b := c)) a)"
    using Cons by simp
  show ?case
  proof (cases "a = b")
    case True
    have "unat (b - (b + 1)) = 18446744073709551615" by (simp add: unsigned_minus_1_eq_mask mask_eq_exp_minus_1)
    then show ?thesis using IH Cons.prems True by simp
  next
    case False
    then have "unat (a - b) \<noteq> 0" by (simp add: unat_eq_zero)
    moreover have "unat (a - (b + of_nat 1)) = unat (a - b) - 1"
      using calculation by (intro unat_shift) simp
    ultimately show ?thesis using IH False by (auto simp: nth_Cons split: nat.splits)
  qed
qed simp

text \<open>The text lies clear of the screen and of the two buffers, which are clear of each other.\<close>

definition clear :: "u64 \<Rightarrow> u64 \<Rightarrow> nat \<Rightarrow> bool" where
  "clear b text n \<longleftrightarrow> (\<forall>i \<le> n. 3 \<le> unat (text + of_nat i - b))"

lemma clearD: "clear b text n \<Longrightarrow> i \<le> n \<Longrightarrow> j < 3 \<Longrightarrow> text + of_nat i \<noteq> b + of_nat j"
  by (auto simp: clear_def eq_base_plus)

lemma apart_offset:
  assumes "3 \<le> unat (p1 - p2 :: u64)" "3 \<le> unat (p2 - p1)" "i < 3"
  shows "3 \<le> unat (p1 + of_nat i - p2)"
proof -
  have nz: "p2 - p1 \<noteq> 0" using assms(2) by auto
  have "unat (- (p2 - p1)) = 18446744073709551616 - unat (p2 - p1)" by (rule unat_uminus [OF nz])
  then have "unat (p1 - p2) = 18446744073709551616 - unat (p2 - p1)" by simp
  then have "unat (p1 - p2) + unat (of_nat i :: u64) < 2 ^ LENGTH(64)" using assms by (simp add: unat_of_nat64)
  then have "unat ((p1 - p2) + of_nat i) = unat (p1 - p2) + i" using assms(3) by (simp add: unat_add_small unat_of_nat64)
  then show ?thesis using assms(1) by (simp add: algebra_simps)
qed

lemma param_memory_cstr:
  assumes "3 \<le> unat (p1 - p2)" "3 \<le> unat (p2 - p1)" "length p \<le> 2" "length r \<le> 2" "0 \<notin> set p" "0 \<notin> set r"
  shows "cstr (param_memory p1 p2 p r m) p1 p" "cstr (param_memory p1 p2 p r m) p2 r"
proof -
  have 1: "param_memory p1 p2 p r m (p1 + of_nat i) = (if i < length p then p ! i else 0)" if "i < 3" for i
  proof -
    have "3 \<le> unat (p1 + of_nat i - p2)" by (rule apart_offset [OF assms(1,2) that])
    then show ?thesis using that assms(3,4)
      by (simp add: param_memory_def put_bytes_eq memset_eq unat_of_nat64 word_less_nat_alt)
  qed
  have 2: "param_memory p1 p2 p r m (p2 + of_nat i) = (if i < length r then r ! i else 0)" if "i < 3" for i
  proof -
    have "3 \<le> unat (p2 + of_nat i - p1)" by (rule apart_offset [OF assms(2,1) that])
    then show ?thesis using that assms(3,4)
      by (simp add: param_memory_def put_bytes_eq memset_eq unat_of_nat64 word_less_nat_alt)
  qed
  have "bytes_at (param_memory p1 p2 p r m) p1 (length p) = p" "bytes_at (param_memory p1 p2 p r m) p2 (length r) = r"
    using 1 2 assms(3,4) by (auto intro!: nth_equalityI)
  then show "cstr (param_memory p1 p2 p r m) p1 p" "cstr (param_memory p1 p2 p r m) p2 r"
    using 1 [of "length p"] 2 [of "length r"] assms by (simp_all add: cstr_def)
qed

lemma param_memory_clear:
  assumes "clear p1 text n" "clear p2 text n" "i \<le> n" "length p \<le> 2" "length r \<le> 2"
  shows "param_memory p1 p2 p r m (text + of_nat i) = m (text + of_nat i)"
proof -
  have "3 \<le> unat (text + of_nat i - p1)" "3 \<le> unat (text + of_nat i - p2)"
    using assms by (simp_all add: clear_def)
  then show ?thesis using assms(4,5)
    by (simp add: param_memory_def put_bytes_eq memset_eq word_less_nat_alt)
qed

section \<open>The parameters\<close>

lemma param_loop_char:
  "m (text + sext i) = c \<Longrightarrow> c \<noteq> 59 \<Longrightarrow> param_loop text p1 p2 i sw j m =
     (let m1 = m((if sw then p2 else p1) + sext j := c)
      in if m1 (text + sext (i + 1)) \<noteq> 109 then param_loop text p1 p2 (i + 1) sw (j + 1) m1 else Some (i + 1, m1))"
  by (subst param_loop.simps) (simp only: Let_def if_False prod.case)

lemma param_loop_semicolon:
  "m (text + sext i) = 59 \<Longrightarrow> param_loop text p1 p2 i sw j m =
     (if m (text + sext (i + 1)) \<noteq> 109 then param_loop text p1 p2 (i + 1) True 0 m else Some (i + 1, m))"
  by (subst param_loop.simps) (simp only: Let_def if_True prod.case simp_thms)

text \<open>Digits are stored one after the other until an \<open>m\<close> or a semicolon comes up.\<close>

lemma param_loop_digits:
  assumes "cs \<noteq> []" "length T < 2147483648" "cstr m text T"
    and "clear (if sw then p2 else p1) text (length T)" "j + length cs \<le> 2"
    and "drop i T = cs @ x # rest" "is_dec cs"
  shows "param_loop text p1 p2 (of_nat i) sw (of_nat j) m =
    (let m' = put_bytes ((if sw then p2 else p1) + of_nat j) cs m
     in if x = 109 then Some (of_nat (i + length cs), m')
        else param_loop text p1 p2 (of_nat (i + length cs)) sw (of_nat (j + length cs)) m')"
  using assms
proof (induction cs arbitrary: i j m)
  case (Cons c cs)
  let ?b = "if sw then p2 else p1"
  have i: "Suc i < length T" "T ! i = c" "drop (Suc i) T = cs @ x # rest"
  proof -
    have "length (drop i T) = Suc (length cs) + Suc (length rest)" using Cons.prems(6) by simp
    then show "Suc i < length T" by simp
    then have "drop i T = T ! i # drop (Suc i) T" by (simp add: Cons_nth_drop_Suc)
    then show "T ! i = c" "drop (Suc i) T = cs @ x # rest" using Cons.prems(6) by simp_all
  qed
  have nx: "T ! Suc i = hd (cs @ [x])" using i by (metis append_Cons append_is_Nil_conv hd_append2 hd_drop_conv_nth list.sel(1) append_Nil list.distinct(1))
  have c: "m (text + of_nat i) = c" "c \<noteq> 59"
    using cstr_nth [OF Cons.prems(3), of i] i Cons.prems(7) by (auto simp: is_dec_def)
  define m1 where "m1 = m(?b + of_nat j := c)"
  have T1: "cstr m1 text T"
    by (rule cstr_same [OF Cons.prems(3)]) (use clearD [OF Cons.prems(4), of _ j] Cons.prems(5) in \<open>simp add: m1_def\<close>)
  have n1: "m1 (text + of_nat (Suc i)) = hd (cs @ [x])" using cstr_nth [OF T1 i(1)] nx by simp
  have s: "sext (of_nat i) = of_nat i" "sext (of_nat j) = of_nat j" "sext (of_nat i + 1) = of_nat (Suc i)"
    using i(1) Cons.prems(2,5) sext_of_nat [of i] sext_of_nat [of j] sext_of_nat [of "Suc i"]
    by (simp_all add: add.commute)
  have step: "param_loop text p1 p2 (of_nat i) sw (of_nat j) m =
      (if hd (cs @ [x]) \<noteq> 109 then param_loop text p1 p2 (of_nat (Suc i)) sw (of_nat (Suc j)) m1
       else Some (of_nat (Suc i), m1))"
  proof -
    have e: "(of_nat i :: i32) + 1 = of_nat (Suc i)" "(of_nat j :: i32) + 1 = of_nat (Suc j)" by simp_all
    have s': "sext (of_nat (Suc i)) = of_nat (Suc i)" using i(1) Cons.prems(2) by (intro sext_of_nat) simp
    have c': "m (text + sext (of_nat i)) = c" using c(1) s(1) by simp
    show ?thesis
      unfolding param_loop_char [of m "text" "of_nat i" c p1 p2 sw "of_nat j", OF c' c(2)] s e s' m1_def [symmetric] Let_def n1 by simp
  qed
  have pb: "put_bytes (?b + of_nat j) (c # cs) m = put_bytes (?b + of_nat (Suc j)) cs m1"
    by (simp only: put_bytes.simps m1_def of_nat_Suc add_ac)
  show ?case
  proof (cases "cs = []")
    case True
    then show ?thesis using step unfolding pb by (simp add: Let_def)
  next
    case False
    then have "hd (cs @ [x]) \<noteq> 109" using Cons.prems(7) by (cases cs) (auto simp: is_dec_def)
    moreover have "param_loop text p1 p2 (of_nat (Suc i)) sw (of_nat (Suc j)) m1 =
      (let m' = put_bytes (?b + of_nat (Suc j)) cs m1
       in if x = 109 then Some (of_nat (Suc i + length cs), m')
          else param_loop text p1 p2 (of_nat (Suc i + length cs)) sw (of_nat (Suc j + length cs)) m')"
      by (rule Cons.IH [OF False Cons.prems(2) T1 Cons.prems(4) _ i(3)])
        (use Cons.prems(5,7) in \<open>simp_all add: is_dec_def\<close>)
    ultimately show ?thesis using step unfolding pb by (simp add: Let_def)
  qed
qed simp

lemma cstr_put:
  assumes "cstr m text T" "clear b text (length T)" "j + length cs \<le> 3"
  shows "cstr (put_bytes (b + of_nat j) cs m) text T"
proof (rule cstr_same [OF assms(1)])
  fix i assume i: "i \<le> length T"
  have "unat (text + of_nat i - (b + of_nat j)) = unat (text + of_nat i - b) - j"
    using assms(2,3) i by (intro unat_shift) (auto simp: clear_def)
  moreover have "3 \<le> unat (text + of_nat i - b)" using assms(2) i by (simp add: clear_def)
  ultimately have "\<not> unat (text + of_nat i - (b + of_nat j)) < length cs" using assms(3) by linarith
  then show "put_bytes (b + of_nat j) cs m (text + of_nat i) = m (text + of_nat i)"
    using assms(3) by (simp add: put_bytes_eq)
qed

text \<open>The whole of a parameter part: the index stops at the \<open>m\<close>.\<close>

lemma param_loop_params:
  assumes T: "length T < 2147483648" "cstr m text T" "clear p1 text (length T)" "clear p2 text (length T)"
    and d: "drop i T = params p q @ 109 # rest" and ok: "token_ok (Sgr p q)"
  shows "param_loop text p1 p2 (of_nat i) False 0 m =
    Some (of_nat (i + length (params p q)), put_bytes p2 (second q) (put_bytes p1 p m))"
proof (cases q)
  case None
  then show ?thesis
    using param_loop_digits [of p T m "text" False p2 p1 0 i 109 rest] assms by (simp add: params_def second_def Let_def)
next
  case (Some r)
  have r: "is_dec r" "length r \<le> 2" "is_dec p" "length p \<le> 2" using ok Some by (simp_all add: second_def)
  define k m1 where "k = i + length p" and "m1 = put_bytes p1 p m"
  have T1: "cstr m1 text T" using cstr_put [OF T(2,3), of 0 p] r by (simp add: m1_def)
  have first: "param_loop text p1 p2 (of_nat i) False 0 m = param_loop text p1 p2 (of_nat k) False (of_nat (length p)) m1"
  proof (cases "p = []")
    case False
    then show ?thesis
      using param_loop_digits [of p T m "text" False p2 p1 0 i 59 "r @ 109 # rest"] T d r Some
      by (simp add: params_def Let_def k_def m1_def)
  qed (simp add: k_def m1_def)
  have dk: "drop k T = 59 # r @ 109 # rest"
    using arg_cong [OF d, of "drop (length p)"] Some by (simp add: params_def k_def add.commute)
  then have k: "Suc k < length T" "T ! k = 59" "drop (Suc k) T = r @ 109 # rest"
  proof -
    have "length (drop k T) = Suc (Suc (length r + length rest))" using dk by simp
    then show l: "Suc k < length T" by simp
    then have "drop k T = T ! k # drop (Suc k) T" by (simp add: Cons_nth_drop_Suc)
    then show "T ! k = 59" "drop (Suc k) T = r @ 109 # rest" using dk by simp_all
  qed
  have nx: "T ! Suc k = hd (r @ [109])"
    using k(1,3) by (metis append_Cons append_is_Nil_conv hd_append2 hd_drop_conv_nth list.sel(1) append_Nil list.distinct(1))
  have s: "sext (of_nat k) = of_nat k" "sext (of_nat k + 1) = of_nat (Suc k)"
    using k(1) T(1) sext_of_nat [of k] sext_of_nat [of "Suc k"] by (simp_all add: add.commute)
  have "m1 (text + sext (of_nat k)) = 59" using cstr_nth [OF T1, of k] k s by simp
  from param_loop_semicolon [of m1 "text" "of_nat k" p1 p2 False "of_nat (length p)", OF this]
  have "param_loop text p1 p2 (of_nat k) False (of_nat (length p)) m1 =
      (if hd (r @ [109]) \<noteq> 109 then param_loop text p1 p2 (of_nat (Suc k)) True 0 m1 else Some (of_nat (Suc k), m1))"
    using cstr_nth [OF T1 k(1)] nx s(2) by (simp add: add.commute)
  also have "\<dots> = Some (of_nat (i + length (params p q)), put_bytes p2 r m1)"
  proof (cases "r = []")
    case True
    then show ?thesis by (simp add: k_def params_def Some)
  next
    case False
    then have "hd (r @ [109]) \<noteq> 109" using r by (cases r) (auto simp: is_dec_def)
    then show ?thesis
      using param_loop_digits [of r T m1 "text" True p2 p1 0 "Suc k" 109 rest] False T T1 k r
      by (simp add: Let_def k_def params_def Some add_ac)
  qed
  finally show ?thesis using first Some by (simp add: m1_def second_def)
qed

section \<open>The interpreter\<close>

lemma handle_colour: "handle a d = d\<lparr>colour := colour (handle a d)\<rparr>"
  by (simp add: handle_def)

lemma handle_draws: "screen_ok d \<Longrightarrow> screen_ok (handle a d) \<and> same_screen d (handle a d)"
  by (subst (1 2) handle_colour) (simp add: screen_ok_def getWidth_def getHeight_def)

text \<open>Between two tokens: the screen in order and the text still in memory.\<close>

definition ansi_inv :: "display \<Rightarrow> u64 \<Rightarrow> u8 list \<Rightarrow> display \<times> mem \<Rightarrow> bool" where
  "ansi_inv d text T s \<longleftrightarrow> screen_ok (fst s) \<and> same_screen d (fst s) \<and> cstr (snd s) text T"

lemma run_token_inv:
  assumes "ansi_inv d text T s" "token_ok t" "\<forall>i \<le> length T. off_screen d (text + of_nat i)"
    and "clear p1 text (length T)" "clear p2 text (length T)"
  shows "ansi_inv d text T (run_token p1 p2 t s)"
proof (cases t)
  case (Chr c)
  have s: "screen_ok (fst s)" "same_screen d (fst s)" "cstr (snd s) text T" using assms(1) by (simp_all add: ansi_inv_def)
  have dr: "draws s (putc c s)" by (rule putc_draws [OF s(1)])
  then have "cstr (snd (putc c s)) text T"
    using assms(3) by (intro cstr_same [OF s(3)]) (simp add: draws_def off_screen_same [OF s(2)])
  then show ?thesis using dr s(2) Chr by (auto simp: ansi_inv_def draws_def intro: same_screen_trans)
next
  case (Sgr p q)
  have s: "screen_ok (fst s)" "same_screen d (fst s)" "cstr (snd s) text T" using assms(1) by (simp_all add: ansi_inv_def)
  have "cstr (snd (run_token p1 p2 t s)) text T"
    using param_memory_clear [OF assms(4,5)] assms(2) Sgr by (intro cstr_same [OF s(3)]) simp
  then show ?thesis using handle_draws s same_screen_trans by (simp add: ansi_inv_def Sgr) blast
qed

lemma zero_notin_dec: "is_dec p \<Longrightarrow> 0 \<notin> set p"
  by (auto simp: is_dec_def)

lemma escape_token:
  assumes T: "length T < 2147483648" "cstr (snd s) text T" "clear p1 text (length T)" "clear p2 text (length T)"
    and p: "3 \<le> unat (p1 - p2)" "3 \<le> unat (p2 - p1)"
    and d: "drop i T = encode (Sgr p q) @ rest" and ok: "token_ok (Sgr p q)"
  shows "escape text p1 p2 (of_nat i) s = Some (of_nat (i + length (encode (Sgr p q))) - 1, run_token p1 p2 (Sgr p q) s)"
proof -
  define m0 where "m0 = memset p2 0 3 (memset p1 0 3 (snd s))"
  have q: "is_dec p" "length p \<le> 2" "is_dec (second q)" "length (second q) \<le> 2" using ok by simp_all
  have A: "cstr m0 text T"
    using param_memory_clear [OF T(3,4), of _ "[]" "[]" "snd s"]
    by (intro cstr_same [OF T(2)]) (simp add: m0_def param_memory_def)
  have B: "drop (i + 2) T = params p q @ 109 # rest"
    using arg_cong [OF d, of "drop 2"] by (simp add: add.commute)
  have l: "param_loop text p1 p2 (of_nat (i + 2)) False 0 m0 =
      Some (of_nat (i + 2 + length (params p q)), param_memory p1 p2 p (second q) (snd s))"
    unfolding param_memory_def m0_def [symmetric] by (rule param_loop_params [OF T(1) A T(3,4) B ok])
  define m1 where "m1 = param_memory p1 p2 p (second q) (snd s)"
  have "cstr m1 p1 p" "cstr m1 p2 (second q)"
    using param_memory_cstr [OF p q(2,4) zero_notin_dec [OF q(1)] zero_notin_dec [OF q(3)]] by (simp_all add: m1_def)
  then have a: "atoi m1 p1 = Some (of_nat (dec_value 0 p))" "atoi m1 p2 = Some (of_nat (dec_value 0 (second q)))"
    using q by (simp_all add: atoi_dec)
  obtain d0 ms where s: "s = (d0, ms)" by (cases s)
  have e: "(of_nat i :: i32) + 2 = of_nat (i + 2)" "(of_nat (i + length (encode (Sgr p q))) :: i32) - 1 = of_nat (i + 2 + length (params p q))"
    by simp_all
  show ?thesis
    unfolding escape_def s prod.case Let_def e l [unfolded m0_def s snd_conv] bind.bind_lunit m1_def [unfolded s snd_conv, symmetric]
    using a unfolding m1_def s by simp
qed

lemma ansi_loop_step:
  assumes "strlen (snd s) text = Some (of_nat n)" "n < 2147483647" "i \<le> Suc n"
  shows "ansi_loop text p1 p2 (of_nat i - 1) s =
    (if Suc n \<le> i then Some s
     else let c = snd s (text + of_nat i)
          in if c \<noteq> 27 then ansi_loop text p1 p2 (of_nat (Suc i) - 1) (putc c s)
             else if Suc i < n \<and> snd s (text + of_nat (Suc i)) = 91
             then Option.bind (escape text p1 p2 (of_nat i) s) (\<lambda>(index, s). ansi_loop text p1 p2 index s)
             else ansi_loop text p1 p2 (of_nat (Suc i) - 1) s)"
proof -
  have "(of_nat i - 1 :: i32) = word_of_int (int i - 1)" by simp
  then have s1: "sint (of_nat i - 1 :: i32) = int i - 1" using assms(2,3) by (simp only: sint_of_int32)
  have s2: "sint (of_nat n :: i32) = int n" "sint (of_nat (Suc i) :: i32) = int (Suc i)" if "i \<le> n"
    using assms(2) that by (simp_all only: sint_of_nat32)
  have x: "sext (of_nat i) = of_nat i" "sext (of_nat (Suc i)) = of_nat (Suc i)" if "i \<le> n"
    using that assms(2) by (simp_all only: sext_of_nat)
  have e: "(of_nat i :: i32) - 1 + 1 = of_nat i" "(of_nat i :: i32) + 1 = of_nat (Suc i)"
    "(of_nat (Suc i) :: i32) - 1 = of_nat i" by simp_all
  show ?thesis
  proof (cases "i \<le> n")
    case True
    then have l: "sint (of_nat i - 1 :: i32) < sint (of_nat n :: i32)" using s1 s2 by simp
    have k: "sint (of_nat (Suc i) :: i32) < sint (of_nat n :: i32) \<longleftrightarrow> Suc i < n" unfolding s2(1) [OF True] s2(2) [OF True] by (rule of_nat_less_iff)
    show ?thesis
      by (subst ansi_loop.simps) (use True in \<open>simp only: assms(1) bind.bind_lunit l k e x Let_def simp_thms if_True if_False split: if_split\<close>, auto)
  next
    case False
    have "sint (of_nat n :: i32) = int n" using assms(2) by (intro sint_of_nat32) simp
    then have "\<not> sint (of_nat i - 1 :: i32) < sint (of_nat n :: i32)" using s1 False by simp
    then show ?thesis using False by (subst ansi_loop.simps) (simp add: assms(1))
  qed
qed

lemma encode_length: "token_ok t \<Longrightarrow> 0 < length (encode t)"
  by (cases t) simp_all

lemma ansi_loop_tokens:
  assumes T: "length T < 2147483648" "\<forall>i \<le> length T. off_screen d (text + of_nat i)"
      "clear p1 text (length T)" "clear p2 text (length T)" "3 \<le> unat (p1 - p2)" "3 \<le> unat (p2 - p1)"
    and "list_all token_ok ts" "ansi_inv d text T s" "drop i T = concat (map encode ts)" "i \<le> length T" "T \<noteq> []"
  shows "ansi_loop text p1 p2 (of_nat i - 1) s = Some (fold (run_token p1 p2) ts s)"
  using assms(7-)
proof (induction ts arbitrary: i s)
  case Nil
  have "cstr (snd s) text T" using Nil.prems(2) by (simp add: ansi_inv_def)
  then have "strlen (snd s) text = Some (of_nat (length T - 1))" using T(1) by (rule strlen_cstr)
  from ansi_loop_step [OF this, of i p1 p2] show ?case using Nil.prems T(1) by simp
next
  case (Cons t ts)
  have c: "cstr (snd s) text T" using Cons.prems(2) by (simp add: ansi_inv_def)
  have ok: "token_ok t" "list_all token_ok ts" using Cons.prems(1) by simp_all
  define k where "k = i + length (encode t)"
  have "length (drop i T) = length (encode t) + length (concat (map encode ts))"
    unfolding Cons.prems(3) by simp
  moreover have "0 < length (encode t)" by (rule encode_length [OF ok(1)])
  ultimately have k: "k \<le> length T" "i < length T" unfolding k_def length_drop by linarith+
  have dk: "drop k T = concat (map encode ts)"
    using arg_cong [OF Cons.prems(3), of "drop (length (encode t))"] by (simp add: k_def add.commute)
  have IH: "ansi_loop text p1 p2 (of_nat k - 1) (run_token p1 p2 t s) = Some (fold (run_token p1 p2) ts (run_token p1 p2 t s))"
    by (rule Cons.IH [OF ok(2) run_token_inv [OF Cons.prems(2) ok(1) T(2,3,4)] dk k(1) Cons.prems(5)])
  have n: "strlen (snd s) text = Some (of_nat (length T - 1))" by (rule strlen_cstr [OF c T(1)])
  have m: "snd s (text + of_nat j) = encode t ! (j - i)" if "i \<le> j" "j < k" for j
  proof -
    have "snd s (text + of_nat j) = T ! j" using cstr_nth [OF c, of j] that k by simp
    also have "\<dots> = drop i T ! (j - i)" using that k by simp
    also have "\<dots> = (encode t @ concat (map encode ts)) ! (j - i)" by (simp only: Cons.prems(3) list.map concat.simps)
    also have "\<dots> = encode t ! (j - i)"
    proof -
      have "j - i < length (encode t)" using that unfolding k_def by linarith
      then show ?thesis by (simp only: nth_append if_True)
    qed
    finally show ?thesis .
  qed
  have step: "ansi_loop text p1 p2 (of_nat i - 1) s =
    (let c = snd s (text + of_nat i)
     in if c \<noteq> 27 then ansi_loop text p1 p2 (of_nat (Suc i) - 1) (putc c s)
        else if Suc i < length T - 1 \<and> snd s (text + of_nat (Suc i)) = 91
        then Option.bind (escape text p1 p2 (of_nat i) s) (\<lambda>(index, s). ansi_loop text p1 p2 index s)
        else ansi_loop text p1 p2 (of_nat (Suc i) - 1) s)"
  proof -
    have "length T - 1 < 2147483647" "i \<le> Suc (length T - 1)" "\<not> Suc (length T - 1) \<le> i" using T(1) k(2) by simp_all
    then show ?thesis using ansi_loop_step [OF n, of i p1 p2] by simp
  qed
  show ?case
  proof (cases t)
    case (Chr c)
    have "snd s (text + of_nat i) = c" using m [of i] Chr by (simp add: k_def)
    moreover have "c \<noteq> 27" using ok(1) Chr by simp
    moreover have "k = Suc i" by (simp add: k_def Chr)
    ultimately show ?thesis using step IH Chr by simp
  next
    case (Sgr p q)
    have l: "3 < length (encode t)" using ok(1) Sgr by (cases q; cases p) (auto simp: params_def)
    have b: "snd s (text + of_nat i) = 27" "snd s (text + of_nat (Suc i)) = 91" "Suc i < length T - 1"
      using m [of i] m [of "Suc i"] l k by (simp_all add: k_def Sgr)
    have "escape text p1 p2 (of_nat i) s = Some (of_nat (i + length (encode (Sgr p q))) - 1, run_token p1 p2 (Sgr p q) s)"
      by (rule escape_token [OF T(1) c T(3-6)]) (use Cons.prems(3) ok Sgr in simp_all)
    then show ?thesis using step b IH by (simp add: Sgr k_def Let_def)
  qed
qed

lemma ANSIPrint_tokens:
  assumes "cstr m text (concat (map encode ts))" "list_all token_ok ts" "ts \<noteq> []"
    and "length (concat (map encode ts)) < 2147483648" "screen_ok d"
    and "\<forall>i \<le> length (concat (map encode ts)). off_screen d (text + of_nat i)"
    and "clear p1 text (length (concat (map encode ts)))" "clear p2 text (length (concat (map encode ts)))"
    and "3 \<le> unat (p1 - p2)" "3 \<le> unat (p2 - p1)"
  shows "ANSIPrint text p1 p2 (d, m) = Some (fold (run_token p1 p2) ts (d, m))"
proof -
  let ?T = "concat (map encode ts)"
  obtain t ts' where "ts = t # ts'" using assms(3) by (cases ts) auto
  then have "?T \<noteq> []" using assms(2) encode_length [of t] by auto
  then have "ansi_loop text p1 p2 (of_nat 0 - 1) (d, m) = Some (fold (run_token p1 p2) ts (d, m))"
    by (intro ansi_loop_tokens [OF assms(4,6-10,2)]) (use assms(1,5) in \<open>simp_all add: ansi_inv_def\<close>)
  then show ?thesis by (simp add: ANSIPrint_def)
qed

text \<open>C31: \<open>ANSIPrint\<close> refines the reading of the text as characters and escape sequences: on a
  text of them that lies clear of the screen it ends, and its effect is that of the tokens in
  order.  In particular a sequence with one parameter only ends with the value 0, which resets
  the colour to white, so that such a sequence never sets a colour.\<close>

theorem ANSIPrint_interprets:
  assumes "cstr m text (concat (map encode ts))" "list_all token_ok ts" "ts \<noteq> []"
    and "length (concat (map encode ts)) < 2147483648" "screen_ok d"
    and "\<forall>i \<le> length (concat (map encode ts)). off_screen d (text + of_nat i)"
    and "clear p1 text (length (concat (map encode ts)))" "clear p2 text (length (concat (map encode ts)))"
    and "3 \<le> unat (p1 - p2)" "3 \<le> unat (p2 - p1)"
  shows "ANSIPrint text p1 p2 (d, m) = Some (fold (run_token p1 p2) ts (d, m)) \<and>
    (\<forall>p s. colour (fst (run_token p1 p2 (Sgr p None) s)) = WHITE)"
  using ANSIPrint_tokens [OF assms] by (simp add: second_def dec_value_def handle_def)

text \<open>The text ESC [ 1 ; 3 1 m sets the light red colour.\<close>

abbreviation example_tokens :: "token list" where "example_tokens \<equiv> [Sgr [49] (Some [51, 49])]"

definition example_text :: mem where
  "example_text = put_str 0x1000 [27, 91, 49, 59, 51, 49, 109] (\<lambda>_. 0)"

lemma example_text_ok:
  "cstr example_text 0x1000 (concat (map encode example_tokens))" "list_all token_ok example_tokens"
  "length (concat (map encode example_tokens)) = 7" "screen_ok example_display"
  "i \<le> 7 \<Longrightarrow> off_screen example_display (0x1000 + of_nat i)"
  "clear 0x2000 0x1000 7" "clear 0x3000 0x1000 7"
proof -
  have i: "i \<in> {0, 1, 2, 3, 4, 5, 6, 7}" if "i \<le> 7" for i :: nat using that by auto
  show "screen_ok example_display"
    by (simp add: example_display_def screen_ok_def getWidth_def getHeight_def Let_def)
  show "cstr example_text 0x1000 (concat (map encode example_tokens))" by (simp add: params_def example_text_def)
  show "list_all token_ok example_tokens" by (simp add: is_dec_def second_def)
  show "length (concat (map encode example_tokens)) = 7" by (simp add: params_def)
  show "off_screen example_display (0x1000 + of_nat i)" if "i \<le> 7" for i
    using i [OF that] by (auto simp: off_screen_def example_display_def Let_def)
  show "clear 0x2000 0x1000 7" "clear 0x3000 0x1000 7"
    unfolding clear_def using i by fastforce+
qed

theorem ANSIPrint_interprets_witness:
  "\<exists>d m. ANSIPrint 0x1000 0x2000 0x3000 (example_display, example_text) = Some (d, m) \<and> colour d = LIGHTRED"
proof -
  have run: "fold (run_token 0x2000 0x3000) example_tokens (example_display, example_text) =
      (example_display\<lparr>colour := LIGHTRED\<rparr>, param_memory 0x2000 0x3000 [49] [51, 49] example_text)"
    by (simp add: second_def dec_value_def handle_def)
  have "ANSIPrint 0x1000 0x2000 0x3000 (example_display, example_text) =
      Some (fold (run_token 0x2000 0x3000) example_tokens (example_display, example_text))"
    by (rule conjunct1 [OF ANSIPrint_interprets [OF example_text_ok(1,2)]])
      (use example_text_ok(4-7) in \<open>simp_all only: example_text_ok(3), simp_all\<close>)
  then show ?thesis unfolding run by (intro exI conjI) (assumption, simp)
qed

end
