(* ===== verification/Cpu.thy ===== *)
theory Cpu
  imports PortIO
begin

unbundle bit_operations_syntax

text \<open>
  The tables of the processor: the global descriptor table (\<open>cpu/gdt.cpp\<close>) with the task state
  segment (\<open>cpu/tss.cpp\<close>), the interrupt descriptor table and the two interrupt controllers
  (\<open>cpu/intrerupts.cpp\<close>).  The tables are bytes of memory, because a descriptor of the task
  state segment lies over two entries of the array.
\<close>

section \<open>Stores of the fields\<close>

definition store16 :: "u64 \<Rightarrow> u16 \<Rightarrow> mem \<Rightarrow> mem" where "store16 a w m = store_le 2 a w m"
definition store8 :: "u64 \<Rightarrow> u8 \<Rightarrow> mem \<Rightarrow> mem" where "store8 a w m = m(a := w)"

text \<open>A store as updates of single bytes, for evaluation.\<close>

lemma store_le_step:
  assumes "n = Suc k" and "k < 18446744073709551615"
  shows "store_le n a w m = (store_le k a w m)(a + of_nat k := ucast (drop_bit (8 * k) w))"
  using eq_base_plus [of k _ a] assms by (auto simp: store_le_def fun_eq_iff less_Suc_eq)

lemma store_le_1: "store_le 1 a w m = m(a := ucast w)"
  using store_le_step [of 1 0 a w m] by (simp add: store_le_def)

lemma store_le_2: "store_le 2 a w m = m(a := ucast w, a + 1 := ucast (drop_bit 8 w))"
  using store_le_step [of 2 1 a w m] store_le_1 [of a w m] by (simp del: fun_upd_apply)

lemma store_le_4:
  "store_le 4 a w m = m(a := ucast w, a + 1 := ucast (drop_bit 8 w),
     a + 2 := ucast (drop_bit 16 w), a + 3 := ucast (drop_bit 24 w))"
  using store_le_step [of 4 3 a w m] store_le_step [of 3 2 a w m]
  by (simp add: store_le_2 del: fun_upd_apply)

lemma store_le_8:
  "store_le 8 a w m = m(a := ucast w, a + 1 := ucast (drop_bit 8 w),
     a + 2 := ucast (drop_bit 16 w), a + 3 := ucast (drop_bit 24 w),
     a + 4 := ucast (drop_bit 32 w), a + 5 := ucast (drop_bit 40 w),
     a + 6 := ucast (drop_bit 48 w), a + 7 := ucast (drop_bit 56 w))"
  using store_le_step [of 8 7 a w m] store_le_step [of 7 6 a w m] store_le_step [of 6 5 a w m]
    store_le_step [of 5 4 a w m]
  by (simp add: store_le_4 del: fun_upd_apply)

lemma store_bytes:
  "store8 a b m = m(a := b)"
  "store16 a v m = m(a := ucast v, a + 1 := ucast (drop_bit 8 v))"
  "store32 a w m = m(a := ucast w, a + 1 := ucast (drop_bit 8 w), a + 2 := ucast (drop_bit 16 w),
     a + 3 := ucast (drop_bit 24 w))"
  by (simp_all add: store8_def store16_def store32_def store_le_2 store_le_4)

section \<open>The global descriptor table\<close>

definition GDT_MAX_DESCRIPTORS :: i32 where "GDT_MAX_DESCRIPTORS = 16"

definition GDT_DESC_ACCESS :: u8 where "GDT_DESC_ACCESS = 0x01"
definition GDT_DESC_READWRITE :: u8 where "GDT_DESC_READWRITE = 0x02"
definition GDT_DESC_EXECUTABLE :: u8 where "GDT_DESC_EXECUTABLE = 0x08"
definition GDT_DESC_CODEDATA :: u8 where "GDT_DESC_CODEDATA = 0x10"
definition GDT_DESC_DPL :: u8 where "GDT_DESC_DPL = 0x60"
definition GDT_DESC_PRESENT :: u8 where "GDT_DESC_PRESENT = 0x80"
definition GDT_GRAN_64BIT :: u8 where "GDT_GRAN_64BIT = 0x20"
definition GDT_GRAN_4K :: u8 where "GDT_GRAN_4K = 0x80"

definition BASE_DESC :: u8 where
  "BASE_DESC = GDT_DESC_PRESENT OR GDT_DESC_READWRITE OR GDT_DESC_CODEDATA"
definition BASE_GRAN :: u8 where "BASE_GRAN = GDT_GRAN_64BIT OR GDT_GRAN_4K"

lemmas gdt_consts = GDT_MAX_DESCRIPTORS_def GDT_DESC_ACCESS_def GDT_DESC_READWRITE_def
  GDT_DESC_EXECUTABLE_def GDT_DESC_CODEDATA_def GDT_DESC_DPL_def GDT_DESC_PRESENT_def
  GDT_GRAN_64BIT_def GDT_GRAN_4K_def BASE_DESC_def BASE_GRAN_def

record gdt_info_selectors =
  KCode :: i32
  KData :: i32
  UCode :: i32
  UData :: i32

text \<open>The static variables: where the table and the task state segment lie, and the counters.\<close>

record gdt =
  GDTEntries :: u64
  TSSdescriptors :: u64
  GDTIndexTable :: i32
  ringGDT :: i32
  GDTInfoSelectors :: gdt_info_selectors

definition gdt_entry :: "gdt \<Rightarrow> u64" where
  "gdt_entry g = GDTEntries g + 8 * sext (GDTIndexTable g)"

definition setGDTRing :: "i32 \<Rightarrow> gdt \<Rightarrow> gdt" where
  "setGDTRing ring g = g\<lparr>ringGDT := ring\<rparr>"

definition gdtInstallDescriptor :: "u64 \<Rightarrow> u64 \<Rightarrow> u8 \<Rightarrow> u8 \<Rightarrow> gdt \<times> mem \<Rightarrow> i32 \<times> gdt \<times> mem" where
  "gdtInstallDescriptor base limit acc flags = (\<lambda>(g, m).
     if sint (GDTIndexTable g) \<ge> sint GDT_MAX_DESCRIPTORS then (0, g, m)
     else
       let e = gdt_entry g;
           m = store16 (e + 2) (ucast (base AND 0xFFFF)) m;
           m = store8 (e + 4) (ucast (drop_bit 16 base AND 0xFF)) m;
           m = store8 (e + 7) (ucast (drop_bit 24 base AND 0xFF)) m;
           m = store16 e (ucast (limit AND 0xFFFF)) m;
           m = store8 (e + 6) (ucast (drop_bit 16 limit AND 0x0F)) m;
           m = store8 (e + 5) acc m;
           m = store8 (e + 6) (m (e + 6) OR (flags AND 0xF0)) m;
           g = g\<lparr>GDTIndexTable := GDTIndexTable g + 1\<rparr>
       in (ucast (sext (GDTIndexTable g - 1) * 8 + sext (ringGDT g)), g, m))"

definition gdtInstallTSS :: "u64 \<Rightarrow> u64 \<Rightarrow> gdt \<times> mem \<Rightarrow> u16 \<times> gdt \<times> mem" where
  "gdtInstallTSS base limit = (\<lambda>(g, m).
     if sint (GDTIndexTable g) \<ge> sint GDT_MAX_DESCRIPTORS then (0, g, m)
     else
       let TSSType = ucast (GDT_DESC_ACCESS OR GDT_DESC_EXECUTABLE OR GDT_DESC_PRESENT) :: u16;
           d = gdt_entry g;
           m = store8 (d + 5) (ucast (TSSType AND 0x00FF)) m;
           m = store16 (d + 2) (ucast (base AND 0xFFFF)) m;
           m = store8 (d + 4) (ucast (drop_bit 16 (base AND 0xFF0000))) m;
           m = store8 (d + 7) (ucast (drop_bit 24 (base AND 0xFF000000))) m;
           m = store32 (d + 8) (ucast (drop_bit 32 base)) m;
           m = store16 d (ucast (limit AND 0xFFFF)) m;
           m = store8 (d + 6) (ucast (drop_bit 16 (limit AND 0xF0000))) m;
           m = store32 (d + 12) 0 m;
           g = g\<lparr>GDTIndexTable := GDTIndexTable g + 2\<rparr>
       in (ucast (sext (GDTIndexTable g - 2) * 8), g, m))"

section \<open>The task state segment\<close>

text \<open>\<open>struct TSS\<close> is packed: 104 bytes, \<open>RSP[0]\<close> at offset 4 and \<open>IOPBOffset\<close> at 102.\<close>

definition TSS_SIZE :: u64 where "TSS_SIZE = 104"

definition TSSGet :: "i32 \<Rightarrow> gdt \<Rightarrow> u64" where
  "TSSGet numCPU g = TSSdescriptors g + sext numCPU * TSS_SIZE"

definition TSSInit :: "gdt \<times> mem \<Rightarrow> gdt \<times> mem" where
  "TSSInit = (\<lambda>(g, m). (g, memset (TSSdescriptors g) 0 (TSS_SIZE * 1) m))"

definition TSSInstall :: "i32 \<Rightarrow> gdt \<times> mem \<Rightarrow> u16 \<times> gdt \<times> mem" where
  "TSSInstall numCPU = (\<lambda>(g, m).
     let tss_base = TSSGet numCPU g;
         m = memset tss_base 0 TSS_SIZE m;
         (location, g, m) = gdtInstallTSS tss_base TSS_SIZE (g, m);
         m = store16 (TSSGet numCPU g + 102) (ucast TSS_SIZE) m
     in (location, g, m))"

definition TSSSetStack :: "i32 \<Rightarrow> u64 \<Rightarrow> gdt \<Rightarrow> mem \<Rightarrow> mem" where
  "TSSSetStack numCPU stack g m = store64 (TSSGet numCPU g + 4) stack m"

definition TSSGetStack :: "i32 \<Rightarrow> gdt \<Rightarrow> mem \<Rightarrow> u64" where
  "TSSGetStack numCPU g m = load64 m (TSSGet numCPU g + 4)"

text \<open>The six descriptors of \<open>gdtInit\<close> and their selectors, then the segment and the loads.\<close>

definition install_kernel :: "gdt \<times> mem \<Rightarrow> gdt \<times> mem" where
  "install_kernel = (\<lambda>(g, m).
     let g = setGDTRing 0 g;
         (_, g, m) = gdtInstallDescriptor 0 0 0x00 0x00 (g, m);
         (k, g, m) = gdtInstallDescriptor 0 0 (BASE_DESC OR GDT_DESC_EXECUTABLE) BASE_GRAN (g, m);
         g = g\<lparr>GDTInfoSelectors := GDTInfoSelectors g\<lparr>KCode := k\<rparr>\<rparr>;
         (k, g, m) = gdtInstallDescriptor 0 0 BASE_DESC BASE_GRAN (g, m);
         g = g\<lparr>GDTInfoSelectors := GDTInfoSelectors g\<lparr>KData := k\<rparr>\<rparr>
     in (g, m))"

definition install_user :: "gdt \<times> mem \<Rightarrow> gdt \<times> mem" where
  "install_user = (\<lambda>(g, m).
     let g = setGDTRing 3 g;
         (_, g, m) = gdtInstallDescriptor 0 0 0x00 0x00 (g, m);
         (k, g, m) = gdtInstallDescriptor 0 0 (BASE_DESC OR GDT_DESC_DPL) BASE_GRAN (g, m);
         g = g\<lparr>GDTInfoSelectors := GDTInfoSelectors g\<lparr>UData := k\<rparr>\<rparr>;
         (k, g, m) = gdtInstallDescriptor 0 0
           (BASE_DESC OR GDT_DESC_EXECUTABLE OR GDT_DESC_DPL) BASE_GRAN (g, m);
         g = g\<lparr>GDTInfoSelectors := GDTInfoSelectors g\<lparr>UCode := k\<rparr>\<rparr>
     in (setGDTRing 0 g, m))"

definition gdtInit :: "gdt \<times> mem \<Rightarrow> trace \<Rightarrow> gdt \<times> mem \<times> trace" where
  "gdtInit gm tr =
     (let gm = TSSInit (install_user (install_kernel gm));
          (TSSlocation, g, m) = TSSInstall 0 gm;
          tr = tr @ [Lgdt (8 * 16 - 1) (GDTEntries g)]
      in (g, m, tr @ [Ltr TSSlocation]))"

section \<open>The interrupt descriptor table\<close>

text \<open>\<open>idt\<close> points at the packed pair of limit and offset.\<close>

definition setOffset :: "u64 \<Rightarrow> u64 \<Rightarrow> mem \<Rightarrow> mem" where
  "setOffset e Offset m =
     (let m = store16 e (ucast (Offset AND 0x000000000000ffff)) m;
          m = store16 (e + 6) (ucast (drop_bit 16 (Offset AND 0x00000000ffff0000))) m
      in store32 (e + 8) (ucast (drop_bit 32 (Offset AND 0xffffffff00000000))) m)"

definition getOffset :: "u64 \<Rightarrow> mem \<Rightarrow> u64" where
  "getOffset e m =
     (let offset = 0;
          offset = offset OR ucast (load16 m e);
          offset = offset OR push_bit 16 (ucast (load16 m (e + 6)));
          offset = offset OR push_bit 32 (ucast (load32 m (e + 8)))
      in offset)"

definition CreateIntrerupt :: "u64 \<Rightarrow> u64 \<Rightarrow> u8 \<Rightarrow> u8 \<Rightarrow> u8 \<Rightarrow> mem \<Rightarrow> mem" where
  "CreateIntrerupt idt handler offset typeAttributes selector m =
     (let int_NewInt = load64 m (idt + 2) + ucast offset * 16;
          m = setOffset int_NewInt handler m;
          m = store8 (int_NewInt + 5) typeAttributes m
      in store16 (int_NewInt + 2) (ucast selector) m)"

definition IDT_TA_InterruptGate :: u8 where "IDT_TA_InterruptGate = 0b10001110"

section \<open>The interrupt controllers\<close>

definition PIC1_COMMAND :: u32 where "PIC1_COMMAND = 0x20"
definition PIC1_DATA :: u32 where "PIC1_DATA = 0x21"
definition PIC2_COMMAND :: u32 where "PIC2_COMMAND = 0xA0"
definition PIC2_DATA :: u32 where "PIC2_DATA = 0xA1"
definition PIC_EOI :: u8 where "PIC_EOI = 0x20"
definition ICW1_INIT :: u8 where "ICW1_INIT = 0x10"
definition ICW1_ICW4 :: u8 where "ICW1_ICW4 = 0x01"
definition ICW4_8086 :: u8 where "ICW4_8086 = 0x01"

lemmas pic_consts = PIC1_COMMAND_def PIC1_DATA_def PIC2_COMMAND_def PIC2_DATA_def PIC_EOI_def
  ICW1_INIT_def ICW1_ICW4_def ICW4_8086_def

definition PIC_EndMaster :: "unit io" where
  "PIC_EndMaster = outportb PIC1_COMMAND PIC_EOI"

definition PIC_EndSlave :: "unit io" where
  "PIC_EndSlave = do { outportb PIC2_COMMAND PIC_EOI; outportb PIC1_COMMAND PIC_EOI }"

definition RemapPIC :: "hardware \<Rightarrow> unit io" where
  "RemapPIC hw =
     do { a1 \<leftarrow> inportb hw PIC1_DATA;
          io_wait;
          a2 \<leftarrow> inportb hw PIC2_DATA;
          io_wait;
          outportb PIC1_COMMAND (ICW1_INIT OR ICW1_ICW4);
          io_wait;
          outportb PIC2_COMMAND (ICW1_INIT OR ICW1_ICW4);
          io_wait;
          outportb PIC1_DATA 0x20;
          io_wait;
          outportb PIC2_DATA 0x28;
          io_wait;
          outportb PIC1_DATA 4;
          io_wait;
          outportb PIC2_DATA 2;
          io_wait;
          outportb PIC1_DATA ICW4_8086;
          io_wait;
          outportb PIC2_DATA ICW4_8086;
          io_wait;
          outportb PIC1_DATA a1;
          io_wait;
          outportb PIC2_DATA a2 }"


section \<open>Descriptors as words\<close>

text \<open>A code or data descriptor, and the two words of the one of a task state segment.\<close>

definition descriptor :: "u64 \<Rightarrow> u64 \<Rightarrow> u8 \<Rightarrow> u8 \<Rightarrow> u64" where
  "descriptor base limit acc flags =
     (limit AND mask 16) OR push_bit 16 (base AND mask 24) OR push_bit 40 (ucast acc)
     OR push_bit 48 (drop_bit 16 limit AND mask 4) OR push_bit 52 (ucast (drop_bit 4 flags))
     OR push_bit 56 (drop_bit 24 base AND mask 8)"

lemma masks:
  "(0xFFFF :: u64) = mask 16" "(0xFF :: u64) = mask 8" "(0x0F :: u64) = mask 4"
  "(0xF0 :: u8) = push_bit 4 (mask 4)" "(0xFF0000 :: u64) = push_bit 16 (mask 8)"
  "(0xFF000000 :: u64) = push_bit 24 (mask 8)" "(0xF0000 :: u64) = push_bit 16 (mask 4)"
  by (simp_all add: mask_eq_exp_minus_1 push_bit_eq_mult)

lemma descriptor_bytes:
  "ucast (ucast (limit AND 0xFFFF) :: u16) = (ucast (descriptor base limit acc flags) :: u8)"
  "ucast (drop_bit 8 (ucast (limit AND 0xFFFF) :: u16)) = (ucast (drop_bit 8 (descriptor base limit acc flags)) :: u8)"
  "ucast (ucast (base AND 0xFFFF) :: u16) = (ucast (drop_bit 16 (descriptor base limit acc flags)) :: u8)"
  "ucast (drop_bit 8 (ucast (base AND 0xFFFF) :: u16)) = (ucast (drop_bit 24 (descriptor base limit acc flags)) :: u8)"
  "ucast (drop_bit 16 base AND 0xFF) = (ucast (drop_bit 32 (descriptor base limit acc flags)) :: u8)"
  "acc = ucast (drop_bit 40 (descriptor base limit acc flags))"
  "ucast (drop_bit 16 limit AND 0x0F) OR (flags AND 0xF0) = ucast (drop_bit 48 (descriptor base limit acc flags))"
  "ucast (drop_bit 24 base AND 0xFF) = (ucast (drop_bit 56 (descriptor base limit acc flags)) :: u8)"
  unfolding descriptor_def masks
  by (rule bit_word_eqI; auto simp: bit_simps dest: bit_imp_le_length)+

lemma store64_bytes:
  "store64 a u m = m(a := ucast u, a + 1 := ucast (drop_bit 8 u), a + 2 := ucast (drop_bit 16 u),
     a + 3 := ucast (drop_bit 24 u), a + 4 := ucast (drop_bit 32 u), a + 5 := ucast (drop_bit 40 u),
     a + 6 := ucast (drop_bit 48 u), a + 7 := ucast (drop_bit 56 u))"
  by (simp add: store64_def store_le_8)

lemma gdtInstallDescriptor_store:
  assumes "sint (GDTIndexTable g) < 16"
  shows "gdtInstallDescriptor base limit acc flags (g, m) =
     (ucast (sext (GDTIndexTable g) * 8 + sext (ringGDT g)), g\<lparr>GDTIndexTable := GDTIndexTable g + 1\<rparr>,
      store64 (gdt_entry g) (descriptor base limit acc flags) m)"
proof -
  define D where "D = descriptor base limit acc flags"
  note b = descriptor_bytes [where limit = limit and base = base and acc = acc and flags = flags, folded D_def]
  show ?thesis
    unfolding D_def [symmetric] using assms
    by (simp add: gdtInstallDescriptor_def Let_def GDT_MAX_DESCRIPTORS_def store_bytes store64_bytes
        b(1-5,7,8) b(6) [symmetric] fun_eq_iff)
qed

lemma tss_bytes:
  "ucast (ucast (drop_bit 32 base) :: u32) = (ucast (drop_bit 32 base) :: u8)"
  "ucast (drop_bit 8 (ucast (drop_bit 32 base) :: u32)) = (ucast (drop_bit 40 (base :: u64)) :: u8)"
  "ucast (drop_bit 16 (ucast (drop_bit 32 base) :: u32)) = (ucast (drop_bit 48 (base :: u64)) :: u8)"
  "ucast (drop_bit 24 (ucast (drop_bit 32 base) :: u32)) = (ucast (drop_bit 56 (base :: u64)) :: u8)"
  "ucast (drop_bit 64 (base :: u64)) = (0 :: u8)" "ucast (drop_bit 72 (base :: u64)) = (0 :: u8)"
  "ucast (drop_bit 80 (base :: u64)) = (0 :: u8)" "ucast (drop_bit 88 (base :: u64)) = (0 :: u8)"
  "ucast (drop_bit 16 (base AND 0xFF0000)) = (ucast (drop_bit 16 base AND 0xFF) :: u8)"
  "ucast (drop_bit 24 (base AND 0xFF000000)) = (ucast (drop_bit 24 base AND 0xFF) :: u8)"
  "ucast (drop_bit 16 ((limit :: u64) AND 0xF0000)) = (ucast (drop_bit 16 limit AND 0x0F) :: u8)"
  unfolding masks
  by (rule bit_word_eqI; auto simp: bit_simps dest: bit_imp_le_length)+

lemma gdtInstallTSS_store:
  assumes "sint (GDTIndexTable g) < 16"
  shows "gdtInstallTSS base limit (g, m) =
     (ucast (sext (GDTIndexTable g) * 8), g\<lparr>GDTIndexTable := GDTIndexTable g + 2\<rparr>,
      store64 (gdt_entry g + 8) (drop_bit 32 base)
        (store64 (gdt_entry g) (descriptor base limit 0x89 0) m))"
proof -
  define D where "D = descriptor base limit 0x89 0"
  note b = descriptor_bytes [where limit = limit and base = base and acc = "0x89" and flags = 0, folded D_def]
  have b7: "ucast (drop_bit 16 limit AND 15) = (ucast (drop_bit 48 D) :: u8)" using b(7) by simp
  have t: "ucast ((ucast (GDT_DESC_ACCESS OR GDT_DESC_EXECUTABLE OR GDT_DESC_PRESENT) :: u16) AND 0x00FF) =
      (0x89 :: u8)" by (simp add: gdt_consts)
  show ?thesis
    unfolding D_def [symmetric] using assms
    by (simp add: gdtInstallTSS_def Let_def GDT_MAX_DESCRIPTORS_def t)
       (simp add: store_bytes store64_bytes tss_bytes b(1-5,8) b7 b(6) [symmetric] fun_eq_iff)
qed

section \<open>What the tables hold\<close>

lemma load64_store64_apart:
  assumes "8 \<le> unat (a - b)" and "8 \<le> unat (b - a)"
  shows "load64 (store64 b w m) a = load64 m a"
proof (rule load64_cong)
  fix i :: nat assume i: "i < 8"
  have ne: "a \<noteq> b" using assms(1) by auto
  have "unat (a - b) = 18446744073709551616 - unat (b - a)"
    using unat_uminus [of "b - a"] ne by simp
  then have "unat (a - b) + i < 18446744073709551616" using assms i by linarith
  moreover have "unat (of_nat i :: u64) = i" using i by (intro unat_of_nat64) simp
  ultimately have "unat ((a - b) + of_nat i) = unat (a - b) + i"
    by (subst unat_add_small) simp_all
  moreover have e: "a + of_nat i - b = (a - b) + of_nat i" by simp
  ultimately have "8 \<le> unat (a + of_nat i - b)" using assms(1) unfolding e by linarith
  then show "store64 b w m (a + of_nat i) = m (a + of_nat i)"
    by (simp add: store64_def store_le_other)
qed

definition apart_from_tss :: "gdt \<Rightarrow> bool" where
  "apart_from_tss g \<longleftrightarrow> (\<forall>i < 128. 104 \<le> unat (GDTEntries g + of_nat i - TSSdescriptors g))"

lemma gdtInit_memory:
  assumes "GDTIndexTable g = 0" and "tab = GDTEntries g" and "tss = TSSdescriptors g"
  shows "gdtInit (g, m) tr =
    (g\<lparr>GDTIndexTable := 8, ringGDT := 0,
       GDTInfoSelectors := \<lparr>KCode = 0x08, KData = 0x10, UCode = 0x2B, UData = 0x23\<rparr>\<rparr>,
     store16 (tss + 102) 104 (store64 (tab + 56) (drop_bit 32 tss) (store64 (tab + 48) (descriptor tss 104 0x89 0)
       (memset tss 0 104 (memset tss 0 104 (store64 (tab + 40) (descriptor 0 0 0xFA 0xA0)
         (store64 (tab + 32) (descriptor 0 0 0xF2 0xA0) (store64 (tab + 24) (descriptor 0 0 0 0)
           (store64 (tab + 16) (descriptor 0 0 0x92 0xA0) (store64 (tab + 8) (descriptor 0 0 0x9A 0xA0)
             (store64 tab (descriptor 0 0 0 0) m)))))))))),
     tr @ [Lgdt 127 tab, Ltr 48])"
proof -
  obtain sel where sel: "GDTInfoSelectors g = sel" by simp
  show ?thesis
    using assms
    by (cases sel) (simp add: gdtInit_def install_kernel_def install_user_def setGDTRing_def
        gdtInstallDescriptor_store gdtInstallTSS_store gdt_entry_def TSSInit_def TSSInstall_def
        TSSGet_def TSS_SIZE_def sext_def Let_def gdt_consts sel,
       simp add: add.commute)
qed

text \<open>Memories that agree on the bytes of the table.\<close>

definition agree :: "u64 \<Rightarrow> mem \<Rightarrow> mem \<Rightarrow> bool" where
  "agree tab m1 m2 \<longleftrightarrow> (\<forall>i < 128. m1 (tab + of_nat i) = m2 (tab + of_nat i))"

lemma agree_store: "agree tab m1 m2 \<Longrightarrow> agree tab (store_le k a w m1) (store_le k a w m2)"
  by (simp add: agree_def store_le_def)

lemma agree_outside:
  "agree tab m1 m2 \<Longrightarrow> (\<And>i. i < 128 \<Longrightarrow> m (tab + of_nat i) = m1 (tab + of_nat i)) \<Longrightarrow> agree tab m m2"
  by (simp add: agree_def)

lemma agree_tss:
  assumes "apart_from_tss g" and "agree (GDTEntries g) m1 m2"
  shows "agree (GDTEntries g) (memset (TSSdescriptors g) 0 104 m1) m2"
    and "agree (GDTEntries g) (store16 (TSSdescriptors g + 102) w m1) m2"
proof -
  show "agree (GDTEntries g) (memset (TSSdescriptors g) 0 104 m1) m2"
    using assms by (intro agree_outside [OF assms(2)]) (auto simp: memset_eq apart_from_tss_def word_less_nat_alt)
  have "store16 (TSSdescriptors g + 102) w m1 (GDTEntries g + of_nat i) = m1 (GDTEntries g + of_nat i)"
    if "i < 128" for i
  proof -
    let ?x = "GDTEntries g + of_nat i"
    have f: "104 \<le> unat (?x - TSSdescriptors g)" using assms(1) that by (simp add: apart_from_tss_def)
    have "?x - (TSSdescriptors g + 102) = (?x - TSSdescriptors g) - 102" by simp
    moreover have "(102 :: u64) \<le> ?x - TSSdescriptors g" using f by (simp add: word_le_nat_alt)
    ultimately have "unat (?x - (TSSdescriptors g + 102)) = unat (?x - TSSdescriptors g) - unat (102 :: u64)"
      by (simp only: unat_diff_le)
    then have "2 \<le> unat (?x - (TSSdescriptors g + 102))" using f by simp
    then show ?thesis by (simp add: store16_def store_le_other)
  qed
  then show "agree (GDTEntries g) (store16 (TSSdescriptors g + 102) w m1) m2"
    by (intro agree_outside [OF assms(2)])
qed

lemma agree_load:
  assumes "agree tab m1 m2" and "k < 16"
  shows "load64 m1 (tab + 8 * of_nat k) = load64 m2 (tab + 8 * of_nat k)"
proof (rule load64_cong)
  fix i :: nat assume "i < 8"
  then have "8 * k + i < 128" using assms(2) by simp
  moreover have "tab + 8 * of_nat k + of_nat i = tab + of_nat (8 * k + i)" by simp
  ultimately show "m1 (tab + 8 * of_nat k + of_nat i) = m2 (tab + 8 * of_nat k + of_nat i)"
    using assms(1) unfolding agree_def by metis
qed

section \<open>What the interrupt controllers are programmed to\<close>

text \<open>
  The programming interface of the 8259A, as its data sheet gives it: a command with bit 4 set
  starts the initialisation and clears the mask; the words that follow on the data port are the
  vector base, the cascade word and, if announced, the mode; after them the data port is the mask.
\<close>

record pic =
  expects :: nat  \<comment> \<open>the initialisation word expected next, 0 when there is none\<close>
  needs_icw4 :: bool
  vector_base :: u8
  cascade :: u8
  mode_8086 :: bool
  imr :: u8

definition pic_command :: "u8 \<Rightarrow> pic \<Rightarrow> pic" where
  "pic_command v p = (if bit v 4 then p\<lparr>expects := 2, needs_icw4 := bit v 0, imr := 0\<rparr> else p)"

definition pic_data :: "u8 \<Rightarrow> pic \<Rightarrow> pic" where
  "pic_data v p =
     (if expects p = 2 then p\<lparr>expects := 3, vector_base := v AND 0xF8\<rparr>
      else if expects p = 3 then p\<lparr>expects := (if needs_icw4 p then 4 else 0), cascade := v\<rparr>
      else if expects p = 4 then p\<lparr>expects := 0, mode_8086 := bit v 0\<rparr>
      else p\<lparr>imr := v\<rparr>)"

fun pics_step :: "access \<Rightarrow> pic \<times> pic \<Rightarrow> pic \<times> pic" where
  "pics_step (OutB port v) (p1, p2) =
     (if port = 0x20 then (pic_command v p1, p2)
      else if port = 0x21 then (pic_data v p1, p2)
      else if port = 0xA0 then (p1, pic_command v p2)
      else if port = 0xA1 then (p1, pic_data v p2)
      else (p1, p2))"
| "pics_step _ ps = ps"

definition pics_after :: "trace \<Rightarrow> pic \<times> pic \<Rightarrow> pic \<times> pic" where
  "pics_after tr ps = fold pics_step tr ps"

lemma pics_after_append [simp]: "pics_after (tr @ [e]) ps = pics_step e (pics_after tr ps)"
  by (simp add: pics_after_def)

section \<open>Properties\<close>

text \<open>
  \<open>gdtInit\<close> leaves the flat model that the rest of the kernel relies on.  In a fresh table that
  the task state segment does not overlap, the six descriptors hold their values (kernel code and
  data, user data and code), the next two are the descriptor of the segment at its address with
  limit 104; the selectors are the offsets of the descriptors with ring 3 for the user's, and the
  registers are loaded with the table and with the selector of the segment.
\<close>

theorem gdtInit_tables:
  assumes "GDTIndexTable g = 0" and "apart_from_tss g" and "gdtInit (g, m) tr = (g', m', tr')"
  shows "GDTInfoSelectors g' = \<lparr>KCode = 0x08, KData = 0x10, UCode = 0x2B, UData = 0x23\<rparr> \<and>
    map (\<lambda>k. load64 m' (GDTEntries g + 8 * of_nat k)) [0..<8] =
      [0, 0x00A09A0000000000, 0x00A0920000000000, 0, 0x00A0F20000000000, 0x00A0FA0000000000,
       descriptor (TSSdescriptors g) 104 0x89 0, drop_bit 32 (TSSdescriptors g)] \<and>
    tr' = tr @ [Lgdt 127 (GDTEntries g), Ltr 48] \<and> GDTIndexTable g' = 8"
proof -
  let ?t = "GDTEntries g" let ?s = "TSSdescriptors g"
  let ?d = "\<lambda>m. store64 (?t + 56) (drop_bit 32 ?s) (store64 (?t + 48) (descriptor ?s 104 0x89 0) m)"
  define core where "core = store64 (?t + 40) (descriptor 0 0 0xFA 0xA0)
         (store64 (?t + 32) (descriptor 0 0 0xF2 0xA0) (store64 (?t + 24) (descriptor 0 0 0 0)
           (store64 (?t + 16) (descriptor 0 0 0x92 0xA0) (store64 (?t + 8) (descriptor 0 0 0x9A 0xA0)
             (store64 ?t (descriptor 0 0 0 0) m)))))"
  note r = gdtInit_memory [OF assms(1) refl refl, of m tr, unfolded assms(3) core_def [symmetric], simplified]
  have "agree ?t core core" by (simp add: agree_def)
  then have "agree ?t (?d (memset ?s 0 104 (memset ?s 0 104 core))) (?d core)"
    unfolding store64_def by (intro agree_store agree_tss [OF assms(2)])
  then have a: "agree ?t m' (?d core)"
    using r agree_tss(2) [OF assms(2), of _ "?d core"] by simp
  have "load64 m' (?t + 8 * of_nat k) = load64 (?d core) (?t + 8 * of_nat k)" if "k < 16" for k
    by (rule agree_load [OF a that])
  then have "map (\<lambda>k. load64 m' (?t + 8 * of_nat k)) [0..<8] =
      map (\<lambda>k. load64 (?d core) (?t + 8 * of_nat k)) [0..<8]" by simp
  also have "\<dots> = [descriptor 0 0 0 0, descriptor 0 0 0x9A 0xA0, descriptor 0 0 0x92 0xA0,
      descriptor 0 0 0 0, descriptor 0 0 0xF2 0xA0, descriptor 0 0 0xFA 0xA0,
      descriptor ?s 104 0x89 0, drop_bit 32 ?s]"
    by (simp add: core_def upt_rec load64_store64_same load64_store64_apart)
  finally show ?thesis
    using r by (simp add: descriptor_def)
qed

definition fresh_gdt :: gdt where
  "fresh_gdt = \<lparr>GDTEntries = 0x1000, TSSdescriptors = 0x2000, GDTIndexTable = 0, ringGDT = 0,
     GDTInfoSelectors = \<lparr>KCode = 0, KData = 0, UCode = 0, UData = 0\<rparr>\<rparr>"

lemma fresh_apart: "apart_from_tss fresh_gdt"
proof -
  have "104 \<le> unat (0x1000 + of_nat i - (0x2000 :: u64))" if "i < 128" for i
  proof -
    have "0x1000 + of_nat i - (0x2000 :: u64) = of_nat (18446744073709547520 + i)" by simp
    then show ?thesis using that by (simp only:) (subst unat_of_nat64; simp)
  qed
  then show ?thesis by (simp add: apart_from_tss_def fresh_gdt_def)
qed

theorem gdtInit_tables_witness:
  "load64 (fst (snd (gdtInit (fresh_gdt, \<lambda>_. 0) []))) (0x1000 + 8 * of_nat 5) = 0x00A0FA0000000000"
proof -
  obtain g' m' tr' where r: "gdtInit (fresh_gdt, \<lambda>_. 0) [] = (g', m', tr')" by (metis prod_cases3)
  have "GDTIndexTable fresh_gdt = 0" by (simp add: fresh_gdt_def)
  from gdtInit_tables [OF this fresh_apart r] have
    "map (\<lambda>k. load64 m' (GDTEntries fresh_gdt + 8 * of_nat k)) [0..<8] ! 5 = 0x00A0FA0000000000" by simp
  then show ?thesis using r by (simp add: fresh_gdt_def)
qed

lemma offset_parts:
  "ucast (ucast (h AND 0x000000000000ffff) :: u16) = (ucast h :: u8)"
  "ucast (drop_bit 8 (ucast (h AND 0x000000000000ffff) :: u16)) = (ucast (drop_bit 8 h) :: u8)"
  "ucast (ucast (drop_bit 16 (h AND 0x00000000ffff0000)) :: u16) = (ucast (drop_bit 16 h) :: u8)"
  "ucast (drop_bit 8 (ucast (drop_bit 16 (h AND 0x00000000ffff0000)) :: u16)) = (ucast (drop_bit 24 h) :: u8)"
  "ucast (ucast (drop_bit 32 h AND 0xffffffff) :: u32) = (ucast (drop_bit 32 h) :: u8)"
  "ucast (drop_bit 8 (ucast (drop_bit 32 h AND 0xffffffff) :: u32)) = (ucast (drop_bit 40 h) :: u8)"
  "ucast (drop_bit 16 (ucast (drop_bit 32 h AND 0xffffffff) :: u32)) = (ucast (drop_bit 48 h) :: u8)"
  "ucast (drop_bit 24 (ucast (drop_bit 32 h AND 0xffffffff) :: u32)) = (ucast (drop_bit 56 h) :: u8)"
  for h :: u64
proof -
  have m: "(0x000000000000ffff :: u64) = mask 16" "(0x00000000ffff0000 :: u64) = push_bit 16 (mask 16)"
    "(0xffffffff :: u64) = mask 32"
    by (simp_all add: mask_eq_exp_minus_1 push_bit_eq_mult)
  show
  "ucast (ucast (h AND 0x000000000000ffff) :: u16) = (ucast h :: u8)"
  "ucast (drop_bit 8 (ucast (h AND 0x000000000000ffff) :: u16)) = (ucast (drop_bit 8 h) :: u8)"
  "ucast (ucast (drop_bit 16 (h AND 0x00000000ffff0000)) :: u16) = (ucast (drop_bit 16 h) :: u8)"
  "ucast (drop_bit 8 (ucast (drop_bit 16 (h AND 0x00000000ffff0000)) :: u16)) = (ucast (drop_bit 24 h) :: u8)"
  "ucast (ucast (drop_bit 32 h AND 0xffffffff) :: u32) = (ucast (drop_bit 32 h) :: u8)"
  "ucast (drop_bit 8 (ucast (drop_bit 32 h AND 0xffffffff) :: u32)) = (ucast (drop_bit 40 h) :: u8)"
  "ucast (drop_bit 16 (ucast (drop_bit 32 h AND 0xffffffff) :: u32)) = (ucast (drop_bit 48 h) :: u8)"
  "ucast (drop_bit 24 (ucast (drop_bit 32 h AND 0xffffffff) :: u32)) = (ucast (drop_bit 56 h) :: u8)"
    unfolding m by (rule bit_word_eqI; auto simp: bit_simps dest: bit_imp_le_length)+
qed

lemma word_of_bytes:
  "ucast (ucast h :: u8) OR push_bit 8 (ucast (ucast (drop_bit 8 h) :: u8)) = (ucast h :: u16)"
  "ucast (ucast (drop_bit 16 h) :: u8) OR push_bit 8 (ucast (ucast (drop_bit 24 h) :: u8)) = (ucast (drop_bit 16 h) :: u16)"
  "ucast (ucast (drop_bit 32 h) :: u8) OR push_bit 8 (ucast (ucast (drop_bit 40 h) :: u8))
     OR push_bit 16 (ucast (ucast (drop_bit 48 h) :: u8)) OR push_bit 24 (ucast (ucast (drop_bit 56 h) :: u8)) =
     (ucast (drop_bit 32 h) :: u32)"
  for h :: u64
  by (rule bit_word_eqI; auto simp: bit_simps; fail)+
     (rule bit_word_eqI, rename_tac n, case_tac "n < 8"; case_tac "n < 16"; case_tac "n < 24";
      auto simp: bit_simps)

lemma word_of_halves:
  "ucast (ucast h :: u16) OR push_bit 16 (ucast (ucast (drop_bit 16 h) :: u16))
     OR push_bit 32 (ucast (ucast (drop_bit 32 h) :: u32)) = (h :: u64)"
proof (rule bit_word_eqI)
  fix n assume "n < LENGTH(64)"
  then show "bit (ucast (ucast h :: u16) OR push_bit 16 (ucast (ucast (drop_bit 16 h) :: u16))
     OR push_bit 32 (ucast (ucast (drop_bit 32 h) :: u32)) :: u64) n = bit h n"
    by (cases "n < 16"; cases "n < 32") (auto simp: bit_simps)
qed

lemma sel_byte: "ucast (ucast (s :: u8) :: u16) = (s :: u8)" "ucast (drop_bit 8 (ucast (s :: u8) :: u16)) = (0 :: u8)"
  by (rule bit_word_eqI; auto simp: bit_simps dest: bit_imp_le_length)+

text \<open>
  A handler installed for a vector is the one the processor will find: the entry of the vector
  gives back the whole 64-bit address, the type and the selector, and no byte outside the 16 of
  the entry changes; nor does the stack index, which no code ever sets.
\<close>

theorem CreateIntrerupt_installs:
  assumes "e = load64 m (idt + 2) + 16 * ucast vector"
    and "m' = CreateIntrerupt idt handler vector ty sel m"
  shows "getOffset e m' = handler \<and> m' (e + 5) = ty \<and> load16 m' (e + 2) = ucast sel \<and>
    m' (e + 4) = m (e + 4) \<and> (\<forall>x. 16 \<le> unat (x - e) \<longrightarrow> m' x = m x)"
proof -
  let ?b = "\<lambda>k. ucast (drop_bit (8 * k) handler) :: u8"
  have m': "m' = m(e := ?b 0, e + 1 := ?b 1, e + 6 := ?b 2, e + 7 := ?b 3, e + 8 := ?b 4, e + 9 := ?b 5,
      e + 10 := ?b 6, e + 11 := ?b 7, e + 5 := ty, e + 2 := sel, e + 3 := 0)"
    unfolding assms CreateIntrerupt_def setOffset_def Let_def
    by (simp add: store_bytes offset_parts sel_byte mult.commute) (simp add: add.commute offset_parts)
  have "getOffset e m' = handler"
  proof -
    have "load16 m' e = ucast handler" "load16 m' (e + 6) = ucast (drop_bit 16 handler)"
      "load32 m' (e + 8) = ucast (drop_bit 32 handler)"
      unfolding m' by (simp_all add: load_bytes word_of_bytes)
    then show ?thesis by (simp add: getOffset_def word_of_halves or.assoc)
  qed
  moreover have "load16 m' (e + 2) = ucast sel" unfolding m' by (simp add: load_bytes)
  moreover have "m' x = m x" if "16 \<le> unat (x - e)" for x
  proof -
    have "x \<noteq> e + of_nat k" if "k < 16" for k
      using \<open>16 \<le> unat (x - e)\<close> that unat_of_nat64 [of k] by auto
    from this [of 0] this [of 1] this [of 2] this [of 3] this [of 5] this [of 6] this [of 7]
      this [of 8] this [of 9] this [of 10] this [of 11]
    show ?thesis unfolding m' by simp
  qed
  ultimately show ?thesis unfolding m' by simp
qed

theorem CreateIntrerupt_installs_witness:
  "getOffset 0x1200 (CreateIntrerupt 0 0x0123456789ABCDEF 0x20 0x8E 8 (store64 2 0x1000 (\<lambda>_. 0)))
     = 0x0123456789ABCDEF"
proof -
  let ?m = "store64 2 0x1000 (\<lambda>_. 0)"
  have "0x1200 = load64 ?m (0 + 2) + 16 * ucast (0x20 :: u8)" by (simp add: load64_store64_same)
  from CreateIntrerupt_installs [OF this refl] show ?thesis by blast
qed

text \<open>
  C36: \<open>RemapPIC\<close> programs both interrupt controllers, whatever state they were in: the lines are
  delivered from vector 0x20 and from 0x28, cascaded on line 2, in the mode of the 8086, and the
  masks are those that were read at the start.
\<close>

theorem RemapPIC_programs:
  "pics_after (snd (run_state (RemapPIC hw) tr)) ps =
    (\<lparr>expects = 0, needs_icw4 = True, vector_base = 0x20, cascade = 4, mode_8086 = True,
       imr = in_b hw tr 0x21\<rparr>,
     \<lparr>expects = 0, needs_icw4 = True, vector_base = 0x28, cascade = 2, mode_8086 = True,
       imr = in_b hw (tr @ [InB 0x21, OutB 0x80 0]) 0xA1\<rparr>)"
proof -
  obtain a1 a2 where a: "a1 = in_b hw tr 0x21" "a2 = in_b hw (tr @ [InB 0x21, OutB 0x80 0]) 0xA1"
    by simp
  have "snd (run_state (RemapPIC hw) tr) = tr @ [InB 0x21, OutB 0x80 0, InB 0xA1, OutB 0x80 0,
      OutB 0x20 0x11, OutB 0x80 0, OutB 0xA0 0x11, OutB 0x80 0, OutB 0x21 0x20, OutB 0x80 0,
      OutB 0xA1 0x28, OutB 0x80 0, OutB 0x21 4, OutB 0x80 0, OutB 0xA1 2, OutB 0x80 0,
      OutB 0x21 1, OutB 0x80 0, OutB 0xA1 1, OutB 0x80 0, OutB 0x21 a1, OutB 0x80 0, OutB 0xA1 a2]"
    by (simp add: RemapPIC_def port_defs pic_consts a)
  then have "pics_after (snd (run_state (RemapPIC hw) tr)) ps = fold pics_step
      [InB 0x21, OutB 0x80 0, InB 0xA1, OutB 0x80 0,
      OutB 0x20 0x11, OutB 0x80 0, OutB 0xA0 0x11, OutB 0x80 0, OutB 0x21 0x20, OutB 0x80 0,
      OutB 0xA1 0x28, OutB 0x80 0, OutB 0x21 4, OutB 0x80 0, OutB 0xA1 2, OutB 0x80 0,
      OutB 0x21 1, OutB 0x80 0, OutB 0xA1 1, OutB 0x80 0, OutB 0x21 a1, OutB 0x80 0, OutB 0xA1 a2] (pics_after tr ps)"
    by (simp only: pics_after_def fold_append comp_def)
  then show ?thesis
    by (cases "fst (pics_after tr ps)"; cases "snd (pics_after tr ps)"; cases "pics_after tr ps")
       (simp add: pic_command_def pic_data_def a)
qed

end
