(* ===== verification/TaskManager.thy ===== *)
theory TaskManager
  imports Cpu PageTableManager
begin

unbundle bit_operations_syntax

text \<open>
  The scheduler, \<open>scheduling/taskmgr.cpp\<close>: a table of tasks, the timer interrupt that moves the
  processor from one to the next, the start of a task and its exit.
\<close>

section \<open>Tasks\<close>

record interrupt_stack =
  rax :: u64
  rbx :: u64
  rcx :: u64
  rdx :: u64
  KernelRsp :: u64
  rsi :: u64
  rdi :: u64
  rbp :: u64
  r8 :: u64
  r9 :: u64
  r10 :: u64
  r11 :: u64
  r12 :: u64
  r13 :: u64
  r14 :: u64
  r15 :: u64
  rip :: u64
  cs :: u64
  rflags :: u64
  rsp :: u64
  ss :: u64

definition zero_stack :: interrupt_stack where
  "zero_stack = \<lparr>rax = 0, rbx = 0, rcx = 0, rdx = 0, KernelRsp = 0, rsi = 0, rdi = 0, rbp = 0,
     r8 = 0, r9 = 0, r10 = 0, r11 = 0, r12 = 0, r13 = 0, r14 = 0, r15 = 0, rip = 0, cs = 0,
     rflags = 0, rsp = 0, ss = 0\<rparr>"

definition STATE_RUNNING :: i32 where "STATE_RUNNING = 1"
definition STATE_HALTED :: i32 where "STATE_HALTED = 0"

record task =
  entryPoint :: u64
  task_name :: u64
  tstate :: i32
  privilege :: u8
  registers :: interrupt_stack
  terminal :: i32
  memoryUse :: u64

text \<open>
  The object, with the array and what lies behind it, and the static \<open>lastTerminal\<close>, which
  starts at 1.
\<close>

record taskmgr =
  tasks :: "i32 \<Rightarrow> task"
  currentTask :: i32
  taskNum :: i32
  isEnabled :: i32
  lastTerminal :: i32

section \<open>The operations\<close>

text \<open>\<open>do ... while\<close>: at least one step; \<open>None\<close> when every task is halted.\<close>

partial_function (option) next_task :: "taskmgr \<Rightarrow> i32 \<Rightarrow> i32 option" where
  "next_task tm c =
     (let c = c + 1;
          c = (if sint (taskNum tm) \<le> sint c then 0 else c)
      in if tstate (tasks tm c) = STATE_HALTED then next_task tm c else Some c)"

text \<open>The registers lie on the stack of the interrupt; \<open>kernelStack\<close> is an \<open>int\<close>.\<close>

definition Schedule :: "interrupt_stack \<Rightarrow> taskmgr \<Rightarrow> (interrupt_stack \<times> taskmgr) option" where
  "Schedule regs tm =
     (if isEnabled tm = 0 then Some (regs, tm)
      else
        let c = currentTask tm;
            tm = tm\<lparr>tasks := (tasks tm)(c := (tasks tm c)\<lparr>registers := regs\<rparr>)\<rparr>
        in map_option (\<lambda>c.
             let kernelStack = ucast (KernelRsp regs) :: i32
             in ((registers (tasks tm c))\<lparr>KernelRsp := sext kernelStack\<rparr>, tm\<lparr>currentTask := c\<rparr>))
             (next_task tm c))"

partial_function (option) first_halted :: "(i32 \<Rightarrow> task) \<Rightarrow> i32 \<Rightarrow> i32 option" where
  "first_halted ts i = (if tstate (ts i) \<noteq> STATE_HALTED then first_halted ts (i + 1) else Some i)"

definition new_task :: "gdt_info_selectors \<Rightarrow> u64 \<Rightarrow> u64 \<Rightarrow> u64 \<Rightarrow> u8 \<Rightarrow> u64 \<Rightarrow> i32 \<Rightarrow> task" where
  "new_task sel entry stk name priv executableSize term =
     \<lparr>entryPoint = entry, task_name = name, tstate = STATE_RUNNING, privilege = priv,
      registers = zero_stack\<lparr>rip := entry, rsp := stk + 0x1000 * 8, rflags := 0x202,
        cs := sext (UCode sel), ss := sext (UData sel)\<rparr>,
      terminal = term, memoryUse = executableSize\<rparr>"

definition AddTask ::
    "gdt_info_selectors \<Rightarrow> u64 \<Rightarrow> u64 \<Rightarrow> u64 \<Rightarrow> u64 \<Rightarrow> u8 \<Rightarrow> u64 \<Rightarrow> taskmgr \<times> mem \<Rightarrow> (taskmgr \<times> mem) option" where
  "AddTask sel PML4 entry stk name priv executableSize = (\<lambda>(tm, m).
     let task = new_task sel entry stk name priv executableSize (lastTerminal tm);
         tm = tm\<lparr>lastTerminal := lastTerminal tm + 1\<rparr>
     in map_option (\<lambda>i.
          let tm = (if sint i \<ge> sint (taskNum tm) then tm\<lparr>taskNum := i + 1\<rparr> else tm)
          in (tm\<lparr>tasks := (tasks tm)(i := task)\<rparr>,
              MapUserspaceMemory PML4 stk (MapUserspaceMemory PML4 entry m)))
          (first_halted (tasks tm) 0))"

definition ExitCurrentTask :: "taskmgr \<Rightarrow> taskmgr" where
  "ExitCurrentTask tm =
     tm\<lparr>tasks := (tasks tm)(currentTask tm := (tasks tm (currentTask tm))\<lparr>tstate := STATE_HALTED\<rparr>)\<rparr>"

section \<open>The choice of the next task\<close>

text \<open>Positions as numbers; a manager that is in order works on tasks below \<open>tm_size\<close>.\<close>

definition tm_size :: "taskmgr \<Rightarrow> nat" where "tm_size tm = nat (sint (taskNum tm))"

definition runnable :: "taskmgr \<Rightarrow> nat \<Rightarrow> bool" where
  "runnable tm i \<longleftrightarrow> tstate (tasks tm (of_nat i)) \<noteq> STATE_HALTED"

definition tm_ok :: "taskmgr \<Rightarrow> bool" where
  "tm_ok tm \<longleftrightarrow> 0 < sint (taskNum tm) \<and> sint (taskNum tm) \<le> 1024 \<and> unat (currentTask tm) < tm_size tm"

lemma tm_okD:
  assumes "tm_ok tm"
  shows "0 < tm_size tm" "tm_size tm \<le> 1024" "sint (taskNum tm) = int (tm_size tm)"
    "unat (currentTask tm) < tm_size tm" "currentTask tm = of_nat (unat (currentTask tm))"
  using assms by (auto simp: tm_ok_def tm_size_def)

lemma next_task_step:
  assumes "sint (taskNum tm) = int (tm_size tm)" "tm_size tm \<le> 1024" "c < tm_size tm"
  shows "next_task tm (of_nat c) =
    (if runnable tm (Suc c mod tm_size tm) then Some (of_nat (Suc c mod tm_size tm))
     else next_task tm (of_nat (Suc c mod tm_size tm)))"
proof -
  have s: "sint (of_nat c + 1 :: i32) = int (Suc c)"
    using sint_of_nat32 [of "Suc c"] assms(2,3) by (simp add: add.commute)
  have e: "(if sint (taskNum tm) \<le> sint (of_nat c + 1 :: i32) then 0 else of_nat c + 1 :: i32) =
      of_nat (Suc c mod tm_size tm)"
    unfolding s using assms by (cases "Suc c = tm_size tm") (simp_all add: add.commute)
  have "next_task tm (of_nat c) = (let d = of_nat (Suc c mod tm_size tm)
      in if tstate (tasks tm d) = STATE_HALTED then next_task tm d else Some d)"
    by (subst next_task.simps) (simp only: Let_def e)
  then show ?thesis by (simp add: runnable_def Let_def)
qed

lemma next_task_skips:
  assumes "sint (taskNum tm) = int (tm_size tm)" "tm_size tm \<le> 1024" "c < tm_size tm"
    and "\<forall>i. 0 < i \<and> i \<le> k \<longrightarrow> \<not> runnable tm ((c + i) mod tm_size tm)"
  shows "next_task tm (of_nat c) = next_task tm (of_nat ((c + k) mod tm_size tm))"
  using assms(4)
proof (induction k)
  case 0
  then show ?case using assms(3) by simp
next
  case (Suc k)
  have "next_task tm (of_nat c) = next_task tm (of_nat ((c + k) mod tm_size tm))"
    by (rule Suc.IH) (use Suc.prems in simp)
  also have "\<dots> = next_task tm (of_nat ((c + Suc k) mod tm_size tm))"
    using next_task_step [OF assms(1,2), of "(c + k) mod tm_size tm"] Suc.prems [rule_format, of "Suc k"] assms(3)
    by (simp add: mod_Suc_eq)
  finally show ?case .
qed

text \<open>A task that can run is found after the number of steps to the first such task.\<close>

lemma next_task_finds:
  assumes "sint (taskNum tm) = int (tm_size tm)" "tm_size tm \<le> 1024" "c < tm_size tm"
    and "0 < d" "runnable tm ((c + d) mod tm_size tm)"
  obtains k where "0 < k" "k \<le> d" "runnable tm ((c + k) mod tm_size tm)"
    "next_task tm (of_nat c) = Some (of_nat ((c + k) mod tm_size tm))"
proof -
  define k where "k = (LEAST k. 0 < k \<and> runnable tm ((c + k) mod tm_size tm))"
  have k: "0 < k \<and> runnable tm ((c + k) mod tm_size tm)"
    unfolding k_def by (rule LeastI [of _ d]) (use assms in simp)
  have le: "k \<le> d" unfolding k_def by (rule Least_le) (use assms in simp)
  have skip: "\<forall>i. 0 < i \<and> i \<le> k - 1 \<longrightarrow> \<not> runnable tm ((c + i) mod tm_size tm)"
  proof (intro allI impI)
    fix i assume "0 < i \<and> i \<le> k - 1"
    then have "0 < i" "i < k" using k by auto
    then show "\<not> runnable tm ((c + i) mod tm_size tm)"
      using not_less_Least [of i "\<lambda>k. 0 < k \<and> runnable tm ((c + k) mod tm_size tm)"] unfolding k_def by blast
  qed
  have "next_task tm (of_nat c) = next_task tm (of_nat ((c + (k - 1)) mod tm_size tm))"
    by (rule next_task_skips [OF assms(1-3) skip])
  also have "\<dots> = Some (of_nat ((c + k) mod tm_size tm))"
    using next_task_step [OF assms(1,2), of "(c + (k - 1)) mod tm_size tm"] k assms(3) by (simp add: mod_Suc_eq)
  finally show ?thesis using that k le by blast
qed

lemma next_task_runs:
  assumes "next_task tm c = Some r"
  shows "0 \<le> sint c \<and> sint c < sint (taskNum tm) \<longrightarrow>
    tstate (tasks tm r) \<noteq> STATE_HALTED \<and> 0 \<le> sint r \<and> sint r < sint (taskNum tm)"
proof (rule next_task.raw_induct [where P = "\<lambda>tm c r. 0 \<le> sint c \<and> sint c < sint (taskNum tm) \<longrightarrow>
    tstate (tasks tm r) \<noteq> STATE_HALTED \<and> 0 \<le> sint r \<and> sint r < sint (taskNum tm)", OF _ assms], rule impI)
  fix loop tm c r
  assume IH: "\<And>tm c r. loop tm c = Some r \<Longrightarrow> 0 \<le> sint c \<and> sint c < sint (taskNum tm) \<longrightarrow>
      tstate (tasks tm r) \<noteq> STATE_HALTED \<and> 0 \<le> sint r \<and> sint r < sint (taskNum tm)"
    and eq: "(let c = c + 1; c = if sint (taskNum tm) \<le> sint c then 0 else c
      in if tstate (tasks tm c) = STATE_HALTED then loop tm c else Some c) = Some r"
    and c: "0 \<le> sint c \<and> sint c < sint (taskNum tm)"
  define d where "d = (if sint (taskNum tm) \<le> sint (c + 1) then 0 else c + 1)"
  have "sint c + 1 < 2147483648" using c sint_lt [of "taskNum tm"] by simp
  then have "sint (c + 1) = sint c + 1"
    using sint_of_int32 [of "sint c + 1"] c by simp
  then have d: "0 \<le> sint d \<and> sint d < sint (taskNum tm)" using c by (simp add: d_def)
  from eq have "(if tstate (tasks tm d) = STATE_HALTED then loop tm d else Some d) = Some r"
    unfolding Let_def d_def .
  then show "tstate (tasks tm r) \<noteq> STATE_HALTED \<and> 0 \<le> sint r \<and> sint r < sint (taskNum tm)"
    using d IH [of tm d r] by (auto split: if_splits)
qed

lemma next_task_never:
  assumes "sint (taskNum tm) = int (tm_size tm)" "tm_size tm \<le> 1024" "\<forall>i < tm_size tm. \<not> runnable tm i"
    and "c < tm_size tm"
  shows "next_task tm (of_nat c) = None"
proof (rule ccontr)
  assume "next_task tm (of_nat c) \<noteq> None"
  then obtain r where r: "next_task tm (of_nat c) = Some r" by blast
  have "sint (of_nat c :: i32) = int c" using assms(2,4) by (intro sint_of_nat32) simp
  then have "tstate (tasks tm r) \<noteq> STATE_HALTED" "0 \<le> sint r" "nat (sint r) < tm_size tm"
    using next_task_runs [OF r] assms(1,4) by auto
  moreover have "of_nat (nat (sint r)) = r" using \<open>0 \<le> sint r\<close> by (simp add: of_nat_nat)
  ultimately show False using assms(3) unfolding runnable_def by metis
qed

section \<open>A tick of the timer\<close>

definition save :: "interrupt_stack \<Rightarrow> taskmgr \<Rightarrow> taskmgr" where
  "save f tm = tm\<lparr>tasks := (tasks tm)(currentTask tm := (tasks tm (currentTask tm))\<lparr>registers := f\<rparr>)\<rparr>"

text \<open>What the interrupted stack pointer of the kernel becomes on its way through an \<open>int\<close>.\<close>

definition kernel_rsp :: "interrupt_stack \<Rightarrow> u64" where
  "kernel_rsp f = sext (ucast (KernelRsp f))"

lemma Schedule_eq: "isEnabled tm \<noteq> 0 \<Longrightarrow> Schedule f tm =
    map_option (\<lambda>c. ((registers (tasks (save f tm) c))\<lparr>KernelRsp := kernel_rsp f\<rparr>, (save f tm)\<lparr>currentTask := c\<rparr>))
      (next_task (save f tm) (currentTask tm))"
  by (simp add: Schedule_def save_def kernel_rsp_def Let_def)

lemma save_simps [simp]:
  "taskNum (save f tm) = taskNum tm" "currentTask (save f tm) = currentTask tm"
  "isEnabled (save f tm) = isEnabled tm" "lastTerminal (save f tm) = lastTerminal tm"
  "tstate (tasks (save f tm) i) = tstate (tasks tm i)"
  "tm_size (save f tm) = tm_size tm" "runnable (save f tm) = runnable tm" "tm_ok (save f tm) = tm_ok tm"
  "registers (tasks (save f tm) i) = (if i = currentTask tm then f else registers (tasks tm i))"
  by (auto simp: save_def tm_size_def runnable_def tm_ok_def fun_eq_iff)

lemma switch_simps [simp]:
  "tm_size (tm\<lparr>currentTask := c\<rparr>) = tm_size tm" "runnable (tm\<lparr>currentTask := c\<rparr>) = runnable tm"
  by (auto simp: tm_size_def runnable_def fun_eq_iff)

lemma Schedule_disabled [simp]: "isEnabled tm = 0 \<Longrightarrow> Schedule f tm = Some (f, tm)"
  by (simp add: Schedule_def)

lemma Schedule_cases:
  assumes "Schedule f tm = Some (f', tm')"
  obtains (off) "isEnabled tm = 0" "f' = f" "tm' = tm"
  | (on) c where "isEnabled tm \<noteq> 0" "next_task (save f tm) (currentTask tm) = Some c"
      "tm' = (save f tm)\<lparr>currentTask := c\<rparr>"
      "f' = (registers (tasks (save f tm) c))\<lparr>KernelRsp := kernel_rsp f\<rparr>"
proof (cases "isEnabled tm = 0")
  case True
  show ?thesis by (rule off [OF True]) (use assms Schedule_disabled [OF True, of f] in simp_all)
next
  case False
  show ?thesis
  proof (cases "next_task (save f tm) (currentTask tm)")
    case None
    then show ?thesis using assms by (simp add: Schedule_eq [OF False])
  next
    case (Some c)
    show ?thesis by (rule on [OF False Some]) (use assms in \<open>simp_all add: Schedule_eq [OF False] Some\<close>)
  qed
qed

lemma Schedule_finds:
  assumes "tm_ok tm" "isEnabled tm \<noteq> 0" "0 < d" "runnable tm ((unat (currentTask tm) + d) mod tm_size tm)"
  obtains k f' where "0 < k" "k \<le> d" "runnable tm ((unat (currentTask tm) + k) mod tm_size tm)"
    "Schedule f tm = Some (f', (save f tm)\<lparr>currentTask := of_nat ((unat (currentTask tm) + k) mod tm_size tm)\<rparr>)"
proof -
  note ok = tm_okD [OF assms(1)]
  obtain k where k: "0 < k" "k \<le> d" "runnable tm ((unat (currentTask tm) + k) mod tm_size tm)"
    and n: "next_task (save f tm) (of_nat (unat (currentTask tm))) =
      Some (of_nat ((unat (currentTask tm) + k) mod tm_size tm))"
    using next_task_finds [of "save f tm" "unat (currentTask tm)" d] ok assms by auto
  show ?thesis by (rule that [OF k]) (simp add: Schedule_eq [OF assms(2)] n [folded ok(5)])
qed

lemma Schedule_never:
  assumes "tm_ok tm" "isEnabled tm \<noteq> 0" "\<forall>i < tm_size tm. \<not> runnable tm i"
  shows "Schedule f tm = None"
proof -
  note ok = tm_okD [OF assms(1)]
  have "next_task (save f tm) (of_nat (unat (currentTask tm))) = None"
    by (rule next_task_never) (use ok assms in simp_all)
  then show ?thesis by (simp add: Schedule_eq [OF assms(2)] ok(5) [symmetric])
qed

section \<open>Fairness\<close>

fun ticks :: "interrupt_stack list \<Rightarrow> taskmgr \<Rightarrow> taskmgr option" where
  "ticks [] tm = Some tm"
| "ticks (f # fs) tm = Option.bind (Schedule f tm) (\<lambda>(f', tm). ticks fs tm)"

lemma unat_index: "tm_size tm \<le> 1024 \<Longrightarrow> 0 < tm_size tm \<Longrightarrow>
    unat (of_nat (i mod tm_size tm) :: i32) = i mod tm_size tm"
  using mod_less_divisor [of "tm_size tm" i] by (intro unat_of_nat32) linarith

lemma tm_ok_switch:
  assumes "tm_ok tm"
  shows "tm_ok (tm\<lparr>currentTask := of_nat (i mod tm_size tm)\<rparr>)"
proof -
  have "unat (of_nat (i mod tm_size tm) :: i32) < tm_size tm"
    unfolding unat_index [OF tm_okD(2,1) [OF assms]] using tm_okD(1) [OF assms] by simp
  then show ?thesis using assms by (simp add: tm_ok_def)
qed

lemma reached_within:
  assumes "tm_ok tm" "isEnabled tm \<noteq> 0" "0 < d"
    and "(unat (currentTask tm) + d) mod tm_size tm = j" "runnable tm j" "d \<le> length fs"
  shows "\<exists>k tm'. 0 < k \<and> k \<le> d \<and> ticks (take k fs) tm = Some tm' \<and> currentTask tm' = of_nat j"
  using assms
proof (induction d arbitrary: tm fs rule: less_induct)
  case (less d)
  let ?c = "unat (currentTask tm)" and ?n = "tm_size tm"
  note ok = tm_okD [OF less.prems(1)]
  obtain f fs' where fs: "fs = f # fs'" using less.prems by (cases fs) auto
  obtain k f' where k: "0 < k" "k \<le> d"
    and s: "Schedule f tm = Some (f', (save f tm)\<lparr>currentTask := of_nat ((?c + k) mod ?n)\<rparr>)"
    by (rule Schedule_finds [of tm d f]) (use less.prems in auto)
  define tm1 where "tm1 = (save f tm)\<lparr>currentTask := of_nat ((?c + k) mod ?n)\<rparr>"
  have u: "unat (currentTask tm1) = (?c + k) mod ?n"
    using unat_index [OF ok(2,1), of "?c + k"] by (simp add: tm1_def)
  show ?case
  proof (cases "k = d")
    case True
    then have "ticks (take 1 fs) tm = Some tm1" "currentTask tm1 = of_nat j"
      using s less.prems(4) by (simp_all add: fs tm1_def)
    then show ?thesis using k by (intro exI [of _ 1] exI [of _ tm1]) simp
  next
    case False
    have tm1: "tm_ok tm1" "isEnabled tm1 \<noteq> 0" "tm_size tm1 = ?n" "runnable tm1 j"
      using tm_ok_switch [of "save f tm" "?c + k"] less.prems by (simp_all add: tm1_def)
    have "(unat (currentTask tm1) + (d - k)) mod tm_size tm1 = j"
    proof -
      have "((?c + k) mod ?n + (d - k)) mod ?n = ((?c + k) + (d - k)) mod ?n" by (rule mod_add_left_eq)
      also have "(?c + k) + (d - k) = ?c + d" using k by simp
      finally show ?thesis using less.prems(4) by (simp only: u tm1(3))
    qed
    then have "\<exists>k' tm'. 0 < k' \<and> k' \<le> d - k \<and> ticks (take k' fs') tm1 = Some tm' \<and> currentTask tm' = of_nat j"
      by (intro less.IH [OF _ tm1(1,2)]) (use tm1 k False less.prems(6) fs in simp_all)
    then obtain k' tm' where "0 < k'" "k' \<le> d - k" "ticks (take k' fs') tm1 = Some tm'" "currentTask tm' = of_nat j"
      by (elim exE conjE)
    then show ?thesis using s k
      by (intro exI [of _ "Suc k'"] exI [of _ tm']) (simp add: fs tm1_def)
  qed
qed

text \<open>C11: the scheduler is a fair round robin.  A tick returns exactly if some task can run, and
  a task that can run is the current one after at most as many ticks as there are tasks, whatever
  frames the ticks interrupt.\<close>

theorem scheduler_fair:
  assumes "tm_ok tm" "isEnabled tm \<noteq> 0"
  shows "(Schedule f tm \<noteq> None \<longleftrightarrow> (\<exists>i < tm_size tm. runnable tm i)) \<and>
    (\<forall>j < tm_size tm. runnable tm j \<longrightarrow> (\<forall>fs. length fs = tm_size tm \<longrightarrow>
      (\<exists>k tm'. 0 < k \<and> k \<le> tm_size tm \<and> ticks (take k fs) tm = Some tm' \<and> currentTask tm' = of_nat j)))"
proof -
  note ok = tm_okD [OF assms(1)]
  define dist where "dist j = (if j \<le> unat (currentTask tm) then j + tm_size tm - unat (currentTask tm)
     else j - unat (currentTask tm))" for j
  have dist: "0 < dist j" "dist j \<le> tm_size tm" "(unat (currentTask tm) + dist j) mod tm_size tm = j"
    if "j < tm_size tm" for j
    using that ok by (auto simp: dist_def)
  have fair: "\<exists>k tm'. 0 < k \<and> k \<le> tm_size tm \<and> ticks (take k fs) tm = Some tm' \<and> currentTask tm' = of_nat j"
    if "j < tm_size tm" "runnable tm j" "length fs = tm_size tm" for j fs
    using reached_within [OF assms dist(1) dist(3), of j fs] that dist [of j] by fastforce
  have "Schedule f tm \<noteq> None" if j: "j < tm_size tm" "runnable tm j" for j
    using Schedule_finds [OF assms, of "dist j" f] dist [OF j(1)] j(2) by (metis not_None_eq)
  then have 1: "\<exists>i < tm_size tm. runnable tm i \<Longrightarrow> Schedule f tm \<noteq> None" by (elim exE conjE)
  have 2: "\<exists>i < tm_size tm. runnable tm i" if "Schedule f tm \<noteq> None"
    by (rule ccontr) (use that Schedule_never [OF assms, of f] in simp)
  have "Schedule f tm \<noteq> None \<longleftrightarrow> (\<exists>i < tm_size tm. runnable tm i)" by (rule iffI [OF 2 1])
  then show ?thesis using fair by simp
qed

definition example_tm :: taskmgr where
  "example_tm = \<lparr>tasks = (\<lambda>i. \<lparr>entryPoint = 0, task_name = 0, tstate = (if i = 1 then 0 else 1), privilege = 3,
     registers = zero_stack, terminal = 1, memoryUse = 0\<rparr>),
     currentTask = 0, taskNum = 3, isEnabled = 1, lastTerminal = 4\<rparr>"

lemma scheduler_fair_witness:
  "Schedule zero_stack example_tm \<noteq> None \<and> (\<exists>k tm'. 0 < k \<and> k \<le> 3 \<and>
    ticks (take k [zero_stack, zero_stack, zero_stack]) example_tm = Some tm' \<and> currentTask tm' = 2)"
proof -
  have e: "tm_ok example_tm" "isEnabled example_tm \<noteq> 0" "tm_size example_tm = 3" "runnable example_tm 2"
    by (simp_all add: example_tm_def tm_ok_def tm_size_def runnable_def STATE_HALTED_def)
  have "Schedule zero_stack example_tm \<noteq> None" using scheduler_fair [OF e(1,2), of zero_stack] e(3,4)
    by (metis numeral_less_iff semiring_norm(76) semiring_norm(78) less_numeral_extra(1) lessI numeral_3_eq_3 numeral_2_eq_2)
  moreover have "\<exists>k tm'. 0 < k \<and> k \<le> 3 \<and>
    ticks (take k [zero_stack, zero_stack, zero_stack]) example_tm = Some tm' \<and> currentTask tm' = of_nat 2"
    using scheduler_fair [OF e(1,2), THEN conjunct2, rule_format, of 2 "[zero_stack, zero_stack, zero_stack]"] e(3,4)
    by simp
  ultimately show ?thesis by simp
qed

section \<open>What can happen to the tasks\<close>

datatype event = Tick interrupt_stack interrupt_stack | Add u64 u64 u64 u8 u64 | Exit

inductive sched_step :: "gdt_info_selectors \<Rightarrow> u64 \<Rightarrow> taskmgr \<times> mem \<Rightarrow> event \<Rightarrow> taskmgr \<times> mem \<Rightarrow> bool"
  for sel root where
  tick: "Schedule f tm = Some (f', tm') \<Longrightarrow> sched_step sel root (tm, m) (Tick f f') (tm', m)"
| add: "AddTask sel root entry stk name priv sz (tm, m) = Some s' \<Longrightarrow>
    sched_step sel root (tm, m) (Add entry stk name priv sz) s'"
| exit: "sched_step sel root (tm, m) Exit (ExitCurrentTask tm, m)"

inductive_cases sched_stepE: "sched_step sel root s e s'"

lemma first_halted_halted:
  assumes "first_halted ts i = Some r"
  shows "tstate (ts r) = STATE_HALTED"
proof (rule first_halted.raw_induct [where P = "\<lambda>ts i r. tstate (ts r) = STATE_HALTED", OF _ assms])
  fix loop and ts :: "i32 \<Rightarrow> task" and i r
  assume "\<And>ts i r. loop ts i = Some r \<Longrightarrow> tstate (ts r) = STATE_HALTED"
    and "(if tstate (ts i) \<noteq> STATE_HALTED then loop ts (i + 1) else Some i) = Some r"
  then show "tstate (ts r) = STATE_HALTED" by (auto split: if_splits)
qed

lemma first_halted_least:
  assumes "a \<le> i" "\<not> runnable tm i" "\<forall>k. a \<le> k \<and> k < i \<longrightarrow> runnable tm k"
  shows "first_halted (tasks tm) (of_nat a) = Some (of_nat i)"
  using assms
proof (induction "i - a" arbitrary: a)
  case 0
  then show ?case by (subst first_halted.simps) (simp add: runnable_def)
next
  case (Suc n)
  then have "first_halted (tasks tm) (of_nat (Suc a)) = Some (of_nat i)" by (intro Suc.hyps(1)) auto
  moreover have "runnable tm a" using Suc by auto
  ultimately show ?case by (subst first_halted.simps) (simp add: runnable_def add.commute)
qed

lemma AddTask_cases:
  assumes "AddTask sel root entry stk name priv sz (tm, m) = Some (tm', m')"
  obtains i where "first_halted (tasks tm) 0 = Some i"
    "tm' = tm\<lparr>lastTerminal := lastTerminal tm + 1,
        taskNum := (if sint (taskNum tm) \<le> sint i then i + 1 else taskNum tm),
        tasks := (tasks tm)(i := new_task sel entry stk name priv sz (lastTerminal tm))\<rparr>"
    "m' = MapUserspaceMemory root stk (MapUserspaceMemory root entry m)"
proof (cases "first_halted (tasks tm) 0")
  case None
  then show ?thesis using assms by (simp add: AddTask_def Let_def)
next
  case (Some i)
  show ?thesis by (rule that [OF Some]) (use assms in \<open>simp_all add: AddTask_def Let_def Some split: if_splits\<close>)
qed

text \<open>Steps while another task than \<open>j\<close> is the current one.\<close>

inductive away :: "gdt_info_selectors \<Rightarrow> u64 \<Rightarrow> i32 \<Rightarrow> taskmgr \<times> mem \<Rightarrow> taskmgr \<times> mem \<Rightarrow> bool"
  for sel root j where
  refl: "away sel root j s s"
| step: "away sel root j s s' \<Longrightarrow> currentTask (fst s') \<noteq> j \<Longrightarrow> sched_step sel root s' e s'' \<Longrightarrow> away sel root j s s''"

lemma step_keeps_others:
  assumes "sched_step sel root s e s'" "currentTask (fst s) \<noteq> j" "tstate (tasks (fst s) j) \<noteq> STATE_HALTED"
  shows "registers (tasks (fst s') j) = registers (tasks (fst s) j)" "tstate (tasks (fst s') j) = tstate (tasks (fst s) j)"
proof -
  have "registers (tasks (fst s') j) = registers (tasks (fst s) j) \<and> tstate (tasks (fst s') j) = tstate (tasks (fst s) j)"
    using assms
  proof (cases rule: sched_step.cases)
    case (tick f tm f' tm' m)
    from tick(4) show ?thesis using assms(2) tick(1,3)
      by (cases rule: Schedule_cases) auto
  next
    case (add entry stk name priv sz tm m)
    obtain tm' m' where s': "s' = (tm', m')" by (cases s')
    from add(3) [unfolded s'] obtain i where i: "first_halted (tasks tm) 0 = Some i"
      "tm' = tm\<lparr>lastTerminal := lastTerminal tm + 1,
        taskNum := (if sint (taskNum tm) \<le> sint i then i + 1 else taskNum tm),
        tasks := (tasks tm)(i := new_task sel entry stk name priv sz (lastTerminal tm))\<rparr>"
      by (rule AddTask_cases)
    have "i \<noteq> j" using first_halted_halted [OF i(1)] assms(3) add(1) by auto
    then show ?thesis using i(2) add(1) s' by simp
  next
    case (exit tm m)
    then show ?thesis using assms(2) by (simp add: ExitCurrentTask_def)
  qed
  then show "registers (tasks (fst s') j) = registers (tasks (fst s) j)"
    "tstate (tasks (fst s') j) = tstate (tasks (fst s) j)" by simp_all
qed

lemma away_keeps:
  assumes "away sel root j s s'" "tstate (tasks (fst s) j) \<noteq> STATE_HALTED"
  shows "registers (tasks (fst s') j) = registers (tasks (fst s) j) \<and> tstate (tasks (fst s') j) = tstate (tasks (fst s) j)"
  using assms
proof (induction rule: away.induct)
  case refl
  then show ?case by simp
next
  case (step s s' e s'')
  then show ?case using step_keeps_others [of sel root s' e s'' j] by simp
qed

text \<open>C14: isolation of the tasks.  A task that the timer interrupts and that gets the processor
  back later goes on with exactly the frame it was interrupted with, whatever ticks, new tasks and
  exits came in between; only the kernel's stack pointer is that of the last tick, cut to 32 bits.\<close>

theorem preempted_task_resumes:
  assumes "Schedule f tm = Some (f', tm1)" "isEnabled tm \<noteq> 0" "currentTask tm = j"
    and "tstate (tasks tm j) \<noteq> STATE_HALTED"
    and "away sel root j (tm1, m1) (tm2, m2)" "currentTask tm2 \<noteq> j"
    and "Schedule g tm2 = Some (g', tm3)" "currentTask tm3 = j"
  shows "g' = f\<lparr>KernelRsp := sext (ucast (KernelRsp g))\<rparr> \<and> tstate (tasks tm3 j) \<noteq> STATE_HALTED"
proof -
  have "registers (tasks tm1 j) = f \<and> tstate (tasks tm1 j) \<noteq> STATE_HALTED"
    using assms(1) by (cases rule: Schedule_cases) (use assms(2-4) in auto)
  then have 2: "registers (tasks tm2 j) = f \<and> tstate (tasks tm2 j) \<noteq> STATE_HALTED"
    using away_keeps [OF assms(5)] by simp
  from assms(7) show ?thesis
    by (cases rule: Schedule_cases) (use assms(6,8) 2 in \<open>auto simp: kernel_rsp_def\<close>)
qed

text \<open>A concrete run: task 0 is interrupted, task 2 runs and is interrupted.\<close>

lemma preempted_task_resumes_witness:
  "\<exists>f' tm1 g' tm3. Schedule zero_stack example_tm = Some (f', tm1) \<and>
    Schedule (zero_stack\<lparr>KernelRsp := 0x180000000\<rparr>) tm1 = Some (g', tm3) \<and>
    g' = zero_stack\<lparr>KernelRsp := 0xffffffff80000000\<rparr>"
proof -
  let ?g = "zero_stack\<lparr>KernelRsp := 0x180000000\<rparr>"
  have n: "next_task tm 0 = Some 2" "next_task tm 2 = Some 0"
    if "taskNum tm = 3" "\<And>i. tstate (tasks tm i) = (if i = 1 then 0 else 1)" for tm
    using that by (simp_all add: next_task.simps [of tm 0] next_task.simps [of tm 1] next_task.simps [of tm 2]
      STATE_HALTED_def Let_def)
  have e: "taskNum example_tm = 3" "\<And>i. tstate (tasks example_tm i) = (if i = 1 then 0 else 1)"
    "currentTask example_tm = 0" "isEnabled example_tm = 1"
    by (simp_all add: example_tm_def)
  define tm1 where "tm1 = (save zero_stack example_tm)\<lparr>currentTask := 2\<rparr>"
  have 1: "Schedule zero_stack example_tm = Some
      ((registers (tasks (save zero_stack example_tm) 2))\<lparr>KernelRsp := kernel_rsp zero_stack\<rparr>, tm1)"
    using n(1) [of "save zero_stack example_tm"] e by (simp add: Schedule_eq tm1_def)
  have e1: "taskNum tm1 = 3" "\<And>i. tstate (tasks tm1 i) = (if i = 1 then 0 else 1)" "currentTask tm1 = 2" "isEnabled tm1 = 1"
    using e by (simp_all add: tm1_def)
  have 2: "Schedule ?g tm1 = Some
      ((registers (tasks (save ?g tm1) 0))\<lparr>KernelRsp := kernel_rsp ?g\<rparr>, (save ?g tm1)\<lparr>currentTask := 0\<rparr>)"
    using n(2) [of "save ?g tm1"] e1 by (simp add: Schedule_eq)
  have "(registers (tasks (save ?g tm1) 0))\<lparr>KernelRsp := kernel_rsp ?g\<rparr> =
      zero_stack\<lparr>KernelRsp := sext (ucast (KernelRsp ?g))\<rparr>"
    using preempted_task_resumes [OF 1 _ e(3) _ away.refl [of undefined 0 0] _ 2] e e1 by (simp add: STATE_HALTED_def)
  also have "sext (ucast (KernelRsp ?g)) = 0xffffffff80000000" by (simp add: sext_def)
  finally show ?thesis using 1 2 by metis
qed

section \<open>The tasks stay in user mode\<close>

text \<open>
  Code and stack of the user with interrupts enabled: what a task must be resumed with so that it
  has no rights of the kernel and the timer can interrupt it again.
\<close>

definition user_frame :: "gdt_info_selectors \<Rightarrow> interrupt_stack \<Rightarrow> bool" where
  "user_frame sel f \<longleftrightarrow> cs f = sext (UCode sel) \<and> ss f = sext (UData sel) \<and> bit (rflags f) 9"

text \<open>
  The life of the manager: it starts without tasks, in a cleared table; a task is added only while
  the table has room; the timer interrupts user code.
\<close>

inductive sched_reachable :: "gdt_info_selectors \<Rightarrow> u64 \<Rightarrow> taskmgr \<times> mem \<Rightarrow> bool" for sel root where
  boot: "\<forall>i < 1024. \<not> runnable tm i \<Longrightarrow> currentTask tm = 0 \<Longrightarrow> taskNum tm = 0 \<Longrightarrow> isEnabled tm = 0 \<Longrightarrow>
    sched_reachable sel root (tm, m)"
| enable: "sched_reachable sel root (tm, m) \<Longrightarrow> 0 < sint (taskNum tm) \<Longrightarrow>
    sched_reachable sel root (tm\<lparr>isEnabled := 1\<rparr>, m)"
| tick: "sched_reachable sel root s \<Longrightarrow> user_frame sel f \<Longrightarrow> sched_step sel root s (Tick f f') s' \<Longrightarrow>
    sched_reachable sel root s'"
| add: "sched_reachable sel root s \<Longrightarrow> \<exists>i < 1024. \<not> runnable (fst s) i \<Longrightarrow>
    sched_step sel root s (Add entry stk name priv sz) s' \<Longrightarrow> sched_reachable sel root s'"
| exit: "sched_reachable sel root s \<Longrightarrow> sched_step sel root s Exit s' \<Longrightarrow> sched_reachable sel root s'"

definition tm_wf :: "gdt_info_selectors \<Rightarrow> taskmgr \<Rightarrow> bool" where
  "tm_wf sel tm \<longleftrightarrow> 0 \<le> sint (taskNum tm) \<and> sint (taskNum tm) \<le> 1024 \<and>
     (if sint (taskNum tm) = 0 then currentTask tm = 0 \<and> isEnabled tm = 0 else unat (currentTask tm) < tm_size tm) \<and>
     (\<forall>i < 1024. runnable tm i \<longrightarrow> i < tm_size tm) \<and>
     (\<forall>i < tm_size tm. user_frame sel (registers (tasks tm (of_nat i))))"

lemma new_task_user: "user_frame sel (registers (new_task sel entry stk name priv sz term))"
proof -
  have "bit (0x202 :: u64) 9" by (simp add: bit_numeral_rec)
  then show ?thesis by (simp add: user_frame_def new_task_def)
qed

lemma Schedule_wf:
  assumes "tm_wf sel tm" "user_frame sel f" "Schedule f tm = Some (f', tm')"
  shows "tm_wf sel tm' \<and> user_frame sel f'"
  using assms(3)
proof (cases rule: Schedule_cases)
  case off
  then show ?thesis using assms by simp
next
  case (on c)
  have n: "0 < sint (taskNum tm)" "sint (taskNum tm) = int (tm_size tm)" "tm_size tm \<le> 1024"
    and cur: "unat (currentTask tm) < tm_size tm"
    using assms(1) on(1) by (auto simp: tm_wf_def tm_size_def split: if_splits)
  have "unat (currentTask tm) < 2147483648" using cur n(3) by simp
  then have s: "sint (currentTask tm) = int (unat (currentTask tm))"
    using sint_of_nat32 [of "unat (currentTask tm)"] by simp
  have c: "0 \<le> sint c \<and> sint c < sint (taskNum tm)"
  proof -
    have "0 \<le> sint (currentTask tm) \<and> sint (currentTask tm) < sint (taskNum (save f tm))"
      unfolding s save_simps n(2) using cur by (simp only: of_nat_0_le_iff of_nat_less_iff simp_thms)
    then show ?thesis using next_task_runs [OF on(2)] by simp
  qed
  then have u: "unat c < tm_size tm" using sint_nonneg [of c] n(2) by linarith
  have r: "user_frame sel (registers (tasks (save f tm) (of_nat i)))" if "i < tm_size tm" for i
    using assms(1,2) that by (simp add: tm_wf_def)
  have "user_frame sel f'" using r [OF u] on(4) by (simp add: user_frame_def)
  moreover have "tm_wf sel tm'"
    using assms(1) n u r on(3) by (simp add: tm_wf_def)
  ultimately show ?thesis by simp
qed

lemma AddTask_wf:
  assumes "tm_wf sel tm" "\<exists>i < 1024. \<not> runnable tm i"
    and "AddTask sel root entry stk name priv sz (tm, m) = Some (tm', m')"
  shows "tm_wf sel tm'"
proof -
  define i where "i = (LEAST i. \<not> runnable tm i)"
  from assms(2) obtain h where h: "h < 1024" "\<not> runnable tm h" by blast
  have i1: "\<not> runnable tm i" unfolding i_def by (rule LeastI [of "\<lambda>i. \<not> runnable tm i", OF h(2)])
  have i2: "i < 1024" using Least_le [of "\<lambda>i. \<not> runnable tm i", OF h(2)] h(1) unfolding i_def by (rule le_less_trans)
  have i3: "\<forall>k. 0 \<le> k \<and> k < i \<longrightarrow> runnable tm k" unfolding i_def using not_less_Least by blast
  note i = i1 i2 i3
  have n: "sint (taskNum tm) = int (tm_size tm)" "tm_size tm \<le> 1024" and below: "\<forall>k < 1024. runnable tm k \<longrightarrow> k < tm_size tm"
    and user: "\<forall>k < tm_size tm. user_frame sel (registers (tasks tm (of_nat k)))"
    and cur: "unat (currentTask tm) < tm_size tm \<or> currentTask tm = 0"
    using assms(1) by (auto simp: tm_wf_def tm_size_def split: if_splits)
  have le: "i \<le> tm_size tm"
  proof (rule ccontr)
    assume "\<not> i \<le> tm_size tm"
    then show False using i(2,3) below by (metis le0 less_irrefl less_trans not_le)
  qed
  have fh: "first_halted (tasks tm) 0 = Some (of_nat i)"
    using first_halted_least [of 0 i tm] i by simp
  have si: "sint (of_nat i :: i32) = int i" "sint (of_nat (Suc i) :: i32) = int (Suc i)"
    using i(2) sint_of_nat32 [of i] sint_of_nat32 [of "Suc i"] by simp_all
  obtain i' where fh': "first_halted (tasks tm) 0 = Some i'"
    and tm': "tm' = tm\<lparr>lastTerminal := lastTerminal tm + 1,
        taskNum := (if sint (taskNum tm) \<le> sint i' then i' + 1 else taskNum tm),
        tasks := (tasks tm)(i' := new_task sel entry stk name priv sz (lastTerminal tm))\<rparr>"
    using assms(3) by (rule AddTask_cases)
  have i': "i' = of_nat i" using fh fh' by simp
  have s: "sint (taskNum tm') = int (max (tm_size tm) (Suc i))"
    using si le n(1) by (auto simp: tm' i' add.commute max_def)
  then have n': "tm_size tm' = max (tm_size tm) (Suc i)" by (simp add: tm_size_def)
  have run: "k < tm_size tm'" if "k < 1024" "runnable tm' k" for k
  proof (cases "k = i")
    case False
    have "(of_nat k :: i32) \<noteq> of_nat i" using that(1) i(2) False unat_of_nat32 [of k] unat_of_nat32 [of i] by force
    then have "runnable tm k" using that(2) by (simp add: runnable_def tm' i')
    then show ?thesis using below that(1) n' by auto
  qed (simp add: n')
  have use: "user_frame sel (registers (tasks tm' (of_nat k)))" if "k < tm_size tm'" for k
  proof (cases "(of_nat k :: i32) = of_nat i")
    case True
    then show ?thesis by (simp add: tm' i' new_task_user)
  next
    case False
    then have "k < tm_size tm" using that le n' by (cases "k = i") auto
    then show ?thesis using user False by (simp add: tm' i')
  qed
  have c: "unat (currentTask tm') < tm_size tm'" using cur by (auto simp: tm' n' [unfolded tm'])
  show ?thesis unfolding tm_wf_def using s n(2) i(2) run use c by simp
qed

lemma Exit_wf: "tm_wf sel tm \<Longrightarrow> tm_wf sel (ExitCurrentTask tm)"
  by (auto simp: tm_wf_def ExitCurrentTask_def tm_size_def runnable_def)

lemma reachable_wf: "sched_reachable sel root s \<Longrightarrow> tm_wf sel (fst s)"
proof (induction rule: sched_reachable.induct)
  case (boot tm m)
  then show ?case by (simp add: tm_wf_def tm_size_def)
next
  case (enable tm m)
  then show ?case by (simp add: tm_wf_def tm_size_def runnable_def)
next
  case (tick s f f' s')
  from tick(3) show ?case
    by (rule sched_stepE) (use Schedule_wf [OF _ tick(2)] tick(4) in auto)
next
  case (add s entry stk name priv sz s')
  obtain tm' m' where s': "s' = (tm', m')" by (cases s')
  from add(3) show ?case
    by (rule sched_stepE) (use AddTask_wf [of sel "fst s" root] add(2,4) in \<open>auto simp: s'\<close>)
next
  case (exit s s')
  from exit(2) show ?case by (rule sched_stepE) (use exit(3) in \<open>auto intro: Exit_wf\<close>)
qed



end
