(* ===== verification/Keyboard.thy ===== *)
theory Keyboard
  imports PortIO
begin

unbundle bit_operations_syntax

text \<open>
  The keyboard driver, \<open>drivers/keyboard/keyboard.cpp\<close>: the three tables of the scan code set, the
  state of the shift and lock keys, and the buffer of the characters typed.
\<close>

section \<open>The driver\<close>

definition KEY_BACKSPACE :: u8 where "KEY_BACKSPACE = 0x0E"
definition KEY_LEFTSHIFT :: u8 where "KEY_LEFTSHIFT = 0x2A"
definition KEY_RIGHTSHIFT :: u8 where "KEY_RIGHTSHIFT = 0x36"
definition KEY_CAPSLOCK :: u8 where "KEY_CAPSLOCK = 0x3A"
definition KEY_SPACE :: u8 where "KEY_SPACE = 0x39"
definition KEYUP_OFFSET :: u8 where "KEYUP_OFFSET = 0x80"

lemmas key_defs = KEY_BACKSPACE_def KEY_LEFTSHIFT_def KEY_RIGHTSHIFT_def KEY_CAPSLOCK_def
  KEY_SPACE_def KEYUP_OFFSET_def

definition ScanCodeSet1 :: "u8 list" where
  "ScanCodeSet1 = [
    0, 0, 49, 50, 51, 52, 53, 54, 55, 56, 57, 48, 45, 61, 8, 0, 113, 119, 101, 114, 116, 121,
    117, 105, 111, 112, 91, 93, 10, 0, 97, 115, 100, 102, 103, 104, 106, 107, 108, 59, 39, 96,
    0, 92, 122, 120, 99, 118, 98, 110, 109, 44, 46, 47, 0, 42, 0, 32]"

definition ScanCodeUpperSet1 :: "u8 list" where
  "ScanCodeUpperSet1 = [
    0, 0, 49, 64, 35, 36, 37, 94, 38, 42, 40, 41, 95, 43, 8, 0, 81, 87, 69, 82, 84, 89, 85, 73,
    79, 80, 123, 125, 10, 0, 65, 83, 68, 70, 71, 72, 74, 75, 76, 58, 34, 126, 0, 124, 90, 88,
    67, 86, 66, 78, 77, 60, 62, 63, 0, 42, 0, 32]"

definition ScanCodeCapsSet1 :: "u8 list" where
  "ScanCodeCapsSet1 = [
    0, 0, 49, 50, 51, 52, 53, 54, 55, 56, 57, 48, 45, 61, 8, 0, 81, 87, 69, 82, 84, 89, 85, 73,
    79, 80, 91, 93, 10, 0, 65, 83, 68, 70, 71, 72, 74, 75, 76, 59, 39, 96, 0, 92, 90, 88, 67,
    86, 66, 78, 77, 44, 46, 47, 0, 42, 0, 32]"

datatype key_state = UP | DOWN

text \<open>\<open>(KeyState)((int)a | (int)b)\<close>\<close>

definition or_key :: "key_state \<Rightarrow> key_state \<Rightarrow> key_state" where
  "or_key a b = (if a = DOWN \<or> b = DOWN then DOWN else UP)"

text \<open>The driver's object and the two static variables that \<open>kbhit\<close> and \<open>getch\<close> read.\<close>

record keyboard =
  buffer :: "u8 list"
  bufferIndex :: i32
  LeftShift :: key_state
  RightShift :: key_state
  CapsLock :: key_state
  ReceivedIntrerupt :: bool
  LastKeycode :: i32

definition Translate :: "u8 \<Rightarrow> key_state \<Rightarrow> key_state \<Rightarrow> u8" where
  "Translate keycode isUpperCase isCaps =
     (if unat keycode > length ScanCodeSet1 - 1 then 0
      else if isUpperCase = DOWN \<and> keycode \<noteq> KEY_SPACE then ScanCodeUpperSet1 ! unat keycode
      else if isCaps = DOWN \<and> keycode \<noteq> KEY_SPACE then ScanCodeCapsSet1 ! unat keycode
      else if isUpperCase = DOWN \<and> isCaps \<noteq> UP then ScanCodeSet1 ! unat keycode
      else ScanCodeSet1 ! unat keycode)"

definition translate_key :: "u8 \<Rightarrow> keyboard \<Rightarrow> u8" where
  "translate_key keycode kb = Translate keycode (or_key (LeftShift kb) (RightShift kb)) (CapsLock kb)"

definition Handle :: "u8 \<Rightarrow> keyboard \<Rightarrow> keyboard" where
  "Handle keycode kb =
     (let kb = kb\<lparr>ReceivedIntrerupt := True\<rparr>;
          kb = kb\<lparr>LastKeycode := scast (translate_key keycode kb)\<rparr>
      in if keycode = KEY_BACKSPACE then
           (if bufferIndex kb \<noteq> 0
            then let i = bufferIndex kb - 1
                 in kb\<lparr>bufferIndex := i, buffer := (buffer kb)[unat i := 0]\<rparr>
            else kb)
         else if keycode = KEY_LEFTSHIFT then kb\<lparr>LeftShift := DOWN\<rparr>
         else if keycode = KEY_RIGHTSHIFT then kb\<lparr>RightShift := DOWN\<rparr>
         else if keycode = KEY_LEFTSHIFT + KEYUP_OFFSET then kb\<lparr>LeftShift := UP\<rparr>
         else if keycode = KEY_RIGHTSHIFT + KEYUP_OFFSET then kb\<lparr>RightShift := UP\<rparr>
         else if keycode = KEY_CAPSLOCK then
           (if CapsLock kb = UP then kb\<lparr>CapsLock := DOWN\<rparr> else kb\<lparr>CapsLock := UP\<rparr>)
         else
           let translated = translate_key keycode kb
           in if translated \<noteq> 0
              then let kb = (if sint (bufferIndex kb + 1) \<ge> 0xFFFF then kb\<lparr>bufferIndex := 0\<rparr> else kb);
                       i = bufferIndex kb
                   in kb\<lparr>buffer := (buffer kb)[unat i := translated], bufferIndex := i + 1\<rparr>
              else kb)"

definition kbhit :: "keyboard \<Rightarrow> i32 \<times> keyboard" where
  "kbhit kb = (if ReceivedIntrerupt kb then (1, kb\<lparr>ReceivedIntrerupt := False\<rparr>) else (0, kb))"

definition getch :: "keyboard \<Rightarrow> i32" where
  "getch kb = LastKeycode kb"

section \<open>The tables\<close>

lemma table_lengths:
  "length ScanCodeSet1 = 58" "length ScanCodeUpperSet1 = 58" "length ScanCodeCapsSet1 = 58"
  by (simp_all add: ScanCodeSet1_def ScanCodeUpperSet1_def ScanCodeCapsSet1_def)

lemma table_ascii:
  "\<forall>c \<in> set (ScanCodeSet1 @ ScanCodeUpperSet1 @ ScanCodeCapsSet1). c < 128"
  unfolding ScanCodeSet1_def ScanCodeUpperSet1_def ScanCodeCapsSet1_def by simp

lemma Translate_ascii: "Translate k u c < 128"
proof -
  have "k' < 58 \<Longrightarrow> ScanCodeSet1 ! k' < 128 \<and> ScanCodeUpperSet1 ! k' < 128 \<and> ScanCodeCapsSet1 ! k' < 128" for k'
    using table_ascii by (auto simp: table_lengths)
  then show ?thesis by (auto simp: Translate_def table_lengths)
qed

section \<open>The buffer as a text\<close>

definition kb_ok :: "keyboard \<Rightarrow> bool" where
  "kb_ok kb \<longleftrightarrow> length (buffer kb) = 0xFFFF \<and> unat (bufferIndex kb) < 0xFFFF"

definition typed :: "keyboard \<Rightarrow> u8 list" where
  "typed kb = take (unat (bufferIndex kb)) (buffer kb)"

definition shifted :: "keyboard \<Rightarrow> bool" where
  "shifted kb \<longleftrightarrow> LeftShift kb = DOWN \<or> RightShift kb = DOWN"

text \<open>What a scan code does to the text: a buffer that is full is started anew.\<close>

definition key_effect :: "u8 \<Rightarrow> bool \<Rightarrow> bool \<Rightarrow> u8 list \<Rightarrow> u8 list" where
  "key_effect k shift caps t =
     (if k = 0x0E then butlast t
      else if k \<in> {0x2A, 0x36, 0xAA, 0xB6, 0x3A} \<or> 58 \<le> unat k then t
      else let c = (if k = 0x39 then ScanCodeSet1 else if shift then ScanCodeUpperSet1
                    else if caps then ScanCodeCapsSet1 else ScanCodeSet1) ! unat k
           in if c = 0 then t
              else if length t + 1 \<ge> 0xFFFF then [c] else t @ [c])"

lemma index_Suc: "unat i < 0xFFFF \<Longrightarrow> unat (i + 1 :: i32) = Suc (unat i)"
  by (cases "i = - 1") (simp_all add: unsigned_minus_1_eq_mask mask_eq_exp_minus_1 unat_Suc_not_max)

lemma typed_update:
  fixes i :: i32
  assumes "length (buffer kb) = 0xFFFF" and "unat i < 0xFFFF"
  shows "take (unat (i + 1)) ((buffer kb)[unat i := c]) = take (unat i) (buffer kb) @ [c]"
proof -
  have "unat (i + 1) = Suc (unat i)"
    using assms(2) by (rule index_Suc)
  then show ?thesis using assms by (simp add: take_Suc_conv_app_nth)
qed

lemma int_small: "unat i < 0xFFFF \<Longrightarrow> sint (i + 1 :: i32) = int (unat i) + 1"
  using sint_of_nat32 [of "unat i + 1"] by (simp add: add.commute of_nat_unat_id)

lemma pred_index: "i \<noteq> 0 \<Longrightarrow> unat (i - 1 :: i32) = unat i - 1"
  using unat_minus_one [of i] by simp

section \<open>Properties\<close>

lemma Handle_backspace:
  assumes "kb_ok kb"
  shows "kb_ok (Handle 0x0E kb)" "typed (Handle 0x0E kb) = butlast (typed kb)"
proof -
  define i where "i = bufferIndex kb"
  have len: "length (buffer kb) = 0xFFFF" and i: "unat i < 0xFFFF"
    using assms by (simp_all add: kb_ok_def i_def)
  have bk: "unat (i - 1) = unat i - 1" if "i \<noteq> 0" by (rule pred_index [OF that])
  have zero: "unat i = 0 \<longleftrightarrow> i = 0" by (simp add: unat_eq_0)
  show "kb_ok (Handle 0x0E kb)" "typed (Handle 0x0E kb) = butlast (typed kb)"
    using len i bk zero
    by (auto simp: Handle_def Let_def key_defs kb_ok_def typed_def i_def [symmetric] butlast_take min_def)
qed

text \<open>The character of a key: nothing for the keys behind the space bar, which has one table.\<close>

definition key_char :: "u8 \<Rightarrow> keyboard \<Rightarrow> u8" where
  "key_char k kb = Translate k (if shifted kb then DOWN else UP) (CapsLock kb)"

lemma key_char_table:
  "key_char k kb = (if 58 \<le> unat k then 0
     else (if k = 0x39 then ScanCodeSet1 else if shifted kb then ScanCodeUpperSet1
           else if CapsLock kb = DOWN then ScanCodeCapsSet1 else ScanCodeSet1) ! unat k)"
  by (auto simp: key_char_def Translate_def key_defs table_lengths)

lemma Handle_character:
  assumes "kb_ok kb" and k: "k \<notin> {0x0E, 0x2A, 0x36, 0xAA, 0xB6, 0x3A}"
  defines "c \<equiv> key_char k kb"
  shows "kb_ok (Handle k kb)"
    and "typed (Handle k kb) = (if c = 0 then typed kb else if length (typed kb) + 1 \<ge> 0xFFFF then [c] else typed kb @ [c])"
proof -
  define i where "i = bufferIndex kb"
  have len: "length (buffer kb) = 0xFFFF" and i: "unat i < 0xFFFF"
    using assms(1) by (simp_all add: kb_ok_def i_def)
  have wrap: "sint (i + 1) \<ge> 0xFFFF \<longleftrightarrow> unat i + 1 \<ge> 0xFFFF"
    using int_small [OF i] by linarith
  have up: "unat (i + 1) = unat i + 1" using index_Suc [OF i] by simp
  have t: "translate_key k (kb\<lparr>ReceivedIntrerupt := True, LastKeycode := c'\<rparr>) = c"
    "translate_key k (kb\<lparr>ReceivedIntrerupt := True\<rparr>) = c" for c'
    by (simp_all add: translate_key_def or_key_def shifted_def c_def key_char_def)
  have h: "Handle k kb = (if c \<noteq> 0
      then let j = (if unat i + 1 \<ge> 0xFFFF then 0 else i)
           in kb\<lparr>ReceivedIntrerupt := True, LastKeycode := scast c, buffer := (buffer kb)[unat j := c],
                bufferIndex := j + 1\<rparr>
      else kb\<lparr>ReceivedIntrerupt := True, LastKeycode := scast c\<rparr>)"
    using k wrap by (auto simp: Handle_def Let_def key_defs t i_def)
  have l: "length (typed kb) = unat i" using len i by (simp add: typed_def i_def [symmetric])
  show "kb_ok (Handle k kb)"
    "typed (Handle k kb) = (if c = 0 then typed kb else if length (typed kb) + 1 \<ge> 0xFFFF then [c] else typed kb @ [c])"
    unfolding h l using assms(1) len i up typed_update [of kb i c] typed_update [of kb 0 c]
    by (auto simp: kb_ok_def typed_def Let_def i_def)
qed

text \<open>
  C28: Whatever scan codes arrive, in whatever order, the driver writes only inside its buffer: the
  index stays below the size of the buffer, and the characters typed, up to the index, change as a
  line of text does: a key appends its character from the table the shift and lock keys select,
  backspace removes the last one, and a full buffer starts anew.
\<close>

theorem Handle_types_text:
  assumes "kb_ok kb"
  shows "kb_ok (Handle k kb) \<and>
    typed (Handle k kb) = key_effect k (shifted kb) (CapsLock kb = DOWN) (typed kb)"
proof -
  consider "k = 0x0E" | "k \<in> {0x2A, 0x36, 0xAA, 0xB6, 0x3A}" | "k \<notin> {0x0E, 0x2A, 0x36, 0xAA, 0xB6, 0x3A}"
    by blast
  then show ?thesis
  proof cases
    case 1
    then show ?thesis using Handle_backspace [OF assms] by (simp add: key_effect_def)
  next
    case 2
    then show ?thesis
      using assms by (auto simp: Handle_def Let_def key_defs kb_ok_def typed_def key_effect_def)
  next
    case 3
    then show ?thesis
      using Handle_character [OF assms 3] by (auto simp: key_effect_def key_char_table Let_def)
  qed
qed

definition fresh_keyboard :: keyboard where
  "fresh_keyboard = \<lparr>buffer = replicate 0xFFFF 0, bufferIndex = 0, LeftShift = UP, RightShift = UP,
     CapsLock = UP, ReceivedIntrerupt = False, LastKeycode = 0\<rparr>"

theorem Handle_types_text_witness:
  "typed (Handle 0x10 fresh_keyboard) = [113]"
proof -
  have "kb_ok fresh_keyboard" by (simp add: kb_ok_def fresh_keyboard_def)
  from Handle_types_text [OF this, of "0x10"] show ?thesis
    by (simp add: key_effect_def typed_def fresh_keyboard_def shifted_def ScanCodeSet1_def)
qed

end
