(* ===== verification/Mouse.thy ===== *)
theory Mouse
  imports PortIO
begin

unbundle bit_operations_syntax

text \<open>
  The PS/2 mouse driver, \<open>drivers/mouse/mouse.cpp\<close>: the bounded waits for the controller, the
  machine that assembles packets of three bytes, and the movement of the cursor they stand for.
\<close>

section \<open>Talking to the controller\<close>

definition PS2_STATUS :: u32 where "PS2_STATUS = 0x64"
definition PS2_DATA :: u32 where "PS2_DATA = 0x60"

text \<open>
  \<open>inportb(PS2_STATUS) & 0b10 == 0\<close>: in C++ the comparison binds tighter than \<open>&\<close>, so the mask is
  the truth value of \<open>0b10 == 0\<close>.  The counts are those of the two loops.
\<close>

fun wait_loop :: "nat \<Rightarrow> hardware \<Rightarrow> unit io" where
  "wait_loop 0 hw = State_Monad.return ()"
| "wait_loop (Suc timeout) hw =
     do { b \<leftarrow> inportb hw PS2_STATUS;
          if ucast b AND (if (0b10 :: i32) = 0 then 1 else 0 :: i32) \<noteq> 0 then State_Monad.return ()
          else wait_loop timeout hw }"

definition Wait :: "hardware \<Rightarrow> unit io" where
  "Wait hw = wait_loop 100000 hw"

fun wait_input_loop :: "nat \<Rightarrow> hardware \<Rightarrow> unit io" where
  "wait_input_loop 0 hw = State_Monad.return ()"
| "wait_input_loop (Suc timeout) hw =
     do { b \<leftarrow> inportb hw PS2_STATUS;
          if ucast b AND (0b1 :: i32) \<noteq> 0 then State_Monad.return ()
          else wait_input_loop timeout hw }"

definition WaitInput :: "hardware \<Rightarrow> unit io" where
  "WaitInput hw = wait_input_loop 100000 hw"

definition Send :: "hardware \<Rightarrow> i32 \<Rightarrow> unit io" where
  "Send hw val =
     do { Wait hw; outportb PS2_STATUS 0xD4; Wait hw; outportb PS2_DATA (ucast val) }"

definition Read :: "hardware \<Rightarrow> i32 io" where
  "Read hw = do { WaitInput hw; b \<leftarrow> inportb hw PS2_DATA; State_Monad.return (ucast b) }"

definition Init :: "hardware \<Rightarrow> unit io" where
  "Init hw =
     do { outportb PS2_STATUS 0xA8;
          Wait hw;
          outportb PS2_STATUS 0x20;
          WaitInput hw;
          status \<leftarrow> inportb hw PS2_DATA;
          let status = status OR 0b10;
          Wait hw;
          outportb PS2_STATUS (ucast PS2_DATA);
          Wait hw;
          outportb PS2_DATA status;
          Send hw 0xF6;
          _ \<leftarrow> Read hw;
          Send hw 0xF4;
          _ \<leftarrow> Read hw;
          State_Monad.return () }"

section \<open>Packets\<close>

definition X_SIGN :: i32 where "X_SIGN = 0b00010000"
definition Y_SIGN :: i32 where "Y_SIGN = 0b00100000"
definition X_OVER :: i32 where "X_OVER = 0b01000000"
definition Y_OVER :: i32 where "Y_OVER = 0b10000000"
definition BTN_LEFT :: i32 where "BTN_LEFT = 0b00000001"
definition BTN_MIDDLE :: i32 where "BTN_MIDDLE = 0b00000100"
definition BTN_RIGHT :: i32 where "BTN_RIGHT = 0b00000010"

lemmas mouse_defs = X_SIGN_def Y_SIGN_def X_OVER_def Y_OVER_def BTN_LEFT_def BTN_MIDDLE_def BTN_RIGHT_def

record mouse_state =
  X :: i32
  Y :: i32
  ButtonLeft :: i32
  ButtonMiddle :: i32
  ButtonRight :: i32

text \<open>The object, the global \<open>skipPacket\<close>, and the size of the display the cursor is kept in.\<close>

record mouse =
  mstate :: mouse_state
  Cycle :: i32
  Packet0 :: i32
  Packet1 :: i32
  Packet2 :: i32
  PacketReady :: bool
  skipPacket :: bool

definition move_x :: "mouse \<Rightarrow> mouse" where
  "move_x ms =
     (let xN = Packet0 ms AND X_SIGN \<noteq> 0; xO = Packet0 ms AND X_OVER \<noteq> 0; s = mstate ms
      in if \<not> xN
         then let s = s\<lparr>X := X s + Packet1 ms\<rparr>;
                  s = (if xO then s\<lparr>X := X s + 255\<rparr> else s)
              in ms\<lparr>mstate := s\<rparr>
         else let ms = ms\<lparr>Packet1 := 256 - Packet1 ms\<rparr>;
                  s = s\<lparr>X := X s - Packet1 ms\<rparr>;
                  s = (if xO then s\<lparr>X := X s - 255\<rparr> else s)
              in ms\<lparr>mstate := s\<rparr>)"

definition move_y :: "mouse \<Rightarrow> mouse" where
  "move_y ms =
     (let yN = Packet0 ms AND Y_SIGN \<noteq> 0; yO = Packet0 ms AND Y_OVER \<noteq> 0; s = mstate ms
      in if \<not> yN
         then let s = s\<lparr>Y := Y s - Packet2 ms\<rparr>;
                  s = (if yO then s\<lparr>Y := Y s - 255\<rparr> else s)
              in ms\<lparr>mstate := s\<rparr>
         else let ms = ms\<lparr>Packet2 := 256 - Packet2 ms\<rparr>;
                  s = s\<lparr>Y := Y s + Packet2 ms\<rparr>;
                  s = (if yO then s\<lparr>Y := Y s + 255\<rparr> else s)
              in ms\<lparr>mstate := s\<rparr>)"

text \<open>The comparison with the unsigned 64-bit bound extends the sign of the coordinate.\<close>

definition clamp :: "i32 \<Rightarrow> u64 \<Rightarrow> i32" where
  "clamp c bound =
     (let c = (if sint c < 0 then 0 else c)
      in if sext c > bound - 1 then ucast (bound - 1) else c)"

definition HandlePacket :: "u64 \<Rightarrow> u64 \<Rightarrow> mouse \<Rightarrow> mouse" where
  "HandlePacket width height ms =
     (if \<not> PacketReady ms then ms
      else let ms = ms\<lparr>PacketReady := False\<rparr>;
               ms = move_y (move_x ms);
               s = mstate ms;
               s = s\<lparr>X := clamp (X s) width\<rparr>;
               s = s\<lparr>Y := clamp (Y s) height\<rparr>;
               s = s\<lparr>ButtonLeft := (if Packet0 ms AND BTN_LEFT \<noteq> 0 then 1 else 0)\<rparr>;
               s = s\<lparr>ButtonMiddle := (if Packet0 ms AND BTN_MIDDLE \<noteq> 0 then 1 else 0)\<rparr>;
               s = s\<lparr>ButtonRight := (if Packet0 ms AND BTN_RIGHT \<noteq> 0 then 1 else 0)\<rparr>
           in ms\<lparr>mstate := s\<rparr>)"

definition Handle :: "u64 \<Rightarrow> u64 \<Rightarrow> u8 \<Rightarrow> mouse \<Rightarrow> mouse" where
  "Handle width height data ms =
     (let ms = HandlePacket width height ms
      in if skipPacket ms then ms\<lparr>skipPacket := False\<rparr>
         else if Cycle ms = 0 then
           (if PacketReady ms then ms else ms\<lparr>Packet0 := ucast data, Cycle := Cycle ms + 1\<rparr>)
         else if Cycle ms = 1 then
           (if PacketReady ms then ms else ms\<lparr>Packet1 := ucast data, Cycle := Cycle ms + 1\<rparr>)
         else if Cycle ms = 2 then
           (if PacketReady ms then ms
            else ms\<lparr>Packet2 := ucast data, PacketReady := True, Cycle := 0\<rparr>)
         else ms)"

section \<open>The waits\<close>

lemma wait_loop_reads: "run_state (wait_loop n hw) tr = ((), tr @ replicate n (InB 0x64))"
  by (induction n arbitrary: tr)
     (simp_all add: inportb_def PS2_STATUS_def replicate_append_same [symmetric])

text \<open>The first answer with bit 0 set among the next \<open>n\<close>.\<close>

fun input_ready_after :: "nat \<Rightarrow> hardware \<Rightarrow> trace \<Rightarrow> nat" where
  "input_ready_after 0 hw tr = 0"
| "input_ready_after (Suc n) hw tr =
     Suc (if bit (in_b hw tr 0x64) 0 then 0 else input_ready_after n hw (tr @ [InB 0x64]))"

lemma and_power_bit:
  "(ucast (b :: u8) :: i32) AND 1 = 0 \<longleftrightarrow> \<not> bit b 0" "(ucast b :: i32) AND 2 = 0 \<longleftrightarrow> \<not> bit b 1"
  "(ucast b :: i32) AND 4 = 0 \<longleftrightarrow> \<not> bit b 2" "(ucast b :: i32) AND 16 = 0 \<longleftrightarrow> \<not> bit b 4"
  "(ucast b :: i32) AND 32 = 0 \<longleftrightarrow> \<not> bit b 5" "(ucast b :: i32) AND 64 = 0 \<longleftrightarrow> \<not> bit b 6"
  "(ucast b :: i32) AND 128 = 0 \<longleftrightarrow> \<not> bit b 7"
proof -
  let ?w = "ucast b :: i32"
  show "?w AND 1 = 0 \<longleftrightarrow> \<not> bit b 0" "?w AND 2 = 0 \<longleftrightarrow> \<not> bit b 1" "?w AND 4 = 0 \<longleftrightarrow> \<not> bit b 2"
    "?w AND 16 = 0 \<longleftrightarrow> \<not> bit b 4" "?w AND 32 = 0 \<longleftrightarrow> \<not> bit b 5" "?w AND 64 = 0 \<longleftrightarrow> \<not> bit b 6"
    "?w AND 128 = 0 \<longleftrightarrow> \<not> bit b 7"
    using and_exp_eq_0_iff_not_bit [of ?w 0] and_exp_eq_0_iff_not_bit [of ?w 1]
      and_exp_eq_0_iff_not_bit [of ?w 2] and_exp_eq_0_iff_not_bit [of ?w 4]
      and_exp_eq_0_iff_not_bit [of ?w 5] and_exp_eq_0_iff_not_bit [of ?w 6]
      and_exp_eq_0_iff_not_bit [of ?w 7]
    by (simp_all add: bit_ucast_iff del: and_exp_eq_0_iff_not_bit)
qed

lemma wait_input_loop_reads:
  "run_state (wait_input_loop n hw) tr = ((), tr @ replicate (input_ready_after n hw tr) (InB 0x64))"
  by (induction n arbitrary: tr)
     (simp_all add: inportb_def PS2_STATUS_def and_power_bit)

lemma input_ready_after_le: "input_ready_after n hw tr \<le> n"
  by (induction n arbitrary: tr) auto

section \<open>The movement of a packet\<close>

text \<open>The cursor: coordinates and buttons; the movement along an axis is nine bits, signed.\<close>

type_synonym cursor = "(int \<times> int) \<times> bool \<times> bool \<times> bool"

definition cursor_of :: "mouse \<Rightarrow> cursor" where
  "cursor_of ms = (let s = mstate ms in
     ((sint (X s), sint (Y s)), ButtonLeft s \<noteq> 0, ButtonMiddle s \<noteq> 0, ButtonRight s \<noteq> 0))"

definition delta :: "bool \<Rightarrow> bool \<Rightarrow> u8 \<Rightarrow> int" where
  "delta negative overflow p =
     (if negative then uint p - 256 - (if overflow then 255 else 0)
      else uint p + (if overflow then 255 else 0))"

definition within :: "u64 \<Rightarrow> int \<Rightarrow> int" where
  "within bound c = max 0 (min (uint bound - 1) c)"

definition apply_packet :: "u64 \<Rightarrow> u64 \<Rightarrow> u8 \<times> u8 \<times> u8 \<Rightarrow> cursor \<Rightarrow> cursor" where
  "apply_packet width height = (\<lambda>(b0, b1, b2) ((x, y), _).
     ((within width (x + delta (bit b0 4) (bit b0 6) b1),
       within height (y - delta (bit b0 5) (bit b0 7) b2)),
      bit b0 0, bit b0 2, bit b0 1))"

definition on_screen :: "u64 \<Rightarrow> u64 \<Rightarrow> mouse \<Rightarrow> bool" where
  "on_screen width height ms \<longleftrightarrow>
     sint (X (mstate ms)) \<in> {0 ..< uint width} \<and> sint (Y (mstate ms)) \<in> {0 ..< uint height}"

definition screen_ok :: "u64 \<Rightarrow> bool" where
  "screen_ok n \<longleftrightarrow> 0 < n \<and> n \<le> 0x40000000"

lemma sint_clamp:
  assumes "screen_ok n"
  shows "sint (clamp c n) = within n (sint c)"
proof -
  have n: "0 < uint n" "uint n \<le> 1073741824"
    using assms by (simp_all add: screen_ok_def word_less_def word_le_def)
  have b: "uint (n - 1) = uint n - 1"
  proof -
    have "1 \<le> n" using n by (simp add: word_le_def)
    then show ?thesis unfolding uint_minus_simple_alt by simp
  qed
  have u: "sint (ucast (n - 1) :: i32) = uint n - 1"
  proof -
    have "unat (n - 1) < 2147483648" using n b by (simp add: unat_eq_nat_uint)
    then have "sint (ucast (n - 1) :: i32) = int (unat (n - 1))"
      unfolding ucast_eq_of_nat by (rule sint_of_nat32)
    then show ?thesis using b by simp
  qed
  have cmp: "sext d > n - 1 \<longleftrightarrow> sint d > uint n - 1" if "0 \<le> sint d" for d
  proof -
    have "sint d = int (unat d)" by (rule sint_nonneg [OF that])
    moreover have "sint d < 2147483648" using sint_less [of d] by simp
    then have "unat d < 2147483648" using sint_nonneg [OF that] by linarith
    then have "unat (sext d) = unat d"
      using sext_of_nat [of "unat d"] unat_of_nat64 [of "unat d"] by (simp only: of_nat_unat_id)
    ultimately have "uint (sext d) = sint d" by (simp only: uint_nat)
    then show ?thesis by (simp add: word_less_def b)
  qed
  show ?thesis
    using cmp [of c] cmp [of 0] u n by (auto simp: clamp_def Let_def within_def)
qed

lemma within_range: "screen_ok n \<Longrightarrow> within n c \<in> {0 ..< uint n}"
  by (auto simp: within_def screen_ok_def word_less_def)

text \<open>A word of integer arithmetic that stays in the range of \<open>int\<close>.\<close>

lemma sint_eqI: "w = of_int k \<Longrightarrow> -2147483648 \<le> k \<Longrightarrow> k < 2147483648 \<Longrightarrow> sint (w :: i32) = k"
  by (simp add: sint_of_int32)

lemma uint_byte_less: "uint (p :: u8) < 256"
  using uint_bounded [of p] by simp

text \<open>The two halves of the movement, on coordinates on the screen.\<close>

lemma sint_move_x:
  fixes b0 p :: u8
  assumes "sint (X (mstate ms)) \<in> {0 ..< 0x40000000}" and "Packet0 ms = ucast b0" and "Packet1 ms = ucast p"
  shows "sint (X (mstate (move_x ms))) = sint (X (mstate ms)) + delta (bit b0 4) (bit b0 6) p"
proof -
  obtain q where q: "uint p = q" "0 \<le> q" "q < 256" using uint_byte_less [of p] uint_ge_0 [of p] by blast
  have c: "(ucast p :: i32) = of_int q" by (simp flip: q(1))
  show ?thesis
    by (rule sint_eqI; use assms q(2,3) in \<open>auto simp: q(1) c move_x_def Let_def mouse_defs and_power_bit delta_def\<close>)
qed

lemma sint_move_y:
  fixes b0 p :: u8
  assumes "sint (Y (mstate ms)) \<in> {0 ..< 0x40000000}" and "Packet0 ms = ucast b0" and "Packet2 ms = ucast p"
  shows "sint (Y (mstate (move_y ms))) = sint (Y (mstate ms)) - delta (bit b0 5) (bit b0 7) p"
proof -
  obtain q where q: "uint p = q" "0 \<le> q" "q < 256" using uint_byte_less [of p] uint_ge_0 [of p] by blast
  have c: "(ucast p :: i32) = of_int q" by (simp flip: q(1))
  show ?thesis
    by (rule sint_eqI; use assms q(2,3) in \<open>auto simp: q(1) c move_y_def Let_def mouse_defs and_power_bit delta_def\<close>)
qed

lemma move_frame:
  "Y (mstate (move_x ms)) = Y (mstate ms)" "Packet0 (move_x ms) = Packet0 ms"
  "Packet2 (move_x ms) = Packet2 ms" "X (mstate (move_y ms)) = X (mstate ms)"
  "Packet0 (move_y ms) = Packet0 ms" "Cycle (move_x ms) = Cycle ms" "Cycle (move_y ms) = Cycle ms"
  "skipPacket (move_x ms) = skipPacket ms" "skipPacket (move_y ms) = skipPacket ms"
  "PacketReady (move_x ms) = PacketReady ms" "PacketReady (move_y ms) = PacketReady ms"
  by (simp_all add: move_x_def move_y_def Let_def)

lemma HandlePacket_cursor:
  assumes "screen_ok w" and "screen_ok h" and "on_screen w h ms" and "PacketReady ms"
    and "Packet0 ms = ucast b0" and "Packet1 ms = ucast b1" and "Packet2 ms = ucast b2"
  shows "cursor_of (HandlePacket w h ms) = apply_packet w h (b0, b1, b2) (cursor_of ms)"
    and "on_screen w h (HandlePacket w h ms)"
proof -
  let ?m = "ms\<lparr>PacketReady := False\<rparr>"
  have r: "sint (X (mstate ?m)) \<in> {0 ..< 0x40000000}" "sint (Y (mstate (move_x ?m))) \<in> {0 ..< 0x40000000}"
    using assms(1-3) by (auto simp: on_screen_def screen_ok_def move_frame word_le_def)
  have x: "sint (X (mstate (move_y (move_x ?m)))) = sint (X (mstate ms)) + delta (bit b0 4) (bit b0 6) b1"
    using sint_move_x [OF r(1), of b0 b1] assms by (simp add: move_frame)
  have y: "sint (Y (mstate (move_y (move_x ?m)))) = sint (Y (mstate ms)) - delta (bit b0 5) (bit b0 7) b2"
    using sint_move_y [OF r(2), of b0 b2] assms by (simp add: move_frame)
  show "cursor_of (HandlePacket w h ms) = apply_packet w h (b0, b1, b2) (cursor_of ms)"
    using assms x y
    by (simp add: HandlePacket_def Let_def cursor_of_def apply_packet_def sint_clamp move_frame
        mouse_defs and_power_bit)
  show "on_screen w h (HandlePacket w h ms)"
    using assms(1,2,4) within_range
    by (simp add: HandlePacket_def Let_def on_screen_def sint_clamp move_frame)
qed

lemma HandlePacket_frame:
  "PacketReady (HandlePacket w h ms) = False" "Cycle (HandlePacket w h ms) = Cycle ms"
  "skipPacket (HandlePacket w h ms) = skipPacket ms"
  "\<not> PacketReady ms \<Longrightarrow> HandlePacket w h ms = ms"
  by (simp_all add: HandlePacket_def Let_def move_frame)

text \<open>A packet in the machine waits for the next byte.\<close>

lemma Handle_packet:
  assumes "\<not> skipPacket ms" and "Cycle ms = 0"
  shows "Handle w h c (Handle w h b (Handle w h a ms)) =
    (HandlePacket w h ms)\<lparr>Packet0 := ucast a, Packet1 := ucast b, Packet2 := ucast c,
       PacketReady := True, Cycle := 0\<rparr>"
  using assms by (simp add: Handle_def Let_def HandlePacket_frame)

definition packet_bytes :: "u8 \<times> u8 \<times> u8 \<Rightarrow> u8 list" where
  "packet_bytes = (\<lambda>(a, b, c). [a, b, c])"

definition feed :: "u64 \<Rightarrow> u64 \<Rightarrow> u8 list \<Rightarrow> mouse \<Rightarrow> mouse" where
  "feed w h bs ms = fold (Handle w h) bs ms"

lemma feed_packets:
  assumes "screen_ok w" and "screen_ok h"
  shows "\<not> skipPacket ms \<Longrightarrow> Cycle ms = 0 \<Longrightarrow> on_screen w h (HandlePacket w h ms) \<Longrightarrow>
    cursor_of (HandlePacket w h (feed w h (concat (map packet_bytes ps)) ms)) =
      fold (apply_packet w h) ps (cursor_of (HandlePacket w h ms)) \<and>
    on_screen w h (HandlePacket w h (feed w h (concat (map packet_bytes ps)) ms))"
proof (induction ps arbitrary: ms)
  case (Cons p ps)
  obtain a b c where p: "p = (a, b, c)" by (cases p)
  let ?n = "(HandlePacket w h ms)\<lparr>Packet0 := ucast a, Packet1 := ucast b, Packet2 := ucast c,
       PacketReady := True, Cycle := 0\<rparr>"
  have n: "on_screen w h ?n" "cursor_of ?n = cursor_of (HandlePacket w h ms)"
    using Cons.prems(3) by (simp_all add: on_screen_def cursor_of_def)
  have m: "cursor_of (HandlePacket w h ?n) = apply_packet w h p (cursor_of (HandlePacket w h ms))"
    "on_screen w h (HandlePacket w h ?n)"
    using HandlePacket_cursor [OF assms n(1), of a b c] n(2) by (simp_all add: p)
  have "feed w h (concat (map packet_bytes (p # ps))) ms = feed w h (concat (map packet_bytes ps)) ?n"
    using Handle_packet [OF Cons.prems(1,2)] by (simp add: feed_def p packet_bytes_def)
  then show ?case
    using Cons.IH [of ?n] Cons.prems(1) m by (simp add: HandlePacket_frame)
qed (simp add: feed_def)

section \<open>Properties\<close>

text \<open>
  The waits end whatever the controller answers.  \<open>Wait\<close> reads the status exactly 100000 times,
  since its condition never holds; \<open>WaitInput\<close> reads it until the first answer with bit 0 set, at
  most 100000 times.
\<close>

theorem waits_end:
  "run_state (Wait hw) tr = ((), tr @ replicate 100000 (InB 0x64)) \<and>
   run_state (WaitInput hw) tr = ((), tr @ replicate (input_ready_after 100000 hw tr) (InB 0x64)) \<and>
   input_ready_after 100000 hw tr \<le> 100000"
  unfolding Wait_def WaitInput_def wait_loop_reads wait_input_loop_reads
  using input_ready_after_le by simp

text \<open>
  C29: After the first interrupt, which is skipped, the driver turns the bytes of any sequence of
  packets into the movements they stand for, in order: the cursor is what the packets make of it,
  each coordinate kept on the screen and the buttons those of the last packet.  The last packet
  takes effect when \<open>HandlePacket\<close> next runs, with the interrupt that follows it.
\<close>

theorem mouse_follows_packets:
  assumes "screen_ok w" and "screen_ok h" and "on_screen w h ms"
    and "skipPacket ms" and "Cycle ms = 0" and "\<not> PacketReady ms"
    and "ms' = HandlePacket w h (feed w h (d # concat (map packet_bytes ps)) ms)"
  shows "cursor_of ms' = fold (apply_packet w h) ps (cursor_of ms) \<and> on_screen w h ms'"
proof -
  let ?n = "ms\<lparr>skipPacket := False\<rparr>"
  have "feed w h (d # concat (map packet_bytes ps)) ms = feed w h (concat (map packet_bytes ps)) ?n"
    using assms(4,6) by (simp add: feed_def Handle_def Let_def HandlePacket_frame)
  moreover have "HandlePacket w h ?n = ?n" using assms(6) by (simp add: HandlePacket_def)
  moreover have "on_screen w h ?n" "cursor_of ?n = cursor_of ms"
    using assms(3) by (simp_all add: on_screen_def cursor_of_def)
  ultimately show ?thesis
    using feed_packets [OF assms(1,2), of ?n ps] assms(5,7) by simp
qed

definition fresh_mouse :: mouse where
  "fresh_mouse = \<lparr>mstate = \<lparr>X = 0, Y = 0, ButtonLeft = 0, ButtonMiddle = 0, ButtonRight = 0\<rparr>,
     Cycle = 0, Packet0 = 0, Packet1 = 0, Packet2 = 0, PacketReady = False, skipPacket = True\<rparr>"

theorem mouse_follows_packets_witness:
  "cursor_of (HandlePacket 640 480 (feed 640 480 [0xFA, 0x09, 5, 0, 0x28, 3, 0xFF] fresh_mouse)) =
     ((8, 1), False, False, False)"
proof -
  have s: "screen_ok 640" "screen_ok 480" by (simp_all add: screen_ok_def)
  have "on_screen 640 480 fresh_mouse" "skipPacket fresh_mouse" "Cycle fresh_mouse = 0"
    "\<not> PacketReady fresh_mouse"
    by (simp_all add: on_screen_def fresh_mouse_def)
  from mouse_follows_packets [OF s this refl, of "0xFA" "[(0x09, 5, 0), (0x28, 3, 0xFF)]"]
  show ?thesis
    by (simp add: packet_bytes_def cursor_of_def fresh_mouse_def apply_packet_def within_def delta_def)
qed

end
