(* ===== verification/PciTranslate.thy ===== *)
theory PciTranslate
  imports NumString
begin

text \<open>
  The names of PCI devices, \<open>drivers/pci/pcitranslate.cpp\<close>.  A name is a literal or the digits
  that \<open>inttohstr\<close> leaves in its one static buffer: every pointer to digits points to that buffer.
\<close>

section \<open>Classes\<close>

definition PCITranslateClass :: "u8 \<Rightarrow> string" where
  "PCITranslateClass classid =
    (if classid = 0 then ''Unclassified''
     else if classid = 0x1 then ''Mass Storage Controller''
     else if classid = 0x2 then ''Network Controller''
     else if classid = 0x3 then ''Display Controller''
     else if classid = 0x4 then ''Multimedia Controller''
     else if classid = 0x5 then ''Memory Controller''
     else if classid = 0x6 then ''Bridge Device''
     else if classid = 0x7 then ''Simple Communication Controller''
     else if classid = 0x8 then ''Base System Peripheral''
     else if classid = 0x9 then ''Input Device Controller''
     else if classid = 0xA then ''Docking Station''
     else if classid = 0xB then ''Processor''
     else if classid = 0xC then ''Serial Bus Controller''
     else if classid = 0xD then ''Wireless Controller''
     else if classid = 0xE then ''Intelligent Controller''
     else if classid = 0xF then ''Satellite Communication Controller''
     else if classid = 0x10 then ''Encryption Controller''
     else if classid = 0x11 then ''Signal Processing Controller''
     else if classid = 0x12 then ''Processing Accelerator''
     else if classid = 0x13 then ''Non-Essential Instrumentation''
     else if classid = 0x40 then ''Co-Processor''
     else ''Unclassified'')"

definition sub_unclassified :: "u8 \<Rightarrow> string" where
  "sub_unclassified subclassid =
    (if subclassid = 0x01 then ''VGA-Compatible Device''
     else ''Non-VGA-Compatible'')"

definition sub_storage :: "u8 \<Rightarrow> string" where
  "sub_storage subclassid =
    (if subclassid = 0 then ''SCSI Bus Controller''
     else if subclassid = 0x1 then ''IDE Controller''
     else if subclassid = 0x2 then ''Floppy Disk Controller''
     else if subclassid = 0x3 then ''IPI Bus Controller''
     else if subclassid = 0x4 then ''RAID Controller''
     else if subclassid = 0x5 then ''ATA Controller''
     else if subclassid = 0x6 then ''Serial ATA''
     else if subclassid = 0x7 then ''Serial Attached SCSI''
     else if subclassid = 0x8 then ''Non-Volatile Memory Controller''
     else ''Other'')"

definition sub_network :: "u8 \<Rightarrow> string" where
  "sub_network subclassid =
    (if subclassid = 0 then ''Ethernet Controller''
     else if subclassid = 0x1 then ''Token Ring Controller''
     else if subclassid = 0x2 then ''FDDI Controller''
     else if subclassid = 0x3 then ''ATM Controller''
     else if subclassid = 0x4 then ''ISDN Controller''
     else if subclassid = 0x5 then ''WorldFip Controller''
     else if subclassid = 0x6 then ''PICMG 2.14 Multi Computing''
     else if subclassid = 0x7 then ''Infiniband Controller''
     else if subclassid = 0x8 then ''Fabric Controllerr''
     else ''Other'')"

definition sub_display :: "u8 \<Rightarrow> string" where
  "sub_display subclassid =
    (if subclassid = 0 then ''VGA Compatible Controller''
     else if subclassid = 0x1 then ''XGA Controller''
     else if subclassid = 0x2 then ''3D Controller (Not VGA-Compatible)''
     else ''Other'')"

definition sub_multimedia :: "u8 \<Rightarrow> string" where
  "sub_multimedia subclassid =
    (if subclassid = 0 then ''Multimedia Video Controller''
     else if subclassid = 0x1 then ''Multimedia Audio Controller''
     else if subclassid = 0x2 then ''Computer Telephony Device''
     else if subclassid = 0x3 then ''Audio Device''
     else ''Other'')"

definition sub_memory :: "u8 \<Rightarrow> string" where
  "sub_memory subclassid =
    (if subclassid = 0 then ''RAM Controller''
     else if subclassid = 0x1 then ''Flash Controller''
     else ''Other'')"

definition sub_bridge :: "u8 \<Rightarrow> string" where
  "sub_bridge subclassid =
    (if subclassid = 0 then ''Host Bridge''
     else if subclassid = 0x1 then ''ISA Bridge''
     else if subclassid = 0x2 then ''EISA Bridge''
     else if subclassid = 0x3 then ''MCA Bridge''
     else if subclassid = 0x4 then ''PCI-to-PCI Bridge''
     else if subclassid = 0x5 then ''PCMCIA Bridge''
     else if subclassid = 0x6 then ''NuBus Bridge''
     else if subclassid = 0x7 then ''CardBus Bridge''
     else if subclassid = 0x8 then ''RACEway Bridge''
     else if subclassid = 0x9 then ''PCI-to-PCI Bridge''
     else if subclassid = 0xA then ''InfiniBand-to-PCI Host Bridge''
     else ''Other'')"

definition sub_communication :: "u8 \<Rightarrow> string" where
  "sub_communication subclassid =
    (if subclassid = 0 then ''Serial Controller''
     else if subclassid = 0x1 then ''Parallel Controller''
     else if subclassid = 0x2 then ''Multiport Serial Controller''
     else if subclassid = 0x3 then ''Modem''
     else if subclassid = 0x4 then ''IEEE 488.1/2 (GPIB) Controller''
     else if subclassid = 0x5 then ''Smart Card''
     else ''Other'')"

definition sub_peripheral :: "u8 \<Rightarrow> string" where
  "sub_peripheral subclassid =
    (if subclassid = 0 then ''PIC''
     else if subclassid = 0x1 then ''DMA Controller''
     else if subclassid = 0x2 then ''Timer''
     else if subclassid = 0x3 then ''RTC Controller''
     else if subclassid = 0x4 then ''PCI Hot-Plug Controller''
     else if subclassid = 0x5 then ''SD Host controller''
     else if subclassid = 0x6 then ''IOMMU''
     else ''Other'')"

definition sub_input :: "u8 \<Rightarrow> string" where
  "sub_input subclassid =
    (if subclassid = 0 then ''Keyboard Controller''
     else if subclassid = 0x1 then ''Digitizer Pen''
     else if subclassid = 0x2 then ''Mouse Controller''
     else if subclassid = 0x3 then ''Scanner Controller''
     else if subclassid = 0x4 then ''Gameport Controller''
     else ''Other'')"

definition sub_docking :: "u8 \<Rightarrow> string" where
  "sub_docking subclassid =
    (if subclassid = 0 then ''Generic''
     else ''Other'')"

definition sub_processor :: "u8 \<Rightarrow> string" where
  "sub_processor subclassid =
    (if subclassid = 0 then ''386''
     else if subclassid = 0x1 then ''486''
     else if subclassid = 0x2 then ''Pentium''
     else if subclassid = 0x3 then ''Pentium Pro''
     else if subclassid = 0x10 then ''Alpha''
     else if subclassid = 0x20 then ''PowerPC''
     else if subclassid = 0x30 then ''MIPS''
     else if subclassid = 0x40 then ''Co-Processor''
     else ''Other'')"

definition sub_serial_bus :: "u8 \<Rightarrow> string" where
  "sub_serial_bus subclassid =
    (if subclassid = 0 then ''FireWire (IEEE 1394) Controller''
     else if subclassid = 0x1 then ''ACCESS Bus''
     else if subclassid = 0x2 then ''SSA''
     else if subclassid = 0x3 then ''USB Controller''
     else if subclassid = 0x4 then ''Fibre Channel''
     else if subclassid = 0x5 then ''SMBus''
     else if subclassid = 0x6 then ''InfiniBand''
     else if subclassid = 0x7 then ''IPMI Interface''
     else if subclassid = 0x8 then ''SERCOS Interface (IEC 61491)''
     else if subclassid = 0x9 then ''CANbus''
     else ''Other'')"

definition sub_wireless :: "u8 \<Rightarrow> string" where
  "sub_wireless subclassid =
    (if subclassid = 0 then ''iRDA Compatible Controller''
     else if subclassid = 0x1 then ''Consumer IR Controller''
     else if subclassid = 0x10 then ''RF Controller''
     else if subclassid = 0x11 then ''Bluetooth Controller''
     else if subclassid = 0x12 then ''Broadband Controller''
     else if subclassid = 0x20 then ''Ethernet Controller (802.1a)''
     else if subclassid = 0x21 then ''Ethernet Controller (802.1b)''
     else ''Other'')"

definition sub_intelligent :: "u8 \<Rightarrow> string" where
  "sub_intelligent subclassid = ''I20''"

definition sub_satellite :: "u8 \<Rightarrow> string" where
  "sub_satellite subclassid =
    (if subclassid = 0x1 then ''Satellite TV Controller''
     else if subclassid = 0x2 then ''Satellite Audio Controller''
     else if subclassid = 0x3 then ''Satellite Voice Controller''
     else if subclassid = 0x4 then ''Satellite Data Controller''
     else '''')"

definition sub_encryption :: "u8 \<Rightarrow> string" where
  "sub_encryption subclassid =
    (if subclassid = 0 then ''Network and Computing Encrpytion/Decryption''
     else if subclassid = 0x10 then ''Entertainment Encryption/Decryption''
     else ''Other'')"

definition sub_signal :: "u8 \<Rightarrow> string" where
  "sub_signal subclassid =
    (if subclassid = 0 then ''DPIO Modules''
     else if subclassid = 0x1 then ''Performance Counters''
     else if subclassid = 0x10 then ''Communication Synchronizer''
     else if subclassid = 0x20 then ''Signal Processing Management''
     else ''Other'')"

definition PCITranslateSubClass :: "u8 \<Rightarrow> u8 \<Rightarrow> string" where
  "PCITranslateSubClass classid subclassid =
    (if classid = 0 then sub_unclassified subclassid
     else if classid = 0x1 then sub_storage subclassid
     else if classid = 0x2 then sub_network subclassid
     else if classid = 0x3 then sub_display subclassid
     else if classid = 0x4 then sub_multimedia subclassid
     else if classid = 0x5 then sub_memory subclassid
     else if classid = 0x6 then sub_bridge subclassid
     else if classid = 0x7 then sub_communication subclassid
     else if classid = 0x8 then sub_peripheral subclassid
     else if classid = 0x9 then sub_input subclassid
     else if classid = 0xA then sub_docking subclassid
     else if classid = 0xB then sub_processor subclassid
     else if classid = 0xC then sub_serial_bus subclassid
     else if classid = 0xD then sub_wireless subclassid
     else if classid = 0xE then sub_intelligent subclassid
     else if classid = 0xF then sub_satellite subclassid
     else if classid = 0x10 then sub_encryption subclassid
     else if classid = 0x11 then sub_signal subclassid
     else '''')"

section \<open>Vendors and devices\<close>

datatype name = Literal string | HexDigits

definition vendor_name :: "u16 \<Rightarrow> name" where
  "vendor_name vendorid =
    (if vendorid = 0x8086 then Literal ''Intel Corp.''
     else if vendorid = 0x1234 then Literal ''Brain Actuated Technologies''
     else if vendorid = 0x10DE then Literal ''NVIDIA Corp.''
     else HexDigits)"

definition qemu_device :: "u16 \<Rightarrow> name" where
  "qemu_device deviceid =
    (if deviceid = 0x1111 then Literal ''QEMU Virtual Video Controller''
     else HexDigits)"

definition intel_device :: "u16 \<Rightarrow> name" where
  "intel_device deviceid =
    (if deviceid = 0x9b63 then Literal ''H410 Host Bridge''
     else if deviceid = 0xa3af then Literal ''H410 USB 3 Controller''
     else if deviceid = 0xa3b1 then Literal ''H410 Signal Processing Controller''
     else if deviceid = 0xa3ba then Literal ''H410 Communication Controller''
     else if deviceid = 0xa382 then Literal ''H410 SATA Controller''
     else if deviceid = 0xa3da then Literal ''H410 ISA Bridge''
     else if deviceid = 0xa3a1 then Literal ''H410 Memory Controller''
     else if deviceid = 0xa3f0 then Literal ''H410 Audio Device''
     else if deviceid = 0xa3a3 then Literal ''H410 System Management Bus''
     else if deviceid = 0x1911 then
       Literal ''Xeon E3-1200 v5/v6 / E3-1500 v5 / 6th/7th Gen Core Processor Gaussian Mixture Model''
     else if deviceid = 0x1901 then
       Literal ''Xeon E3-1200 v5/E3-1500 v5/6th Gen Core Processor PCIe Controller (x16)''
     else if deviceid = 0x0D55 then Literal ''Ethernet Connection (12) I219-V''
     else if deviceid = 0x29c0 then Literal ''82G33/G31/P35/P31 Express DRAM Controller''
     else if deviceid = 0x10d3 then Literal ''82574L Gigabit Network Connection''
     else if deviceid = 0x2934 then Literal ''82801I (ICH9 Family) USB UHCI Controller''
     else if deviceid = 0x2935 then Literal ''82801I (ICH9 Family) USB UHCI Controller''
     else if deviceid = 0x2936 then Literal ''82801I (ICH9 Family) USB UHCI Controller''
     else if deviceid = 0x293A then Literal ''82801I (ICH9 Family) USB2 EHCI Controller''
     else if deviceid = 0x2918 then Literal ''82801IB (ICH9) LPC Interface Controller''
     else if deviceid = 0x2922 then Literal ''82801IR/IO/IH (ICH9R/DO/DH) 6 port SATA Controller''
     else if deviceid = 0x2930 then Literal ''82801I (ICH9 Family) SMBus Controller''
     else HexDigits)"

definition nvidia_device :: "u16 \<Rightarrow> name" where
  "nvidia_device deviceid =
    (if deviceid = 0x1C82 then Literal ''GP107 [Geforce GTX 1050 Ti]''
     else if deviceid = 0x0FB9 then Literal ''GP107GL High Definition Audio Controller''
     else HexDigits)"

definition device_name :: "u16 \<Rightarrow> u16 \<Rightarrow> name" where
  "device_name vendorid deviceid =
    (if vendorid = 0x1234 then qemu_device deviceid
     else if vendorid = 0x8086 then intel_device deviceid
     else if vendorid = 0x10DE then nvidia_device deviceid
     else HexDigits)"

text \<open>\<open>out\<close> is the buffer, \<open>stack\<close> the bytes that \<open>inttohstr\<close> reads behind its argument.\<close>

definition name_of :: "u64 \<Rightarrow> (nat \<Rightarrow> u8) \<Rightarrow> name \<Rightarrow> u16 \<Rightarrow> mem \<Rightarrow> name \<times> mem" where
  "name_of out stack n v m = (n, if n = HexDigits then inttohstr16 out stack v m else m)"

definition PCITranslateVendor :: "u64 \<Rightarrow> (nat \<Rightarrow> u8) \<Rightarrow> u16 \<Rightarrow> mem \<Rightarrow> name \<times> mem" where
  "PCITranslateVendor out stack vendorid m = name_of out stack (vendor_name vendorid) vendorid m"

definition PCITranslateDeviceID :: "u64 \<Rightarrow> (nat \<Rightarrow> u8) \<Rightarrow> u16 \<Rightarrow> u16 \<Rightarrow> mem \<Rightarrow> name \<times> mem" where
  "PCITranslateDeviceID out stack vendorid deviceid m =
     name_of out stack (device_name vendorid deviceid) deviceid m"

record pci_device =
  VendorID :: u16
  DeviceID :: u16
  Command :: u16
  Status :: u16
  RevisionID :: u8
  ProgramInterface :: u8
  Subclass :: u8
  Class :: u8
  CacheLineSize :: u8
  LatencyTimer :: u8
  HeaderType :: u8
  BIST :: u8

record translated_pci_device =
  t_VendorID :: name
  t_DeviceID :: name
  t_Subclass :: string
  t_Class :: string
  t_Command :: u16
  t_Status :: u16
  t_RevisionID :: u8
  t_ProgramInterface :: u8
  t_CacheLineSize :: u8
  t_LatencyTimer :: u8
  t_HeaderType :: u8
  t_BIST :: u8

definition PCITranslateDevice ::
    "u64 \<Rightarrow> (nat \<Rightarrow> u8) \<Rightarrow> pci_device \<Rightarrow> mem \<Rightarrow> translated_pci_device \<times> mem" where
  "PCITranslateDevice out stack device m =
     (let cl = PCITranslateClass (Class device);
          (d, m) = PCITranslateDeviceID out stack (VendorID device) (DeviceID device) m;
          sub = PCITranslateSubClass (Class device) (Subclass device);
          (v, m) = PCITranslateVendor out stack (VendorID device) m
      in (\<lparr>t_VendorID = v, t_DeviceID = d, t_Subclass = sub, t_Class = cl,
           t_Command = Command device, t_Status = Status device, t_RevisionID = RevisionID device,
           t_ProgramInterface = ProgramInterface device, t_CacheLineSize = CacheLineSize device,
           t_LatencyTimer = LatencyTimer device, t_HeaderType = HeaderType device,
           t_BIST = BIST device\<rparr>, m))"

section \<open>What a name shows\<close>

text \<open>The characters behind a name, in a memory.\<close>

definition shows_text :: "u64 \<Rightarrow> mem \<Rightarrow> name \<Rightarrow> u8 list \<Rightarrow> bool" where
  "shows_text out m n s \<longleftrightarrow> (case n of Literal l \<Rightarrow> s = bytes_of l | HexDigits \<Rightarrow> cstr m out s)"

lemma inttohstr16_digits: "cstr (inttohstr16 out stack v m) out (hex_digits 4 v)"
  using hex_loop_digits [of 2 out v stack "memset out 0 128 m"] by (simp add: inttohstr16_def)

text \<open>
  What the names of a device show once it is translated.  A vendor in the table shows its
  name and a device in the table shows its own, unless no name is known for the vendor or the
  device: then digits are shown, four of them, and a device of an unknown vendor shows the digits
  of the vendor in place of its own, because both are in the same buffer.
\<close>

theorem PCITranslateDevice_names:
  assumes "PCITranslateDevice out stack dev m = (t, m')"
  shows "shows_text out m' (t_VendorID t)
      (case vendor_name (VendorID dev) of Literal l \<Rightarrow> bytes_of l | HexDigits \<Rightarrow> hex_digits 4 (VendorID dev)) \<and>
    shows_text out m' (t_DeviceID t)
      (case device_name (VendorID dev) (DeviceID dev) of Literal l \<Rightarrow> bytes_of l
       | HexDigits \<Rightarrow> if vendor_name (VendorID dev) = HexDigits then hex_digits 4 (VendorID dev)
                      else hex_digits 4 (DeviceID dev)) \<and>
    t_Class t = PCITranslateClass (Class dev) \<and>
    t_Subclass t = PCITranslateSubClass (Class dev) (Subclass dev)"
  using assms inttohstr16_digits
  by (auto simp: PCITranslateDevice_def PCITranslateDeviceID_def PCITranslateVendor_def name_of_def
      shows_text_def split: name.splits)

definition unknown_device :: pci_device where
  "unknown_device = \<lparr>VendorID = 0x1AF4, DeviceID = 0x1000, Command = 0, Status = 0, RevisionID = 0,
     ProgramInterface = 0, Subclass = 0, Class = 2, CacheLineSize = 0, LatencyTimer = 0,
     HeaderType = 0, BIST = 0\<rparr>"

theorem PCITranslateDevice_names_witness:
  "cstr (snd (PCITranslateDevice 0x100 (\<lambda>_. 0) unknown_device (\<lambda>_. 0))) 0x100 (hex_digits 4 (0x1AF4 :: u16)) \<and>
   t_DeviceID (fst (PCITranslateDevice 0x100 (\<lambda>_. 0) unknown_device (\<lambda>_. 0))) = HexDigits"
proof -
  obtain t m' where r: "PCITranslateDevice 0x100 (\<lambda>_. 0) unknown_device (\<lambda>_. 0) = (t, m')" by (metis prod.collapse)
  have v: "vendor_name 0x1AF4 = HexDigits" "device_name 0x1AF4 0x1000 = HexDigits"
    by (simp_all add: vendor_name_def device_name_def)
  have d: "t_DeviceID t = HexDigits"
    using r v by (auto simp: PCITranslateDevice_def PCITranslateDeviceID_def PCITranslateVendor_def
        name_of_def unknown_device_def)
  with PCITranslateDevice_names [OF r] v r show ?thesis
    by (simp add: unknown_device_def shows_text_def)
qed

end
