(* ===== verification/Pci.thy ===== *)
theory Pci
  imports PciTranslate Heap
begin

unbundle bit_operations_syntax

text \<open>
  The tables of the firmware (\<open>misc/power/acpi.cpp\<close>) and the enumeration of the PCI devices they
  lead to (\<open>drivers/pci/pci.cpp\<close>).  The configuration space is memory of the devices: what it
  shows at an address is an argument of the model, and reading it needs the page mapped.
\<close>

section \<open>Finding a table\<close>

text \<open>\<open>SDT\<close> is 36 bytes, packed, with \<open>Lenght\<close> at offset 4; a list of 64-bit pointers follows it.\<close>

definition SDT_SIZE :: u64 where "SDT_SIZE = 36"

text \<open>\<open>Signature\<close> is unsigned, the characters of \<open>sign\<close> are signed.\<close>

fun same_signature :: "mem \<Rightarrow> u64 \<Rightarrow> u64 \<Rightarrow> nat \<Rightarrow> nat \<Rightarrow> bool" where
  "same_signature m h sign i 0 = False"
| "same_signature m h sign i (Suc n) =
     (if uint (m (h + of_nat i)) \<noteq> sint (m (sign + of_nat i)) then False
      else if i = 3 then True
      else same_signature m h sign (i + 1) n)"

fun find_table :: "mem \<Rightarrow> u64 \<Rightarrow> u64 \<Rightarrow> nat list \<Rightarrow> u64" where
  "find_table m sdt sign [] = 0"
| "find_table m sdt sign (t # ts) =
     (let h = load64 m (sdt + SDT_SIZE + sext (of_nat t * 8))
      in if same_signature m h sign 0 4 then h else find_table m sdt sign ts)"

definition ACPIFindTable :: "mem \<Rightarrow> u64 \<Rightarrow> u64 \<Rightarrow> u64" where
  "ACPIFindTable m sdt sign =
     (let entries = ucast ((ucast (load32 m (sdt + 4)) - SDT_SIZE) div 8) :: i32
      in find_table m sdt sign [0..<nat (sint entries)])"

section \<open>Enumeration\<close>

text \<open>The object: the array up to \<open>DevicesIndex\<close>, and the state of the memory it works on.\<close>

record pci_state =
  Devices :: "translated_pci_device list"
  pci_vm :: vm

definition DevicesIndex :: "pci_state \<Rightarrow> nat" where
  "DevicesIndex s = length (Devices s)"

definition map_identity :: "u64 \<Rightarrow> vm \<Rightarrow> vm result" where
  "map_identity a s =
     rbind (MapMemory (vm_root s) a a (vm_mem s) (vm_pfa s))
       (\<lambda>(m, p). Inr (s\<lparr>vm_mem := m, vm_pfa := p\<rparr>))"

text \<open>A loop whose body can stop the kernel.\<close>

fun for_each :: "'a list \<Rightarrow> ('a \<Rightarrow> 's \<Rightarrow> 's result) \<Rightarrow> 's \<Rightarrow> 's result" where
  "for_each [] body s = Inr s"
| "for_each (x # xs) body s = rbind (body x s) (for_each xs body)"

definition absent :: "pci_device \<Rightarrow> bool" where
  "absent d \<longleftrightarrow> DeviceID d = 0 \<or> DeviceID d = 0xFFFF"

text \<open>\<open>out\<close> and \<open>stack\<close> are those of the translation.\<close>

definition EnumFunc ::
    "u64 \<Rightarrow> (nat \<Rightarrow> u8) \<Rightarrow> (u64 \<Rightarrow> pci_device) \<Rightarrow> u64 \<Rightarrow> u64 \<Rightarrow> pci_state \<Rightarrow> pci_state result" where
  "EnumFunc out stack cfg addr function s =
     (let offset = push_bit 12 function; busAddress = addr + offset
      in rbind (map_identity busAddress (pci_vm s)) (\<lambda>v.
           let originalDevice = cfg busAddress
           in if DeviceID originalDevice = 0 then Inr (s\<lparr>pci_vm := v\<rparr>)
              else if DeviceID originalDevice = 0xFFFF then Inr (s\<lparr>pci_vm := v\<rparr>)
              else let (t, m) = PCITranslateDevice out stack originalDevice (vm_mem v)
                   in Inr (s\<lparr>Devices := Devices s @ [t], pci_vm := v\<lparr>vm_mem := m\<rparr>\<rparr>)))"

definition EnumDevice ::
    "u64 \<Rightarrow> (nat \<Rightarrow> u8) \<Rightarrow> (u64 \<Rightarrow> pci_device) \<Rightarrow> u64 \<Rightarrow> u64 \<Rightarrow> pci_state \<Rightarrow> pci_state result" where
  "EnumDevice out stack cfg addr device s =
     (let offset = push_bit 15 device; busAddress = addr + offset
      in rbind (map_identity busAddress (pci_vm s)) (\<lambda>v.
           let originalDevice = cfg busAddress
           in if DeviceID originalDevice = 0 then Inr (s\<lparr>pci_vm := v\<rparr>)
              else if DeviceID originalDevice = 0xFFFF then Inr (s\<lparr>pci_vm := v\<rparr>)
              else for_each [0..<8] (\<lambda>device. EnumFunc out stack cfg busAddress (of_nat device))
                     (s\<lparr>pci_vm := v\<rparr>)))"

definition EnumBus ::
    "u64 \<Rightarrow> (nat \<Rightarrow> u8) \<Rightarrow> (u64 \<Rightarrow> pci_device) \<Rightarrow> u64 \<Rightarrow> u64 \<Rightarrow> pci_state \<Rightarrow> pci_state result" where
  "EnumBus out stack cfg addr bus s =
     (let offset = push_bit 20 bus; busAddress = addr + offset
      in rbind (map_identity busAddress (pci_vm s)) (\<lambda>v.
           let device = cfg busAddress
           in if DeviceID device = 0 then Inr (s\<lparr>pci_vm := v\<rparr>)
              else if DeviceID device = 0xFFFF then Inr (s\<lparr>pci_vm := v\<rparr>)
              else for_each [0..<32] (\<lambda>device. EnumDevice out stack cfg busAddress (of_nat device))
                     (s\<lparr>pci_vm := v\<rparr>)))"

text \<open>
  \<open>MCFG\<close> is 44 bytes, a \<open>DeviceConfig\<close> 16: \<open>BaseAddress\<close> at 0, \<open>StartBus\<close> at 10, \<open>EndBus\<close> at 11.
  The entry is read again before every bus.
\<close>

record device_config =
  BaseAddress :: u64
  StartBus :: u8
  EndBus :: u8

definition read_config :: "mem \<Rightarrow> u64 \<Rightarrow> device_config" where
  "read_config m a = \<lparr>BaseAddress = load64 m a, StartBus = m (a + 10), EndBus = m (a + 11)\<rparr>"

lemma unat_ucast_byte: "unat (ucast (e :: u8) :: u64) = unat e"
  unfolding ucast_eq_of_nat using unat_less_256 [of e] by (intro unat_of_nat64) simp

function enum_buses ::
    "u64 \<Rightarrow> (nat \<Rightarrow> u8) \<Rightarrow> (u64 \<Rightarrow> pci_device) \<Rightarrow> u64 \<Rightarrow> u64 \<Rightarrow> pci_state \<Rightarrow> pci_state result" where
  "enum_buses out stack cfg conf bus s =
     (let c = read_config (vm_mem (pci_vm s)) conf
      in if bus < ucast (EndBus c)
         then (case EnumBus out stack cfg (BaseAddress c) bus s of
                 Inl e \<Rightarrow> Inl e
               | Inr s \<Rightarrow> enum_buses out stack cfg conf (bus + 1) s)
         else Inr s)"
  by pat_completeness auto
termination
proof (relation "measure (\<lambda>(out, stack, cfg, conf, bus, s). 256 - unat bus)", goal_cases)
  case (2 out stack cfg conf bus s c s')
  then have b: "unat bus < unat (EndBus c)" by (simp only: word_less_nat_alt unat_ucast_byte)
  then have "unat bus < 255" using unat_less_256 [of "EndBus c"] by simp
  moreover have "unat (bus + 1) = Suc (unat bus)"
    using \<open>unat bus < 255\<close>
    by (cases "bus = - 1") (simp_all add: unsigned_minus_1_eq_mask mask_eq_exp_minus_1 unat_Suc_not_max)
  ultimately show ?case by simp
qed simp

declare enum_buses.simps [simp del]

definition EnumeratePCI ::
    "u64 \<Rightarrow> (nat \<Rightarrow> u8) \<Rightarrow> (u64 \<Rightarrow> pci_device) \<Rightarrow> u64 \<Rightarrow> pci_state \<Rightarrow> pci_state result" where
  "EnumeratePCI out stack cfg mcfg s =
     (let entries = ucast ((ucast (load32 (vm_mem (pci_vm s)) (mcfg + 4)) - 44 :: u64) div 16) :: i32
      in for_each [0..<nat (sint entries)]
           (\<lambda>t s. let conf = mcfg + 44 + 16 * sext (of_nat t);
                      first = StartBus (read_config (vm_mem (pci_vm s)) conf)
                  in enum_buses out stack cfg conf (ucast first) s) s)"

section \<open>What is on a bus\<close>

text \<open>The addresses of the functions that answer, behind devices and a bus that answer.\<close>

definition functions_at :: "(u64 \<Rightarrow> pci_device) \<Rightarrow> u64 \<Rightarrow> u64 list" where
  "functions_at cfg a =
     filter (\<lambda>b. \<not> absent (cfg b)) (map (\<lambda>f. a + push_bit 12 (of_nat f)) [0..<8])"

definition devices_at :: "(u64 \<Rightarrow> pci_device) \<Rightarrow> u64 \<Rightarrow> u64 list" where
  "devices_at cfg a =
     concat (map (functions_at cfg) (filter (\<lambda>b. \<not> absent (cfg b)) (map (\<lambda>d. a + push_bit 15 (of_nat d)) [0..<32])))"

definition bus_at :: "(u64 \<Rightarrow> pci_device) \<Rightarrow> u64 \<Rightarrow> u64 \<Rightarrow> u64 list" where
  "bus_at cfg base bus =
     (let a = base + push_bit 20 bus in if absent (cfg a) then [] else devices_at cfg a)"

text \<open>The entry of a device does not depend on the memory it is translated in.\<close>

definition entry_of :: "pci_device \<Rightarrow> translated_pci_device" where
  "entry_of d = fst (PCITranslateDevice 0 (\<lambda>_. 0) d (\<lambda>_. 0))"

lemma entry_of: "fst (PCITranslateDevice out stack d m) = entry_of d"
  by (simp add: entry_of_def PCITranslateDevice_def PCITranslateDeviceID_def PCITranslateVendor_def
      name_of_def case_prod_unfold Let_def)

text \<open>
  A run that appended the entries of the functions at the addresses \<open>as\<close>, or that was stopped by
  a page that could not be mapped.
\<close>

definition appends :: "(u64 \<Rightarrow> pci_device) \<Rightarrow> u64 list \<Rightarrow> pci_state \<Rightarrow> pci_state result \<Rightarrow> bool" where
  "appends cfg as s r \<longleftrightarrow> (case r of
      Inl e \<Rightarrow> \<exists>a v. map_identity a v = Inl e
    | Inr s' \<Rightarrow> Devices s' = Devices s @ map (entry_of \<circ> cfg) as)"

lemma appends_for_each:
  "(\<And>x s. x \<in> set xs \<Longrightarrow> appends cfg (f x) s (body x s)) \<Longrightarrow>
     appends cfg (concat (map f xs)) s (for_each xs body s)"
proof (induction xs arbitrary: s)
  case (Cons x xs)
  have b: "appends cfg (f x) s (body x s)" using Cons.prems by simp
  show ?case
  proof (cases "body x s")
    case (Inr s')
    have "appends cfg (concat (map f xs)) s' (for_each xs body s')" using Cons by simp
    then show ?thesis using b Inr by (simp add: appends_def split: sum.splits)
  qed (use b in \<open>simp add: appends_def\<close>)
qed (simp add: appends_def)

lemma appends_guard:
  assumes "\<And>v. \<not> absent (cfg a) \<Longrightarrow> appends cfg as s (body v)"
  shows "appends cfg (if absent (cfg a) then [] else as) s
     (rbind (map_identity a (pci_vm s)) (\<lambda>v.
        if DeviceID (cfg a) = 0 then Inr (s\<lparr>pci_vm := v\<rparr>)
        else if DeviceID (cfg a) = 0xFFFF then Inr (s\<lparr>pci_vm := v\<rparr>) else body v))"
proof (cases "map_identity a (pci_vm s)")
  case (Inr v)
  then show ?thesis using assms [of v] by (auto simp: appends_def absent_def)
qed (auto simp: appends_def)

lemma appends_vm: "appends cfg as (s\<lparr>pci_vm := v\<rparr>) r \<Longrightarrow> appends cfg as s r"
  by (simp add: appends_def split: sum.splits)

lemma filter_as_concat:
  "filter P (map g xs) = concat (map (\<lambda>x. if \<not> P (g x) then [] else [g x]) xs)"
  "concat (map h (filter P (map g xs))) = concat (map (\<lambda>x. if \<not> P (g x) then [] else h (g x)) xs)"
  by (induction xs) simp_all

lemma EnumFunc_appends:
  "appends cfg (if absent (cfg (a + push_bit 12 f)) then [] else [a + push_bit 12 f]) s
     (EnumFunc out stack cfg a f s)"
  unfolding EnumFunc_def Let_def
  by (rule appends_guard) (use entry_of in \<open>simp add: appends_def case_prod_unfold\<close>)

lemma EnumDevice_appends:
  "appends cfg (if absent (cfg (a + push_bit 15 d)) then [] else functions_at cfg (a + push_bit 15 d)) s
     (EnumDevice out stack cfg a d s)"
  unfolding EnumDevice_def Let_def functions_at_def filter_as_concat not_not
  by (rule appends_guard) (intro appends_vm [OF appends_for_each] EnumFunc_appends)

lemma EnumBus_appends: "appends cfg (bus_at cfg a b) s (EnumBus out stack cfg a b s)"
  unfolding EnumBus_def Let_def bus_at_def devices_at_def filter_as_concat(2) not_not
  by (rule appends_guard) (intro appends_vm [OF appends_for_each] EnumDevice_appends)

lemma length_concat_le: "(\<And>x. x \<in> set xs \<Longrightarrow> length (f x) \<le> k) \<Longrightarrow> length (concat (map f xs)) \<le> k * length xs"
  by (induction xs) (force simp: add_mono)+

lemma length_bus_at: "length (bus_at cfg a b) \<le> 256"
proof -
  have f: "length (functions_at cfg x) \<le> 8" for x
    unfolding functions_at_def using length_filter_le [of _ "map (\<lambda>f. x + push_bit 12 (of_nat f)) [0..<8]"]
    by (simp add: le_trans)
  have "length (devices_at cfg x) \<le> 8 * 32" for x
    unfolding devices_at_def filter_as_concat(2)
    using length_concat_le [of "[0..<32]" "\<lambda>d. if \<not> \<not> absent (cfg (x + push_bit 15 (of_nat d))) then []
      else functions_at cfg (x + push_bit 15 (of_nat d))" 8] f by simp
  then show ?thesis by (simp add: bus_at_def Let_def)
qed

section \<open>Properties\<close>


end
