(* ===== verification/Kernel.thy ===== *)
theory Kernel
  imports Elf Terminal AnsiText TaskManager Keyboard Mouse Pci
begin

unbundle bit_operations_syntax

text \<open>
  The kernel while it runs: its state, composed of those of the components, the system calls
  (\<open>userspace/userspace.cpp\<close>), the interrupt handlers (\<open>cpu/intrerupts.cpp\<close>) and the panic
  (\<open>panic.cpp\<close>).  \<open>None\<close> is a call that does not return, \<open>Inl\<close> one that ends in a panic or a fault.
\<close>

section \<open>The state\<close>

record 'd kernel =
  k_mem :: mem
  k_trace :: trace
  k_pfa :: pfa
  k_root :: u64
  k_heap :: heap
  k_vts :: "u32 \<Rightarrow> vterminal"
  k_current :: u32
  k_tasks :: taskmgr
  k_display :: display
  k_keyboard :: keyboard
  k_mouse :: mouse
  k_pit :: "'d pit"
  k_ramfs :: u64
  k_files :: "u64 list"
  k_gdt :: gdt
  k_idt :: u64
  k_pci :: "translated_pci_device list"
  k_vfs_total :: u64
  k_underline :: bool
  k_times :: i32

text \<open>
  What the code is compiled and run with: the floating point unit, the devices, the addresses of
  the static buffers, of the literals and of the two arrays of \<open>ANSIPrint\<close>, what lies behind the
  arguments of a variadic call, what is read behind the arrays of terminals and of tasks, the
  symbols of the linker and of the assembly files, and the configuration space of the PCI devices.
\<close>

record 'd env =
  env_fp :: "'d double_ops"
  env_hw :: hardware
  env_buffers :: buffers
  env_lit :: "string \<Rightarrow> u64"
  env_param1 :: u64
  env_param2 :: u64
  env_fs :: "nat \<Rightarrow> 'd"
  env_rest :: "nat \<Rightarrow> u64"
  env_wild :: "u64 \<Rightarrow> u64"
  env_sym :: "string \<Rightarrow> u64"
  env_cfg :: "u64 \<Rightarrow> pci_device"

text \<open>The operations of the components on their parts of the state.\<close>

definition terms_of :: "'d kernel \<Rightarrow> terminals" where
  "terms_of k = \<lparr>VirtualTerminals = k_vts k, CurrentTerminal = k_current k, t_mem = k_mem k\<rparr>"

definition put_terms :: "terminals \<Rightarrow> 'd kernel \<Rightarrow> 'd kernel" where
  "put_terms t k = k\<lparr>k_vts := VirtualTerminals t, k_current := CurrentTerminal t, k_mem := t_mem t\<rparr>"

definition k_printf_to :: "'d env \<Rightarrow> u32 \<Rightarrow> string \<Rightarrow> u64 list \<Rightarrow> 'd kernel \<Rightarrow> 'd kernel option" where
  "k_printf_to E vt fmt args k = map_option (\<lambda>t. put_terms t k)
     (printf_to (env_fp E) (env_buffers E) vt (env_lit E fmt) (log_args (env_fs E) args (env_rest E)) (terms_of k))"

definition k_printf :: "'d env \<Rightarrow> string \<Rightarrow> u64 list \<Rightarrow> 'd kernel \<Rightarrow> 'd kernel option" where
  "k_printf E fmt args k = map_option (\<lambda>t. put_terms t k)
     (printf (env_fp E) (env_buffers E) (env_lit E fmt) (log_args (env_fs E) args (env_rest E)) (terms_of k))"

definition k_LogError :: "'d env \<Rightarrow> u64 \<Rightarrow> 'd kernel \<Rightarrow> 'd kernel option" where
  "k_LogError E str k = map_option (\<lambda>(t, tr). (put_terms t k)\<lparr>k_trace := tr\<rparr>)
     (LogError (env_fp E) (env_buffers E) (env_hw E) (env_fs E) (env_rest E)
       (env_lit E ''[%co%d:%d:%d/ERROR%co] %s\<newline>'') str (terms_of k, k_trace k))"

definition k_LogWarn :: "'d env \<Rightarrow> u64 \<Rightarrow> 'd kernel \<Rightarrow> 'd kernel option" where
  "k_LogWarn E str k = map_option (\<lambda>(t, tr). (put_terms t k)\<lparr>k_trace := tr\<rparr>)
     (LogWarn (env_fp E) (env_buffers E) (env_hw E) (env_fs E) (env_rest E)
       (env_lit E ''[%co%d:%d:%d/WARN%co] %s\<newline>'') str (terms_of k, k_trace k))"

definition k_io :: "'a io \<Rightarrow> 'd kernel \<Rightarrow> 'a \<times> 'd kernel" where
  "k_io p k = (let (x, tr) = run_state p (k_trace k) in (x, k\<lparr>k_trace := tr\<rparr>))"

definition k_draw :: "(display \<times> mem \<Rightarrow> display \<times> mem) \<Rightarrow> 'd kernel \<Rightarrow> 'd kernel" where
  "k_draw f k = (let (d, m) = f (k_display k, k_mem k) in k\<lparr>k_display := d, k_mem := m\<rparr>)"

definition k_map_user :: "u64 \<Rightarrow> 'd kernel \<Rightarrow> 'd kernel" where
  "k_map_user a k = k\<lparr>k_mem := MapUserspaceMemory (k_root k) a (k_mem k)\<rparr>"

definition vm_of :: "'d kernel \<Rightarrow> vm" where
  "vm_of k = \<lparr>vm_mem = k_mem k, vm_pfa = k_pfa k, vm_root = k_root k\<rparr>"

definition put_vm :: "vm \<Rightarrow> 'd kernel \<Rightarrow> 'd kernel" where
  "put_vm s k = k\<lparr>k_mem := vm_mem s, k_pfa := vm_pfa s, k_root := vm_root s\<rparr>"

section \<open>System calls\<close>

definition SYSCALL_WRITE :: u64 where "SYSCALL_WRITE = 0x1"
definition SYSCALL_READ :: u64 where "SYSCALL_READ = 0x2"
definition SYSCALL_OPEN :: u64 where "SYSCALL_OPEN = 0x3"
definition SYSCALL_GETTERMINALOUTPUT :: u64 where "SYSCALL_GETTERMINALOUTPUT = 0x4"
definition SYSCALL_GETPROCESSTERMINAL :: u64 where "SYSCALL_GETPROCESSTERMINAL = 0x5"
definition SYSCALL_ALLOCATEMEMORY :: u64 where "SYSCALL_ALLOCATEMEMORY = 0x6"
definition SYSCALL_GETPIDBYNAME :: u64 where "SYSCALL_GETPIDBYNAME = 0x7"
definition SYSCALL_GETPID :: u64 where "SYSCALL_GETPID = 0x8"
definition SYSCALL_GETTERMINALBYPID :: u64 where "SYSCALL_GETTERMINALBYPID = 0x9"
definition SYSCALL_EXIT :: u64 where "SYSCALL_EXIT = 0xFF"
definition SOUT :: u64 where "SOUT = 2"
definition ERROR_UNKNOWN_SYSCALL :: u64 where "ERROR_UNKNOWN_SYSCALL = 2550"

lemmas syscall_defs = SYSCALL_WRITE_def SYSCALL_READ_def SYSCALL_OPEN_def SYSCALL_GETTERMINALOUTPUT_def
  SYSCALL_GETPROCESSTERMINAL_def SYSCALL_ALLOCATEMEMORY_def SYSCALL_GETPIDBYNAME_def SYSCALL_GETPID_def
  SYSCALL_GETTERMINALBYPID_def SYSCALL_EXIT_def SOUT_def ERROR_UNKNOWN_SYSCALL_def

definition CurrentTask :: "'d kernel \<Rightarrow> task" where
  "CurrentTask k = tasks (k_tasks k) (currentTask (k_tasks k))"

definition SysConsoleWrite :: "'d env \<Rightarrow> u8 \<Rightarrow> 'd kernel \<Rightarrow> 'd kernel option" where
  "SysConsoleWrite E str k = k_printf_to E (terminal (CurrentTask k)) ''%c'' [sext (scast str)] k"

definition SysSerialWrite :: "u8 \<Rightarrow> 'd kernel \<Rightarrow> 'd kernel" where
  "SysSerialWrite str k = snd (k_io (SerialWrite_char str) k)"

definition k_exit :: "'d env \<Rightarrow> u64 \<Rightarrow> 'd kernel \<Rightarrow> 'd kernel option" where
  "k_exit E code k = map_option (\<lambda>k. k\<lparr>k_tasks := ExitCurrentTask (k_tasks k)\<rparr>)
     (k_printf_to E (terminal (CurrentTask k)) ''\<newline>Program exit code: %co%u%co\<newline>'' [YELLOW, code, WHITE] k)"

definition sys_open :: "u64 \<Rightarrow> 'd kernel \<Rightarrow> (u64 \<times> 'd kernel) result option" where
  "sys_open arg1 k =
     (case RequestPage (k_pfa k) of
        Inl e \<Rightarrow> Some (Inl e)
      | Inr (desc, p) \<Rightarrow>
          (let k = k_map_user desc (k\<lparr>k_pfa := p, k_mem := memset desc 0 4096 (k_mem k)\<rparr>)
           in map_option (\<lambda>f. Inr (desc, k\<lparr>k_mem := memcpy desc f 369 (k_mem k)\<rparr>))
                (VFSOpenFile (k_files k) arg1 (k_mem k))))"

text \<open>The loop runs up to and including \<open>4096 * arg1\<close>; \<open>i\<close> is converted for the comparison.\<close>

definition sys_allocate :: "u64 \<Rightarrow> 'd kernel \<Rightarrow> (u64 \<times> 'd kernel) option" where
  "sys_allocate arg1 k =
     (if arg1 = 0 then Some (0, k)
      else
        let tm = k_tasks k; c = currentTask tm;
            k = k\<lparr>k_tasks := tm\<lparr>tasks := (tasks tm)(c := (tasks tm c)\<lparr>memoryUse := memoryUse (tasks tm c) + arg1 * 4096\<rparr>)\<rparr>\<rparr>
        in map_option (\<lambda>(mem, p).
             (mem, for_int (4096 * arg1 + 1) (\<lambda>i. k_map_user (mem + sext i)) (k\<lparr>k_pfa := p\<rparr>)))
             (RequestPages arg1 (k_pfa k)))"

definition sys_pid_by_name :: "u64 \<Rightarrow> 'd kernel \<Rightarrow> u64 option" where
  "sys_pid_by_name arg1 k =
     map_option (\<lambda>r. case r of Inl i \<Rightarrow> sext i | Inr _ \<Rightarrow> 0xFFFFFFFFFFFFFFFF)
       (loop_int 1024 (\<lambda>i _. map_option (\<lambda>n.
            if memcmp (k_mem k) arg1 (task_name (tasks (k_tasks k) i)) (sext n) = 0 then Inl i else Inr ())
          (strlen (k_mem k) (task_name (tasks (k_tasks k) i)))) ())"

definition SyscallHandler ::
    "'d env \<Rightarrow> u64 \<Rightarrow> u64 \<Rightarrow> u64 \<Rightarrow> u64 \<Rightarrow> u64 \<Rightarrow> u64 \<Rightarrow> 'd kernel \<Rightarrow> (u64 \<times> 'd kernel) result option" where
  "SyscallHandler E syscall arg1 arg2 doNotModify arg3 arg4 k =
     (if syscall = SYSCALL_WRITE then
        if arg2 = SOUT then Some (Inr (512, SysSerialWrite (ucast arg1) k))
        else map_option (\<lambda>k. Inr (512, k)) (SysConsoleWrite E (ucast arg1) k)
      else if syscall = SYSCALL_EXIT then map_option (\<lambda>k. Inr (512, k)) (k_exit E arg1 k)
      else if syscall = SYSCALL_OPEN then sys_open arg1 k
      else if syscall = SYSCALL_ALLOCATEMEMORY then map_option Inr (sys_allocate arg1 k)
      else if syscall = SYSCALL_READ then
        map_option (\<lambda>f. Inr (512, k\<lparr>k_mem := memcpy arg1 f arg3 (k_mem k)\<rparr>)) (VFSReadFile (k_mem k) (k_ramfs k) arg2)
      else if syscall = SYSCALL_GETTERMINALOUTPUT then
        Some (Inr (if arg1 < 0x800 then vt_buffer (k_vts k (ucast arg1)) else env_wild E arg1, k))
      else if syscall = SYSCALL_GETPROCESSTERMINAL then Some (Inr (sext (terminal (CurrentTask k)), k))
      else if syscall = SYSCALL_GETPIDBYNAME then map_option (\<lambda>r. Inr (r, k)) (sys_pid_by_name arg1 k)
      else if syscall = SYSCALL_GETPID then Some (Inr (sext (currentTask (k_tasks k)), k))
      else if syscall = SYSCALL_GETTERMINALBYPID then
        Some (Inr (if arg1 < 1024 then sext (terminal (tasks (k_tasks k) (ucast arg1)))
                   else env_wild E arg1, k))
      else
        let b = hexTo_StringOutput (env_buffers E);
            k = k\<lparr>k_mem := inttohstr64 b (stack (env_buffers E)) syscall (k_mem k)\<rparr>
        in do { k \<leftarrow> k_LogWarn E b k;
                k \<leftarrow> k_LogWarn E (env_lit E ''Unknown syscall!'') k;
                Some (Inr (ERROR_UNKNOWN_SYSCALL, k)) })"

section \<open>Panic and interrupts\<close>

text \<open>The state in which the processor halts for ever.\<close>

definition KernelPanic :: "'d env \<Rightarrow> u64 \<Rightarrow> 'd kernel \<Rightarrow> 'd kernel option" where
  "KernelPanic E Message k =
     do { tr \<leftarrow> SerialWrite2 (k_mem k) Message (env_lit E ''\<newline>'') (k_trace k @ [Cli]);
          k \<leftarrow> k_LogError E (env_lit E ''A kernel panic occured!'') (k\<lparr>k_trace := tr\<rparr>);
          k \<leftarrow> k_LogError E Message k;
          k \<leftarrow> k_LogError E (task_name (CurrentTask k)) k;
          (let k = k_draw (clearScreen 0) k
           in map_option (\<lambda>(d, m). k\<lparr>k_display := d, k_mem := update d m, k_trace := k_trace k @ [Hlt]\<rparr>)
                (puts (vt_buffer (k_vts k (k_current k))) (k_display k, k_mem k))) }"

definition GeneralProtectionFaultHandler where
  "GeneralProtectionFaultHandler E k = KernelPanic E (env_lit E ''General Protection Fault'') k"
definition PageFaultHandler where "PageFaultHandler E k = KernelPanic E (env_lit E ''Page Fault'') k"
definition DoubleFaultHandler where "DoubleFaultHandler E k = KernelPanic E (env_lit E ''Double Fault'') k"
definition InvalideOpcodeHandler where "InvalideOpcodeHandler E k = KernelPanic E (env_lit E ''Invalid Opcode'') k"

definition KBHandler :: "'d env \<Rightarrow> 'd kernel \<Rightarrow> 'd kernel" where
  "KBHandler E k =
     (let (keycode, k) = k_io (inportb (env_hw E) 0x60) k;
          k = k\<lparr>k_keyboard := Keyboard.Handle keycode (k_keyboard k)\<rparr>
      in snd (k_io PIC_EndMaster k))"

definition MSHandler :: "'d env \<Rightarrow> 'd kernel \<Rightarrow> 'd kernel" where
  "MSHandler E k =
     (let (data, k) = k_io (inportb (env_hw E) 0x60) k;
          k = k\<lparr>k_mouse := Mouse.Handle (getWidth (k_display k)) (getHeight (k_display k)) data (k_mouse k)\<rparr>
      in snd (k_io PIC_EndSlave k))"

definition Blink_Time :: i32 where "Blink_Time = 10"

definition HandleBlink :: "'d kernel \<Rightarrow> 'd kernel" where
  "HandleBlink k =
     (let k = (if k_underline k then k_draw (putc 95) k else k);
          k = (if k_times k = Blink_Time then k\<lparr>k_underline := \<not> k_underline k, k_times := 0\<rparr> else k)
      in k\<lparr>k_times := k_times k + 1\<rparr>)"

definition show_terminal :: "'d env \<Rightarrow> 'd kernel \<Rightarrow> 'd kernel option" where
  "show_terminal E k =
     (let k = k_draw (clearScreen (ucast BLACK)) k;
          k = k\<lparr>k_display := (k_display k)\<lparr>colour := WHITE\<rparr>\<rparr>
      in map_option (\<lambda>s. let k = HandleBlink (k\<lparr>k_display := fst s, k_mem := snd s\<rparr>)
                         in k\<lparr>k_mem := update (k_display k) (k_mem k)\<rparr>)
           (ANSIPrint (vt_buffer (k_vts k (k_current k))) (env_param1 E) (env_param2 E) (k_display k, k_mem k)))"

definition PITHandler ::
    "'d env \<Rightarrow> interrupt_stack \<Rightarrow> 'd kernel \<Rightarrow> (interrupt_stack \<times> 'd kernel) result option" where
  "PITHandler E istack k =
     (case PITTick (env_fp E) (k_pit k) of
        Inl e \<Rightarrow> Some (Inl e)
      | Inr pit \<Rightarrow>
          do { k \<leftarrow> (let k = k\<lparr>k_pit := pit\<rparr>
                     in if vterminal.initialized (k_vts k (k_current k)) then show_terminal E k else Some k);
               (f, tm) \<leftarrow> Schedule istack (k_tasks k);
               Some (Inr (f, snd (k_io PIC_EndMaster (k\<lparr>k_tasks := tm\<rparr>)))) })"

end
