(* ===== verification/Boot.thy ===== *)
theory Boot
  imports Kernel EfiMemoryMap
begin

unbundle bit_operations_syntax

text \<open>
  The start of the kernel, \<open>kernelInit.h\<close> and \<open>kernel.cpp\<close>: the order in which the components
  are set up, and how the first task is loaded and started.  The interrupts that may come in
  between once they are enabled are not part of these functions.
\<close>

section \<open>Steps that may stop the kernel\<close>

type_synonym 'd kstep = "'d kernel \<Rightarrow> 'd kernel result option"

fun steps :: "'d kstep list \<Rightarrow> 'd kstep" where
  "steps [] k = Some (Inr k)"
| "steps (f # fs) k =
     (case f k of
        None \<Rightarrow> None
      | Some (Inl e) \<Rightarrow> Some (Inl e)
      | Some (Inr k) \<Rightarrow> steps fs k)"

definition does :: "('d kernel \<Rightarrow> 'd kernel) \<Rightarrow> 'd kstep" where
  "does f k = Some (Inr (f k))"

definition may_hang :: "('d kernel \<Rightarrow> 'd kernel option) \<Rightarrow> 'd kstep" where
  "may_hang f k = map_option Inr (f k)"

definition may_stop :: "('d kernel \<Rightarrow> 'd kernel result) \<Rightarrow> 'd kstep" where
  "may_stop f k = Some (f k)"

text \<open>\<open>for (t = ..; t < stop; t += 4096)\<close>\<close>

partial_function (option) for_pages :: "(u64 \<Rightarrow> 'd kstep) \<Rightarrow> u64 \<Rightarrow> u64 \<Rightarrow> 'd kstep" where
  "for_pages body t stop k =
     (if t < stop
      then case body t k of
             None \<Rightarrow> None
           | Some (Inl e) \<Rightarrow> Some (Inl e)
           | Some (Inr k) \<Rightarrow> for_pages body (t + 4096) stop k
      else Some (Inr k))"

definition k_map :: "u64 \<Rightarrow> 'd kstep" where
  "k_map a = may_stop (\<lambda>k. rbind (map_identity a (vm_of k)) (\<lambda>s. Inr (put_vm s k)))"

definition k_serial :: "'d env \<Rightarrow> string \<Rightarrow> 'd kstep" where
  "k_serial E str = may_hang (\<lambda>k. map_option (\<lambda>tr. k\<lparr>k_trace := tr\<rparr>) (SerialWrite (k_mem k) (env_lit E str) (k_trace k)))"

definition k_LogInfo :: "'d env \<Rightarrow> string \<Rightarrow> 'd kstep" where
  "k_LogInfo E str = may_hang (\<lambda>k. map_option (\<lambda>(t, tr). (put_terms t k)\<lparr>k_trace := tr\<rparr>)
     (LogInfo (env_fp E) (env_buffers E) (env_hw E) (env_fs E) (env_rest E)
       (env_lit E ''[%co%d:%d:%d/INFO%co] %s\<newline>'') (env_lit E str) (terms_of k, k_trace k)))"

definition k_warn :: "'d env \<Rightarrow> string \<Rightarrow> 'd kstep" where
  "k_warn E str = may_hang (k_LogWarn E (env_lit E str))"

section \<open>What the boot loader hands over\<close>

record bootinfo =
  GOPFrameBuffer :: display_buffer
  Font :: psf_font
  mMap :: u64
  mMapSize :: u64
  mMapDescSize :: u64
  RSDP :: u64
  SMBIOS :: u64
  RamFS :: u64

section \<open>kernelInit.h\<close>

definition GenerateUserspaceStack :: "'d kernel \<Rightarrow> (u64 \<times> 'd kernel) result option" where
  "GenerateUserspaceStack k =
     Option.bind (RequestPages 8 (k_pfa k)) (\<lambda>(Stack, p).
       map_option (map_sum id (\<lambda>k. (Stack, k)))
         (for_pages (\<lambda>t. does (k_map_user t)) Stack (Stack + 0x1000 * 8) (k\<lparr>k_pfa := p\<rparr>)))"

text \<open>The bound of the first loop is asked for before every turn.\<close>

partial_function (option) map_all :: "bootinfo \<Rightarrow> u64 \<Rightarrow> u64 \<Rightarrow> 'd kstep" where
  "map_all bi mMapEntries page k =
     (let (sz, p) = GetMemorySize (k_mem k) (mMap bi) mMapEntries (mMapDescSize bi) (k_pfa k);
          k = k\<lparr>k_pfa := p\<rparr>
      in if page < sz
         then case k_map page k of
                None \<Rightarrow> None
              | Some (Inl e) \<Rightarrow> Some (Inl e)
              | Some (Inr k) \<Rightarrow> map_all bi mMapEntries (page + 0x1000) k
         else Some (Inr k))"

definition EnablePaging :: "bootinfo \<Rightarrow> 'd kstep" where
  "EnablePaging bi k =
     (if mMapDescSize bi = 0 then Some (Inl DivideError)
      else
        let mMapEntries = mMapSize bi div mMapDescSize bi;
            fbBase = BaseAddr (GOPFrameBuffer bi);
            fbSize = BufferSize (GOPFrameBuffer bi) + 0x1000
        in steps [
             may_stop (\<lambda>k. rbind (RequestPage (k_pfa k)) (\<lambda>(PML4, p).
               Inr (k\<lparr>k_pfa := p, k_mem := memset PML4 0 0x1000 (k_mem k), k_root := PML4\<rparr>))),
             map_all bi mMapEntries 0,
             does (\<lambda>k. k\<lparr>k_pfa := LockPages fbBase (fbSize div 0x1000 + 1) (k_pfa k)\<rparr>),
             for_pages k_map fbBase (fbBase + fbSize)] k)"

definition create_gates :: "'d env \<Rightarrow> u64 \<Rightarrow> mem \<Rightarrow> mem" where
  "create_gates E idt m =
     fold (\<lambda>(h, n). CreateIntrerupt idt (env_sym E h) n IDT_TA_InterruptGate 0x08)
       [(''PageFaultHandlerEntry'', 0xE), (''DoubleFaultHandlerEntry'', 0x8),
        (''GeneralProtectionFaultHandlerEntry'', 0xD), (''InvalideOpcodeHandlerEntry'', 0x6),
        (''KBHandlerEntry'', 0x21), (''MSHandlerEntry'', 0x2C), (''PITHandlerEntry'', 0x20)] m"

definition InitIntrerupts :: "'d env \<Rightarrow> 'd kstep" where
  "InitIntrerupts E = steps [
     does (\<lambda>k. k\<lparr>k_mem := store16 (k_idt k) 0x0FFF (k_mem k)\<rparr>),
     may_stop (\<lambda>k. rbind (RequestPage (k_pfa k)) (\<lambda>(a, p).
       Inr (k\<lparr>k_pfa := p, k_mem := store64 (k_idt k + 2) a (k_mem k)\<rparr>))),
     does (\<lambda>k. k\<lparr>k_mem := create_gates E (k_idt k) (k_mem k)\<rparr>),
     does (\<lambda>k. k\<lparr>k_trace := k_trace k @ [Lidt (load16 (k_mem k) (k_idt k)) (load64 (k_mem k) (k_idt k + 2))]\<rparr>),
     does (\<lambda>k. snd (k_io (RemapPIC (env_hw E)) k)),
     does (\<lambda>k. snd (k_io (outportb PIC1_DATA 0b11111000) k)),
     does (\<lambda>k. snd (k_io (outportb PIC2_DATA 0b11101111) k)),
     does (\<lambda>k. k\<lparr>k_trace := k_trace k @ [Cli]\<rparr>)]"

definition init_terminal :: "u32 \<Rightarrow> 'd kstep" where
  "init_terminal i = may_hang (\<lambda>k.
     map_option (\<lambda>(vt, p). k_map_user (vt_buffer vt) (k\<lparr>k_vts := (k_vts k)(i := vt), k_pfa := p\<rparr>))
       (vt_init 0x1000 (k_vts k i) (k_pfa k)))"

definition InitVTerminals :: "'d kstep" where
  "InitVTerminals k =
     Option.bind (RequestPages 64 (k_pfa k)) (\<lambda>(_, p).
       steps (map (\<lambda>i. init_terminal (of_nat i)) [0..<0x800]) (k\<lparr>k_pfa := p\<rparr>))"

text \<open>\<open>XSDTAddress\<close> is at offset 24 of the packed \<open>RSDP2\<close>.\<close>

definition enumerate :: "'d env \<Rightarrow> u64 \<Rightarrow> 'd kstep" where
  "enumerate E mcfg = may_stop (\<lambda>k. map_sum id (\<lambda>s. put_vm (pci_vm s) (k\<lparr>k_pci := Devices s\<rparr>))
     (EnumeratePCI (hexTo_StringOutput (env_buffers E)) (stack (env_buffers E)) (env_cfg E) mcfg
       \<lparr>Devices = k_pci k, pci_vm = vm_of k\<rparr>))"

definition InitACPI :: "'d env \<Rightarrow> bootinfo \<Rightarrow> 'd kstep" where
  "InitACPI E bi k =
     (let xsdt = load64 (k_mem k) (RSDP bi + 24)
      in if memcmp (k_mem k) xsdt (env_lit E ''XSDT'') 4 \<noteq> 0
         then k_warn E ''Wrong XSDT signature! ACPI is disabled.'' k
         else
           let mcfg = ACPIFindTable (k_mem k) xsdt (env_lit E ''MCFG'')
           in steps [
                k_LogInfo E ''Enumerating PCI'',
                (if mcfg \<noteq> 0
                 then steps [enumerate E mcfg,
                        (\<lambda>k. if k_pci k = [] then k_warn E ''No PCI devices!'' k else Some (Inr k))]
                 else k_warn E ''No MCFG found!'')] k)"

text \<open>The pointer \<open>doubleBuffer\<close> is the address \<open>db\<close>; nothing sets it before.\<close>

definition setup_double_buffer :: "u64 \<Rightarrow> 'd kstep" where
  "setup_double_buffer db k =
     (let g = globalFrameBuffer (k_display k)
      in Option.bind (RequestPages (BufferSize g div 4096 + 1) (k_pfa k)) (\<lambda>(base, p).
           let b = \<lparr>BaseAddr = base, BufferSize = BufferSize g, Width = Width g, Height = Height g,
                 PixelPerScanLine = PixelPerScanLine g\<rparr>;
               m = store64 (db + 32) (PixelPerScanLine b) (store64 (db + 24) (Height b)
                 (store64 (db + 16) (Width b) (store64 (db + 8) (BufferSize b) (store64 db base (k_mem k)))))
           in steps [
                for_pages k_map base (BufferSize b + base),
                does (\<lambda>k. k\<lparr>k_display := InitDoubleBuffer b (k_display k)\<rparr>)] (k\<lparr>k_pfa := p, k_mem := m\<rparr>)))"

text \<open>
  \<open>&_BssEnd - &_BssStart\<close> is a difference of pointers to 64-bit words: it counts words, and
  \<open>memset\<close> clears as many bytes.
\<close>

definition bss_count :: "'d env \<Rightarrow> u64" where
  "bss_count E = (env_sym E ''_BssEnd'' - env_sym E ''_BssStart'') div 8"

definition init_memory :: "'d env \<Rightarrow> bootinfo \<Rightarrow> 'd kstep" where
  "init_memory E bi = steps [
     does (\<lambda>k. k\<lparr>k_mem := memset (env_sym E ''_BssStart'') 0 (bss_count E) (k_mem k)\<rparr>),
     does (\<lambda>k. k\<lparr>k_pfa := (k_pfa k)\<lparr>PageBitmap := \<lparr>Size = 0, Buffer = (\<lambda>_. 0)\<rparr>, BitmapBuffer := 0\<rparr>\<rparr>),
     may_stop (\<lambda>k. rbind (ReadEFIMemoryMap (k_mem k) (mMap bi) (mMapSize bi) (mMapDescSize bi) (k_pfa k))
       (\<lambda>p. Inr (k\<lparr>k_pfa := p\<rparr>))),
     k_serial E ''Readed memory map!\<newline>'',
     does (\<lambda>k. let kernelSize = env_sym E ''_KernelEnd'' - env_sym E ''_KernelStart'';
                  kernelPages = kernelSize div 4096 + 1
              in k\<lparr>k_pfa := LockPages (env_sym E ''_KernelStart'') kernelPages (k_pfa k)\<rparr>),
     k_serial E ''Locked kernel pages\<newline>'']"

definition init_cpu :: "'d env \<Rightarrow> bootinfo \<Rightarrow> 'd kstep" where
  "init_cpu E bi = steps [
     does (\<lambda>k. let (g, m, tr) = gdtInit (k_gdt k, k_mem k) (k_trace k)
              in k\<lparr>k_gdt := g, k_mem := m, k_trace := tr\<rparr>),
     InitIntrerupts E,
     does (\<lambda>k. let (p, tr) = PITSetDivisor 0xFFFF (k_pit k) (k_trace k) in k\<lparr>k_pit := p, k_trace := tr @ [Sti]\<rparr>),
     k_serial E ''Loaded the GDT and intrerrupts!\<newline>'',
     EnablePaging bi,
     k_serial E ''Enabled Paging!\<newline>'']"

definition init_screen :: "'d env \<Rightarrow> bootinfo \<Rightarrow> u64 \<Rightarrow> 'd kstep" where
  "init_screen E bi db = steps [
     does (\<lambda>k. k\<lparr>k_display := InitDisplayDriver (GOPFrameBuffer bi) (Font bi) (k_display k)\<rparr>),
     may_stop (\<lambda>k. rbind (InitializeHeap 0x0000100000000000 0x10 (k_heap k) (vm_of k))
       (\<lambda>(H, s). Inr ((put_vm s k)\<lparr>k_heap := H\<rparr>))),
     setup_double_buffer db,
     does (\<lambda>k. k\<lparr>k_display := (k_display k)\<lparr>colour := WHITE\<rparr>\<rparr>),
     does (k_draw (clearScreen 0)),
     does (\<lambda>k. k\<lparr>k_mem := update (k_display k) (k_mem k)\<rparr>),
     k_serial E ''Kernel intialized the display!\<newline>'']"

text \<open>\<open>EnableSCE\<close> is in assembly: the registers it writes are an argument.\<close>

definition InitDrivers :: "'d env \<Rightarrow> (trace \<Rightarrow> trace) \<Rightarrow> u64 \<Rightarrow> bootinfo \<Rightarrow> 'd kstep" where
  "InitDrivers E EnableSCE db bi = steps [
     k_serial E (CHR 0x1B # ''[1;37m''),
     k_serial E ''Kernel pre-display phase has begun!\<newline>'',
     init_memory E bi,
     init_cpu E bi,
     does (\<lambda>k. snd (k_io (Mouse.Init (env_hw E)) k)),
     k_serial E ''Enabled mouse and keyboard!\<newline>'',
     init_screen E bi db,
     InitVTerminals,
     k_serial E ''Kernel intialized the terminals!\<newline>'',
     k_LogInfo E ''Initialized PS/2, Intrerupts, Display, Serial!'',
     InitACPI E bi,
     k_LogInfo E ''Initialized ACPI!'',
     k_serial E ''Kernel intialized ACPI!\<newline>'',
     does (\<lambda>k. k\<lparr>k_trace := EnableSCE (k_trace k)\<rparr>),
     k_LogInfo E ''Initialized Task Switching and System Calls!'',
     k_LogInfo E ''Initialized Everything!'',
     k_serial E ''Kernel intialized SCE!\<newline>'',
     may_hang (\<lambda>k. let b = env_buffers E
       in do { m \<leftarrow> inttostr_double2 (env_fp E) (intTo_StringOutput b) (doubleTo_StringOutput b) (size0 b)
                       (TimeSinceBoot (k_pit k)) (k_mem k);
               tr \<leftarrow> SerialWrite3 m (env_lit E ''Kernel finished loading in '') (doubleTo_StringOutput b)
                       (env_lit E '' seconds!\<newline>'') (k_trace k);
               Some (k\<lparr>k_mem := m, k_trace := tr\<rparr>) })]"

section \<open>kernelMain\<close>

text \<open>\<open>while(1);\<close> after a message.\<close>

definition stop_with :: "'d env \<Rightarrow> string \<Rightarrow> 'd kstep" where
  "stop_with E str k = map_option (\<lambda>_. Inl Hang) (k_LogError E (env_lit E str) k)"

definition k_malloc :: "u64 \<Rightarrow> 'd kernel \<Rightarrow> (u64 \<times> 'd kernel) result option" where
  "k_malloc sz k = map_option (\<lambda>r. rbind r (\<lambda>(a, H, s). Inr (a, (put_vm s k)\<lparr>k_heap := H\<rparr>)))
     (malloc sz (k_heap k) (vm_of k))"

definition check_ramfs :: "'d env \<Rightarrow> bootinfo \<Rightarrow> 'd kstep" where
  "check_ramfs E bi k =
     (if RamFS bi = 0 then stop_with E ''No ram filesystem loaded!'' k
      else if LLFSCheck (k_mem k) (RamFS bi) = 0 then stop_with E ''Corrupt or unsupported ram filesystem!'' k
      else Some (Inr k))"

definition show_smbios :: "'d env \<Rightarrow> bootinfo \<Rightarrow> 'd kstep" where
  "show_smbios E bi = steps [
     may_hang (k_printf E ''SMBIOS Address: %x\<newline>'' [SMBIOS bi]),
     may_hang (\<lambda>k. k_printf E ''SMBIOS Signature: %c%c%c%c\<newline>''
       (map (\<lambda>c. sext (scast c)) (bytes_at (k_mem k) (SMBIOS bi) 4)) k),
     may_hang (\<lambda>k. map_option (\<lambda>t. put_terms t k)
       (SMBiosParse (env_fp E) (env_buffers E) (env_fs E) (env_rest E) (env_lit E ''SMBios entries: %u\<newline>'')
         (env_lit E ''%u '') (env_lit E ''\<newline>'') (SMBIOS bi) (terms_of k)))]"

definition copy_ramfs :: "bootinfo \<Rightarrow> 'd kstep" where
  "copy_ramfs bi k =
     (let fssize = LLFSGetFileSystemSize (k_mem k) (RamFS bi)
      in Option.bind (RequestPages (fssize div 4096 + 1) (k_pfa k)) (\<lambda>(LLFSSource, p).
           let m = memcpy LLFSSource (RamFS bi) fssize (k_mem k);
               m = LLFSMap (k_root k) LLFSSource m;
               p = LockPages LLFSSource (fssize div 4096 + 1) p
           in Some (Inr (k\<lparr>k_ramfs := LLFSSource, k_mem := m, k_pfa := p\<rparr>))))"

definition init_files :: "'d env \<Rightarrow> 'd kstep" where
  "init_files E = steps [
     (\<lambda>k. map_option (\<lambda>r. rbind r (\<lambda>(ds, k). Inr (k\<lparr>k_files := ds\<rparr>)))
       (VFSInit k_malloc (\<lambda>d n k. k\<lparr>k_mem := memset d 0 n (k_mem k)\<rparr>) k)),
     does (\<lambda>k. let (m, tot) = register_files (k_files k) (k_ramfs k) (k_mem k) (k_vfs_total k)
              in k\<lparr>k_mem := m, k_vfs_total := tot\<rparr>),
     may_hang (\<lambda>k. k_printf E ''VFS total entries: %u\<newline>'' [k_vfs_total k] k)]"

text \<open>The three requests that push the heap past the addresses of the executables.\<close>

definition reserve_heap :: "'d kstep" where
  "reserve_heap k =
     (case k_malloc 1 k of
        Some (Inr (lastAddr, k)) \<Rightarrow>
          (case k_malloc (0x0000100000200000 - lastAddr - 25 * 3) k of
             Some (Inr (_, k)) \<Rightarrow> map_option (map_sum id snd) (k_malloc (1 * 1024 * 1024) k)
           | r \<Rightarrow> map_option (map_sum id snd) r)
      | r \<Rightarrow> map_option (map_sum id snd) r)"

definition TASK_USER :: u8 where "TASK_USER = 1"
definition TASK_SYSTEM :: u8 where "TASK_SYSTEM = 3"

text \<open>A task with a fresh stack; \<open>stack\<close> is requested before the entry is made.\<close>

definition start_task :: "u64 \<Rightarrow> u64 \<Rightarrow> u8 \<Rightarrow> ('d kernel \<Rightarrow> u64 option) \<Rightarrow> 'd kstep" where
  "start_task entry name priv size_of k =
     (case size_of k of
        None \<Rightarrow> None
      | Some sz \<Rightarrow>
          (case GenerateUserspaceStack k of
             Some (Inr (stk, k)) \<Rightarrow>
               map_option (\<lambda>(tm, m). Inr (k\<lparr>k_tasks := tm, k_mem := m\<rparr>))
                 (AddTask (GDTInfoSelectors (k_gdt k)) (k_root k) entry stk name priv sz (k_tasks k, k_mem k))
           | r \<Rightarrow> map_option (map_sum id snd) r))"

definition start_tasks :: "'d env \<Rightarrow> u64 \<Rightarrow> 'd kstep" where
  "start_tasks E moldInit = steps [
     does (k_map_user (env_sym E ''IdleTask'')),
     start_task (env_sym E ''IdleTask'') (env_lit E ''Idle Task'') TASK_SYSTEM (\<lambda>_. Some 0),
     start_task moldInit (env_lit E ''/minit.melf'') TASK_USER
       (\<lambda>k. Option.bind (VFSOpenFile (k_files k) (env_lit E ''/minit.melf'') (k_mem k))
              (VFSSizeFile (k_mem k) (k_ramfs k))),
     does (\<lambda>k. k\<lparr>k_tasks := (k_tasks k)\<lparr>isEnabled := 1\<rparr>, k_current := 2\<rparr>)]"

definition load_init :: "'d env \<Rightarrow> 'd kernel \<Rightarrow> (u64 \<times> 'd kernel) result option" where
  "load_init E k =
     (case LoadELFExecutable (k_files k) (k_ramfs k) (env_lit E ''/minit.melf'') False (k_heap k, vm_of k) of
        None \<Rightarrow> None
      | Some (Inl e) \<Rightarrow> Some (Inl e)
      | Some (Inr (moldInit, H, s)) \<Rightarrow>
          if moldInit = 0 then Some (Inl InitMissing) else Some (Inr (moldInit, (put_vm s k)\<lparr>k_heap := H\<rparr>)))"

text \<open>
  The task manager is a local variable: \<open>junk\<close> is the table it starts with.  The result is what
  \<open>RunInUserspace\<close> is called with, the address of \<open>IdleTask\<close> and a stack.
\<close>

definition kernelMain ::
    "'d env \<Rightarrow> (trace \<Rightarrow> trace) \<Rightarrow> u64 \<Rightarrow> (i32 \<Rightarrow> task) \<Rightarrow> bootinfo \<Rightarrow> 'd kernel \<Rightarrow> (u64 \<times> u64 \<times> 'd kernel) result option" where
  "kernelMain E EnableSCE db junk bi k =
     (case steps [InitDrivers E EnableSCE db bi, check_ramfs E bi, show_smbios E bi, copy_ramfs bi, init_files E,
          does (\<lambda>k. k\<lparr>k_tasks := (k_tasks k)\<lparr>tasks := junk, currentTask := 0, taskNum := 0, isEnabled := 0\<rparr>\<rparr>),
          reserve_heap] k of
        Some (Inr k) \<Rightarrow>
          (case load_init E k of
             Some (Inr (moldInit, k)) \<Rightarrow>
               (case start_tasks E moldInit k of
                  Some (Inr k) \<Rightarrow>
                    map_option (map_sum id (\<lambda>(stk, k). (env_sym E ''IdleTask'', stk, k))) (GenerateUserspaceStack k)
                | Some (Inl e) \<Rightarrow> Some (Inl e)
                | None \<Rightarrow> None)
           | Some (Inl e) \<Rightarrow> Some (Inl e)
           | None \<Rightarrow> None)
      | Some (Inl e) \<Rightarrow> Some (Inl e)
      | None \<Rightarrow> None)"

end
