(* ===== verification/BootPaging.thy ===== *)
theory BootPaging
  imports Boot
begin

unbundle bit_operations_syntax

text \<open>
  What \<open>EnablePaging\<close> of \<open>kernelInit.h\<close> sets up: the identity mapping of the memory and of the
  frame buffer, by the contracts of the page allocator and of \<open>MapMemory\<close>.
\<close>

section \<open>One page\<close>

text \<open>Addresses with 48 bits, which the four levels tell apart, and the identity on one.\<close>

definition low :: "u64 \<Rightarrow> bool" where
  "low a \<longleftrightarrow> unat a < 281474976710656"

definition ident :: "'d kernel \<Rightarrow> u64 \<Rightarrow> bool" where
  "ident k a \<longleftrightarrow> translate (k_mem k) (k_root k) a = Some (4096 * (a div 4096))"

lemma low_bits: "low a \<Longrightarrow> take_bit 36 (drop_bit 12 a) = drop_bit 12 a" "low a \<Longrightarrow> frame_of a = 4096 * (a div 4096)"
proof -
  assume a: "low a"
  have d: "unat (drop_bit 12 a) < 68719476736"
  proof -
    have "unat (drop_bit 12 a) = unat a div 4096" by (simp add: drop_bit_eq_div unat_div)
    then show ?thesis using a unfolding low_def by linarith
  qed
  then have "take_bit 36 (unat (drop_bit 12 a)) = unat (drop_bit 12 a)" by (simp add: take_bit_nat_eq_self_iff)
  then show "take_bit 36 (drop_bit 12 a) = drop_bit 12 a" by (simp only: word_unat_eq_iff unsigned_take_bit_eq)
  have "take_bit 40 (unat (drop_bit 12 a)) = unat (drop_bit 12 a)" using d by (simp add: take_bit_nat_eq_self_iff)
  then have "take_bit 40 (drop_bit 12 a) = drop_bit 12 a" by (simp only: word_unat_eq_iff unsigned_take_bit_eq)
  then show "frame_of a = 4096 * (a div 4096)"
    by (simp add: frame_of_def push_bit_eq_mult drop_bit_eq_div mult.commute)
qed

lemma low_path: "low a \<Longrightarrow> low b \<Longrightarrow> path_of a = path_of b \<longleftrightarrow> a div 4096 = b div 4096"
  using low_bits(1) [of a] low_bits(1) [of b]
  by (simp add: path_of_eq_iff PageMapIndexer_eq_iff) (simp add: drop_bit_eq_div)

lemma memorySize_LockPage [simp]: "memorySizeBytes (LockPage a p) = memorySizeBytes p"
  by (simp add: LockPage_def Let_def case_prod_unfold)

lemma memorySize_LockPages [simp]: "memorySizeBytes (LockPages a n p) = memorySizeBytes p"
  unfolding LockPages_def by (rule for_int_invariant [where P = "\<lambda>q. memorySizeBytes q = memorySizeBytes p"]) simp_all

lemma memorySize_RequestPage: "RequestPage p = Inr (pg, p') \<Longrightarrow> memorySizeBytes p' = memorySizeBytes p"
  using RequestPage_Inr by fastforce

lemma memorySize_next_table:
  "next_table RequestPage t i m p = Inr (t', m', p') \<Longrightarrow> memorySizeBytes p' = memorySizeBytes p"
  by (auto simp: next_table_def Let_def rbind_def memorySize_RequestPage split: sum.splits if_splits)

lemma memorySize_MapMemory:
  "MapMemory root v phys m p = Inr (m', p') \<Longrightarrow> memorySizeBytes p' = memorySizeBytes p"
  by (auto simp: MapMemory_def MapMemory_with_def Let_def rbind_def dest!: memorySize_next_table split: sum.splits)

lemma MapMemory_fails: "MapMemory root v phys m p = Inl e \<Longrightarrow> e = OutOfMemory"
  unfolding MapMemory_def using frames.MapMemory_with_fails RequestPage_Inl by blast

text \<open>What a step of the boot keeps, and the addresses it makes the identity on.\<close>

definition maps_to :: "u64 set \<Rightarrow> 'd kernel \<Rightarrow> 'd kernel result \<Rightarrow> bool" where
  "maps_to A k r \<longleftrightarrow> (case r of
      Inl e \<Rightarrow> e = OutOfMemory
    | Inr k' \<Rightarrow> vm_ok (vm_of k') \<and> k_root k' = k_root k \<and> memorySizeBytes (k_pfa k') = memorySizeBytes (k_pfa k) \<and>
        (\<forall>a. low a \<longrightarrow> ident k a \<or> a \<in> A \<longrightarrow> ident k' a))"

lemma k_map_maps:
  assumes "vm_ok (vm_of k)" "low t"
  shows "\<exists>r. k_map t k = Some r \<and> maps_to {a. a div 4096 = t div 4096} k r"
proof (cases "MapMemory (k_root k) t t (k_mem k) (k_pfa k)")
  case (Inl e)
  then show ?thesis using MapMemory_fails [OF Inl]
    by (simp add: k_map_def may_stop_def map_identity_def vm_of_def maps_to_def)
next
  case (Inr x)
  obtain m p where x: "x = (m, p)" by (cases x)
  have ok: "source_fine (k_pfa k)" "tables_ok (taken (k_pfa k)) (k_mem k) (k_root k)"
    using assms(1) by (simp_all add: vm_ok_def vm_of_def)
  note r = Inr [unfolded x]
  note s = frames.MapMemory_with_spec [OF ok r [unfolded MapMemory_def]]
  have tr: "translate m (k_root k) a = (if path_of a = path_of t then Some (frame_of t) else translate (k_mem k) (k_root k) a)" for a
    using s(3) [of "path_of a"] path_of_ok by (simp add: translate_def frame_of_def)
  define k' where "k' = put_vm ((vm_of k)\<lparr>vm_mem := m, vm_pfa := p\<rparr>) k"
  have k': "k_mem k' = m" "k_pfa k' = p" "k_root k' = k_root k" by (simp_all add: k'_def put_vm_def vm_of_def)
  have "ident k' a" if "low a" "ident k a \<or> a div 4096 = t div 4096" for a
  proof (cases "a div 4096 = t div 4096")
    case True
    then have "path_of a = path_of t" using low_path [OF that(1) assms(2)] by simp
    then show ?thesis using True low_bits(2) [OF assms(2)] by (simp add: ident_def k' tr)
  next
    case False
    then have "path_of a \<noteq> path_of t" using low_path [OF that(1) assms(2)] by simp
    then show ?thesis using that(2) False by (simp add: ident_def k' tr)
  qed
  then have "maps_to {a. a div 4096 = t div 4096} k (Inr k')"
    using s(1,2) memorySize_MapMemory [OF r] by (auto simp: maps_to_def vm_ok_def vm_of_def k')
  moreover have "k_map t k = Some (Inr k')"
    using r by (simp add: k_map_def may_stop_def map_identity_def vm_of_def k'_def)
  ultimately show ?thesis by blast
qed

lemma maps_to_trans:
  assumes "maps_to A k (Inr k')" "maps_to B k' r"
  shows "maps_to (A \<union> B) k r"
  using assms by (cases r) (auto simp: maps_to_def)

lemma maps_to_mono: "maps_to A k r \<Longrightarrow> (\<And>a. low a \<Longrightarrow> a \<in> B \<Longrightarrow> a \<in> A) \<Longrightarrow> maps_to B k r"
  by (auto simp: maps_to_def split: sum.splits)

section \<open>The loops\<close>

text \<open>The addresses in the pages of \<open>t\<close>, \<open>t + 4096\<close>, .. below \<open>stop\<close>.\<close>

definition pages_from :: "u64 \<Rightarrow> u64 \<Rightarrow> u64 set" where
  "pages_from t stop = {a. \<exists>j. unat t + 4096 * j < unat stop \<and> a div 4096 = (t + 4096 * of_nat j) div 4096}"

lemma pages_from_step:
  "pages_from t stop \<subseteq> {a. a div 4096 = t div 4096} \<union> pages_from (t + 4096) stop"
  if "unat (t + 4096) = unat t + 4096"
proof
  fix a assume "a \<in> pages_from t stop"
  then obtain j where j: "unat t + 4096 * j < unat stop" "a div 4096 = (t + 4096 * of_nat j) div 4096"
    by (auto simp: pages_from_def)
  show "a \<in> {a. a div 4096 = t div 4096} \<union> pages_from (t + 4096) stop"
  proof (cases j)
    case 0
    with j show ?thesis by simp
  next
    case (Suc i)
    have "t + 4096 * of_nat j = t + 4096 + 4096 * of_nat i" by (simp add: Suc algebra_simps)
    then have "a div 4096 = (t + 4096 + 4096 * of_nat i) div 4096" using j(2) by (simp only:)
    moreover have "unat (t + 4096) + 4096 * i < unat stop" using j(1) Suc that by simp
    ultimately show ?thesis unfolding pages_from_def by blast
  qed
qed

lemma pages_from_empty: "\<not> t < stop \<Longrightarrow> pages_from t stop = {}"
  by (auto simp: pages_from_def word_less_nat_alt)

text \<open>Both loops in one: a loop that maps page after page.\<close>

lemma page_loop_maps:
  assumes step: "\<And>t k. keeps k \<Longrightarrow> loop t k =
      (if t < stop
       then case k_map t k of None \<Rightarrow> None | Some (Inl e) \<Rightarrow> Some (Inl e) | Some (Inr k) \<Rightarrow> loop (t + 4096) k
       else Some (Inr k))"
    and keeps: "\<And>A k k'. keeps k \<Longrightarrow> maps_to A k (Inr k') \<Longrightarrow> keeps k'"
    and stop: "unat stop \<le> 281474976710656"
  shows "vm_ok (vm_of k) \<Longrightarrow> keeps k \<Longrightarrow> unat stop \<le> unat t + 4096 * n \<Longrightarrow>
    \<exists>r. loop t k = Some r \<and> maps_to (pages_from t stop) k r"
proof (induction n arbitrary: t k)
  case 0
  then have "\<not> t < stop" by (simp add: word_less_nat_alt)
  with 0 show ?case by (simp add: step [OF 0(2)] pages_from_empty maps_to_def)
next
  case (Suc n)
  show ?case
  proof (cases "t < stop")
    case False
    with Suc.prems show ?thesis by (simp add: step [OF Suc.prems(2)] pages_from_empty maps_to_def)
  next
    case True
    then have lt: "unat t < 281474976710656" using stop by (simp add: word_less_nat_alt)
    then have t: "unat (t + 4096) = unat t + 4096" by (subst unat_add_small) simp_all
    from k_map_maps [OF Suc.prems(1)] lt obtain r where
      r: "k_map t k = Some r" "maps_to {a. a div 4096 = t div 4096} k r" by (auto simp: low_def)
    show ?thesis
    proof (cases r)
      case (Inl e)
      with r show ?thesis by (simp add: step [OF Suc.prems(2)] True maps_to_def)
    next
      case (Inr k1)
      note m = r(2) [unfolded Inr]
      have "vm_ok (vm_of k1)" using m by (simp add: maps_to_def)
      moreover have "unat stop \<le> unat (t + 4096) + 4096 * n" using Suc.prems(3) t by simp
      ultimately obtain r' where r': "loop (t + 4096) k1 = Some r'" "maps_to (pages_from (t + 4096) stop) k1 r'"
        using Suc.IH keeps [OF Suc.prems(2) m] by blast
      have "maps_to (pages_from t stop) k r'"
        by (rule maps_to_mono [OF maps_to_trans [OF m r'(2)]]) (use pages_from_step [OF t, of stop] in blast)
      then show ?thesis using r(1) r'(1) by (simp add: step [OF Suc.prems(2)] True Inr)
    qed
  qed
qed

lemma for_pages_maps:
  assumes "vm_ok (vm_of k)" "unat stop \<le> 281474976710656"
  shows "\<exists>r. for_pages k_map t stop k = Some r \<and> maps_to (pages_from t stop) k r"
proof (rule page_loop_maps [where keeps = "\<lambda>_. True" and n = "unat stop"])
  show "for_pages k_map t stop k =
      (if t < stop
       then case k_map t k of None \<Rightarrow> None | Some (Inl e) \<Rightarrow> Some (Inl e)
         | Some (Inr k) \<Rightarrow> for_pages k_map (t + 4096) stop k
       else Some (Inr k))" for t and k :: "'a kernel"
    by (simp add: for_pages.simps [of _ t])
qed (use assms in simp_all)

lemma map_all_maps:
  assumes "vm_ok (vm_of k)" "memorySizeBytes (k_pfa k) = sz" "0 < sz" "unat sz \<le> 281474976710656"
  shows "\<exists>r. map_all bi n t k = Some r \<and> maps_to (pages_from t sz) k r"
proof (rule page_loop_maps [where keeps = "\<lambda>k. memorySizeBytes (k_pfa k) = sz" and n = "unat sz"])
  show "map_all bi n t k =
      (if t < sz
       then case k_map t k of None \<Rightarrow> None | Some (Inl e) \<Rightarrow> Some (Inl e)
         | Some (Inr k) \<Rightarrow> map_all bi n (t + 4096) k
       else Some (Inr k))" if "memorySizeBytes (k_pfa k) = sz" for t and k :: "'a kernel"
    using that assms(3) by (simp add: map_all.simps [of _ _ t] GetMemorySize_def)
qed (use assms in \<open>simp_all add: maps_to_def\<close>)

text \<open>Every page below \<open>stop\<close> is reached from 0, and every page of a range from its start.\<close>

lemma pages_from_0: "a < stop \<Longrightarrow> a \<in> pages_from 0 stop"
proof -
  assume "a < stop"
  moreover have "4096 * (unat a div 4096) \<le> unat a" by simp
  ultimately have "unat (0 :: u64) + 4096 * (unat a div 4096) < unat stop"
    unfolding word_less_nat_alt by simp
  moreover have "a div 4096 = (0 + 4096 * of_nat (unat a div 4096)) div 4096"
  proof -
    have "unat a div 4096 < 18446744073709551616" using unat_less_2p64 [of a] by linarith
    then have "(of_nat (unat a div 4096) :: u64) = a div 4096"
      by (simp add: word_unat_eq_iff unat_div unat_of_nat64)
    moreover have "4096 * (a div 4096) div 4096 = a div 4096"
    proof (rule word_unat_eq_iff [THEN iffD2])
      have "unat a div 4096 * 4096 < 18446744073709551616" using unat_less_2p64 [of a] by linarith
      then have "unat (4096 * (a div 4096)) = 4096 * (unat a div 4096)"
        by (subst unat_mult_lem [THEN iffD1]) (simp_all add: unat_div mult.commute)
      then show "unat (4096 * (a div 4096) div 4096) = unat (a div 4096)" by (simp add: unat_div)
    qed
    ultimately show ?thesis by simp
  qed
  ultimately show "a \<in> pages_from 0 stop" unfolding pages_from_def by blast
qed

lemma pages_from_range:
  assumes "base \<le> a" and "unat a + 4096 < unat stop"
  shows "a \<in> pages_from base stop"
proof -
  define j where "j = (unat a - unat base) div 4096"
  have le: "unat base \<le> unat a" using assms(1) by (simp add: word_le_nat_alt)
  have b: "unat base + 4096 * j \<le> unat a" "unat a < unat base + 4096 * (j + 1)"
  proof -
    obtain d where d: "unat a = unat base + d" using le le_iff_add by blast
    then show "unat base + 4096 * j \<le> unat a" "unat a < unat base + 4096 * (j + 1)"
      by (simp_all add: j_def)
  qed
  have u: "unat (base + 4096 * of_nat i) = unat base + 4096 * i" if "i \<le> j + 1" for i
  proof -
    have "unat base + 4096 * i < 18446744073709551616"
      using that b(1) assms(2) unat_less_2p64 [of stop] by linarith
    then show ?thesis using unat_of_nat64 [of "unat base + 4096 * i"] by simp
  qed
  have "a div 4096 = (base + 4096 * of_nat j) div 4096 \<or> a div 4096 = (base + 4096 * of_nat (j + 1)) div 4096"
    unfolding word_unat_eq_iff unat_div using b u [of j] u [of "j + 1"]
    by (simp del: of_nat_Suc of_nat_add) linarith
  moreover have "unat base + 4096 * (j + 1) < unat stop" using b(1) assms(2) by simp
  moreover from this have "unat base + 4096 * j < unat stop" by simp
  ultimately show ?thesis unfolding pages_from_def by blast
qed

section \<open>EnablePaging\<close>

lemma LockPages_keeps:
  assumes "source_fine p" "tables_ok (taken p) m root"
  shows "source_fine (LockPages a n p) \<and> tables_ok (taken (LockPages a n p)) m root"
proof -
  have "Size (PageBitmap (LockPages a n p)) = Size (PageBitmap p) \<and> taken p \<subseteq> taken (LockPages a n p)"
    unfolding LockPages_def
    by (rule for_int_invariant [where P = "\<lambda>q. Size (PageBitmap q) = Size (PageBitmap p) \<and> taken p \<subseteq> taken q"])
      (auto simp: taken_LockPage)
  with assms show ?thesis
    by (auto simp: source_fine_def hint_ok_ranges intro: tables_ok_mono)
qed

lemma fresh_root:
  assumes "source_fine p" "RequestPage p = Inr (pg, p')"
  shows "source_fine p' \<and> tables_ok (taken p') (memset pg 0 0x1000 m) pg"
proof -
  note g = frames.granted [OF assms]
  have z: "walk (memset pg 0 0x1000 m) pg q = Some t \<Longrightarrow> idx_ok q \<Longrightarrow> q = [] \<and> t = pg" for q t
    using g by (cases q) (auto simp: load64_memset_page idx_ok_def)
  have "tables_ok (taken p') (memset pg 0 0x1000 m) pg"
    using g z unfolding tables_ok_def by blast
  then show ?thesis using g by simp
qed

text \<open>After the root: the rest of the function, as one contract.\<close>

lemma EnablePaging_rest:
  assumes "vm_ok (vm_of k)" "memorySizeBytes (k_pfa k) = sz" "0 < sz" "unat sz \<le> 281474976710656"
    and stop: "unat stop \<le> 281474976710656"
  shows "\<exists>r. steps [map_all bi n 0, does (\<lambda>k. k\<lparr>k_pfa := LockPages fb c (k_pfa k)\<rparr>), for_pages k_map fb stop] k = Some r \<and> maps_to (pages_from 0 sz \<union> pages_from fb stop) k r"
proof -
  obtain r where r: "map_all bi n 0 k = Some r" "maps_to (pages_from 0 sz) k r"
    using map_all_maps [OF assms(1-4)] by blast
  show ?thesis
  proof (cases r)
    case (Inl e)
    with r show ?thesis by (simp add: maps_to_def)
  next
    case (Inr k1)
    define k2 where "k2 = k1\<lparr>k_pfa := LockPages fb c (k_pfa k1)\<rparr>"
    note m = r(2) [unfolded Inr]
    have "vm_ok (vm_of k1)" using m by (simp add: maps_to_def)
    then have ok: "vm_ok (vm_of k2)" using LockPages_keeps [of "k_pfa k1" "k_mem k1" "k_root k1" fb c]
      by (simp add: vm_ok_def vm_of_def k2_def)
    have m2: "maps_to (pages_from 0 sz) k (Inr k2)"
      using m ok by (auto simp: maps_to_def ident_def k2_def)
    obtain r' where r': "for_pages k_map fb stop k2 = Some r'" "maps_to (pages_from fb stop) k2 r'"
      using for_pages_maps [OF ok stop] by blast
    have "steps [map_all bi n 0, does (\<lambda>k. k\<lparr>k_pfa := LockPages fb c (k_pfa k)\<rparr>), for_pages k_map fb stop] k = Some r'"
      using r(1) r'(1) unfolding Inr by (cases r') (simp_all add: does_def k2_def)
    then show ?thesis using maps_to_trans [OF m2 r'(2)] by blast
  qed
qed

text \<open>
  C9: \<open>EnablePaging\<close> ends, and unless the page allocator runs out, the new page tables are in
  order and translate every address below the size of the memory, and every address of the frame
  buffer wherever it begins in its page, to itself up to the offset in the page.
\<close>

theorem EnablePaging_identity_maps:
  fixes k :: "'d kernel" and bi :: bootinfo
  defines "fb \<equiv> GOPFrameBuffer bi"
  assumes "source_fine (k_pfa k)" and "mMapDescSize bi \<noteq> 0"
    and "0 < memorySizeBytes (k_pfa k)" and "unat (memorySizeBytes (k_pfa k)) \<le> 281474976710656"
    and "unat (BaseAddr fb) + unat (BufferSize fb) + 4096 \<le> 281474976710656"
  shows "\<exists>r. EnablePaging bi k = Some r \<and>
    (case r of
       Inl e \<Rightarrow> e = OutOfMemory
     | Inr k' \<Rightarrow>
         vm_ok (vm_of k') \<and>
         (\<forall>a. a < memorySizeBytes (k_pfa k) \<or> BaseAddr fb \<le> a \<and> unat a < unat (BaseAddr fb) + unat (BufferSize fb) \<longrightarrow>
            translate (k_mem k') (k_root k') a = Some (4096 * (a div 4096))))"
proof (cases "RequestPage (k_pfa k)")
  case (Inl e)
  with RequestPage_Inl [OF Inl] show ?thesis
    using assms(3) by (simp add: EnablePaging_def Let_def may_stop_def rbind_def)
next
  case (Inr x)
  obtain pg p where x: "RequestPage (k_pfa k) = Inr (pg, p)" using Inr by (cases x) simp
  define k1 where "k1 = k\<lparr>k_pfa := p, k_mem := memset pg 0 0x1000 (k_mem k), k_root := pg\<rparr>"
  let ?sz = "memorySizeBytes (k_pfa k)" and ?stop = "BaseAddr fb + (BufferSize fb + 0x1000)"
  have ok: "vm_ok (vm_of k1)" "memorySizeBytes (k_pfa k1) = ?sz"
    using fresh_root [OF assms(2) x] memorySize_RequestPage [OF x] by (simp_all add: vm_ok_def vm_of_def k1_def)
  have stop: "unat ?stop = unat (BaseAddr fb) + unat (BufferSize fb) + 4096"
    using assms(6) by (simp add: unat_add_small)
  then have "unat ?stop \<le> 281474976710656" using assms(6) by simp
  from EnablePaging_rest [OF ok(1,2) assms(4,5) this] obtain r where
    r: "steps [map_all bi (mMapSize bi div mMapDescSize bi) 0,
          does (\<lambda>k. k\<lparr>k_pfa := LockPages (BaseAddr fb) ((BufferSize fb + 0x1000) div 0x1000 + 1) (k_pfa k)\<rparr>),
          for_pages k_map (BaseAddr fb) ?stop] k1 = Some r"
       "maps_to (pages_from 0 ?sz \<union> pages_from (BaseAddr fb) ?stop) k1 r" by blast
  have "EnablePaging bi k = Some r"
    using r(1) assms(3) by (simp add: EnablePaging_def Let_def may_stop_def rbind_def x k1_def fb_def del: steps.simps(2) add: steps.simps(2) [of "may_stop _"])
  moreover have inside: "a \<in> pages_from 0 ?sz \<union> pages_from (BaseAddr fb) ?stop \<and> low a"
    if "a < ?sz \<or> BaseAddr fb \<le> a \<and> unat a < unat (BaseAddr fb) + unat (BufferSize fb)" for a
    using that pages_from_0 [of a ?sz] pages_from_range [of "BaseAddr fb" a ?stop] stop assms(5,6)
    by (auto simp: low_def word_less_nat_alt)
  ultimately show ?thesis
  proof (cases r)
    case (Inr k')
    have m: "vm_ok (vm_of k')" "\<And>a. low a \<Longrightarrow> a \<in> pages_from 0 ?sz \<union> pages_from (BaseAddr fb) ?stop \<Longrightarrow> ident k' a"
      using r(2) unfolding Inr maps_to_def by auto
    with inside \<open>EnablePaging bi k = Some r\<close> show ?thesis unfolding Inr ident_def by auto
  qed (use r(2) in \<open>simp add: maps_to_def\<close>)
qed

definition example_boot :: bootinfo where
  "example_boot = \<lparr>GOPFrameBuffer = \<lparr>BaseAddr = 0x80000800, BufferSize = 0x1000, Width = 32, Height = 32,
       PixelPerScanLine = 32\<rparr>, Font = \<lparr>charsize = 16, glyphBuffer = 0\<rparr>, mMap = 0, mMapSize = 0,
     mMapDescSize = 48, RSDP = 0, SMBIOS = 0, RamFS = 0\<rparr>"

theorem EnablePaging_identity_maps_witness:
  "\<forall>k :: unit kernel. \<exists>r. EnablePaging example_boot (k\<lparr>k_pfa := some_pages\<lparr>memorySizeBytes := 0x3000\<rparr>\<rparr>) = Some r \<and>
     (case r of Inl e \<Rightarrow> e = OutOfMemory
      | Inr k' \<Rightarrow> translate (k_mem k') (k_root k') 0x2345 = Some 0x2000 \<and>
          translate (k_mem k') (k_root k') 0x800017FF = Some 0x80001000)"
proof
  fix k :: "unit kernel"
  let ?k = "k\<lparr>k_pfa := some_pages\<lparr>memorySizeBytes := 0x3000\<rparr>\<rparr>"
  have "source_fine (k_pfa ?k)"
    using some_pages_tables(1) by (simp add: source_fine_def hint_ok_def taken_def)
  from EnablePaging_identity_maps [OF this, of example_boot]
  show "\<exists>r. EnablePaging example_boot ?k = Some r \<and>
     (case r of Inl e \<Rightarrow> e = OutOfMemory
      | Inr k' \<Rightarrow> translate (k_mem k') (k_root k') 0x2345 = Some 0x2000 \<and>
          translate (k_mem k') (k_root k') 0x800017FF = Some 0x80001000)"
    by (auto simp: example_boot_def split: sum.splits)
qed

end
