(* ===== verification/Console.thy ===== *)
theory Console
  imports Terminal
begin

unbundle bit_operations_syntax

text \<open>
  What the virtual terminals show.  A terminal promises its writers a text that only grows at its
  end, or starts again once it is full; \<open>VirtualTerminal::append\<close> and \<open>printf\<close> are shown to
  keep that promise, byte by byte, in the memory the terminal owns.
\<close>

section \<open>Stretches of memory\<close>

definition span :: "u64 \<Rightarrow> nat \<Rightarrow> u64 set" where
  "span a n = {x. unat (x - a) < n}"

lemma in_span_offset: "i < n \<Longrightarrow> n < 18446744073709551616 \<Longrightarrow> a + of_nat i \<in> span a n"
  by (simp add: span_def unat_of_nat64)

lemma span_mono: "n \<le> k \<Longrightarrow> span a n \<subseteq> span a k"
  by (auto simp: span_def)

lemma span_part:
  assumes "i + n \<le> k" and "k < 18446744073709551616"
  shows "span (a + of_nat i) n \<subseteq> span a k"
proof
  fix x assume "x \<in> span (a + of_nat i) n"
  then have x: "unat (x - (a + of_nat i)) < n" by (simp add: span_def)
  have "x - a = of_nat (i + unat (x - (a + of_nat i)))" by simp
  then have "unat (x - a) = i + unat (x - (a + of_nat i))"
    using x assms by (simp only: unat_of_nat64)
  then show "x \<in> span a k" using x assms by (simp add: span_def)
qed

lemma span_disjoint:
  assumes "unat a + n \<le> unat b" and "unat b + k \<le> 18446744073709551616"
  shows "span a n \<inter> span b k = {}"
proof -
  have "n \<le> unat (x - a)" if "x \<in> span b k" for x
  proof -
    have k: "unat (x - b) < k" using that by (simp add: span_def)
    then have "unat (b + (x - b)) = unat b + unat (x - b)" using assms(2) by (intro unat_add_small) simp
    then have "unat b \<le> unat x" by simp
    then show ?thesis using assms(1) unat_diff64 [of x a] by (auto split: if_splits)
  qed
  then show ?thesis by (fastforce simp: span_def)
qed

lemma before_span:
  assumes "j < k" and "k + n \<le> 18446744073709551616"
  shows "b + of_nat j \<notin> span (b + of_nat k) n"
proof
  assume "b + of_nat j \<in> span (b + of_nat k) n"
  moreover have "b + of_nat j - (b + of_nat k) = - (of_nat (k - j) :: u64)" using assms(1) by (simp add: of_nat_diff)
  ultimately have l: "unat (- of_nat (k - j) :: u64) < n" by (simp only: span_def mem_Collect_eq)
  have u: "unat (of_nat (k - j) :: u64) = k - j" if "k - j < 18446744073709551616" using that by (rule unat_of_nat64)
  have n: "0 < n" using l by simp
  then have k: "k - j < 18446744073709551616" using assms by simp
  then have "(of_nat (k - j) :: u64) \<noteq> 0" using u assms(1) by auto
  then have "unat (- of_nat (k - j) :: u64) = 18446744073709551616 - (k - j)" by (simp add: unat_uminus u [OF k])
  then show False using l assms by simp
qed

lemma memset_span: "a \<notin> span b (unat n) \<Longrightarrow> memset b c n m a = m a"
  by (simp add: span_def memset_eq word_less_nat_alt)

lemma cstr_span:
  assumes "cstr m p s" "length s < 18446744073709551615" "\<And>a. a \<in> span p (Suc (length s)) \<Longrightarrow> m' a = m a"
  shows "cstr m' p s"
  using assms(2) by (intro cstr_same [OF assms(1)] assms(3) in_span_offset) simp_all

lemma bytes_at_append: "bytes_at m a (i + j) = bytes_at m a i @ bytes_at m (a + of_nat i) j"
  by (rule nth_equalityI) (auto simp: nth_append add.assoc simp flip: of_nat_add)

lemma bytes_at_cong: "(\<And>i. i < n \<Longrightarrow> m (a + of_nat i) = m' (a + of_nat i)) \<Longrightarrow> bytes_at m a n = bytes_at m' a n"
  by (rule nth_equalityI) simp_all

section \<open>Append\<close>

text \<open>The text of a terminal, and what the contract says of an append to it.\<close>

definition shown :: "vterminal \<Rightarrow> mem \<Rightarrow> u8 list" where
  "shown vt m = bytes_at m (vt_buffer vt) (unat (vt_index vt))"

definition add_text :: "nat \<Rightarrow> u8 list \<Rightarrow> u8 list \<Rightarrow> u8 list" where
  "add_text cap new old = (if cap \<le> length old then new else old @ new)"

text \<open>
  A terminal of \<open>maxLen\<close> bytes writes up to a string further: the last append may begin anywhere
  below the bound.
\<close>

definition vt_span :: "nat \<Rightarrow> vterminal \<Rightarrow> u64 set" where
  "vt_span K vt = span (vt_buffer vt) (unat (maxLen vt) + K)"

text \<open>
  What is stored of a string: \<open>strlen\<close> returns the index of the last character, and 0 for the empty
  string, so that of the empty string the NUL is stored, behind which nothing is shown any more.
\<close>

definition stored :: "u8 list \<Rightarrow> u8 list" where
  "stored s = (if s = [] then [0] else s)"

lemma stored_simps [simp]: "stored (c # s) = c # s" "stored [] = [0]" "s \<noteq> [] \<Longrightarrow> stored s = s"
  by (simp_all add: stored_def)

lemma cstr_stored: "cstr m p s \<Longrightarrow> bytes_at m p (length (stored s)) = stored s"
  by (cases s) (simp_all add: cstr_def bytes_at_Suc)

lemma vt_append_shows:
  assumes s: "cstr m p s" "length s \<le> K" "1 \<le> K" and K: "unat (maxLen vt) + K < 2147483648"
    and ap: "span p (Suc (length s)) \<inter> vt_span K vt = {}"
  shows "\<exists>i m'. vt_append p (vt, m) = Some (vt\<lparr>vt_index := i\<rparr>, m') \<and>
     shown (vt\<lparr>vt_index := i\<rparr>) m' = add_text (unat (maxLen vt)) (stored s) (shown vt m) \<and>
     (\<forall>a. a \<notin> vt_span K vt \<longrightarrow> m' a = m a)"
proof -
  let ?b = "vt_buffer vt" and ?cap = "unat (maxLen vt)" and ?n = "length (stored s)"
  have n: "0 < ?n" "?n \<le> K" "?n \<le> Suc (length s)" "length s - 1 = ?n - 1"
    using s(2,3) by (cases s; simp)+
  define i0 where "i0 = (if maxLen vt \<le> vt_index vt then 0 else vt_index vt)"
  define m0 where "m0 = (if maxLen vt \<le> vt_index vt then memset ?b 0 (ucast (maxLen vt)) m else m)"
  have i0: "unat i0 \<le> ?cap" by (auto simp: i0_def word_le_nat_alt)
  have uc: "unat (ucast (maxLen vt) :: u64) = ?cap" "unat (ucast i0 :: u64) = unat i0"
    by (simp_all add: unsigned_ucast_eq take_bit_nat_eq_self_iff unat_less_2p32 [THEN less_trans])
  have m0: "m0 a = m a" if "a \<notin> vt_span K vt" for a
    using that span_mono [of ?cap "?cap + K" ?b] memset_span [of a ?b "ucast (maxLen vt)" 0 m]
    by (auto simp: m0_def vt_span_def uc)
  have old: "bytes_at m0 ?b (unat i0) = (if ?cap \<le> length (shown vt m) then [] else shown vt m)"
    by (auto simp: i0_def m0_def shown_def word_le_nat_alt)
  have s0: "cstr m0 p s"
    using s(2) K ap by (intro cstr_span [OF s(1)] m0) auto
  have len: "strlen m' p = Some (of_nat (?n - 1))" if "cstr m' p s" for m'
    using strlen_cstr [OF that] n(4) s(2) K by simp
  have one: "(of_nat (?n - Suc 0) + 1 :: i32) = of_nat ?n"
    using n(1) by (cases "stored s") simp_all
  have nn: "unat (of_nat ?n :: u64) = ?n" "sext (of_nat ?n :: i32) = (of_nat ?n :: u64)"
    using n(2) K by (simp_all add: unat_of_nat64 sext_of_nat)
  define d where "d = ?b + ucast i0"
  have d: "d = ?b + of_nat (unat i0)" using uc(2) by (simp add: d_def flip: of_nat_unat_id)
  have sub: "span d ?n \<subseteq> vt_span K vt"
    unfolding d vt_span_def using i0 n(2) K by (intro span_part) simp_all
  define m1 where "m1 = memcpy d p (of_nat ?n) m0"
  have "d = p \<or> unat (of_nat ?n :: u64) \<le> unat (d - p)"
  proof -
    have "d \<in> span d ?n" using n(1) by (simp add: span_def)
    then have "d \<notin> span p (Suc (length s))" using sub ap by blast
    then show ?thesis using n(3) by (simp add: span_def nn)
  qed
  from memcpy_bytes [OF this] memcpy_frame
  have c: "bytes_at m1 d ?n = stored s" "\<And>a. a \<notin> span d ?n \<Longrightarrow> m1 a = m0 a"
    using cstr_stored [OF s0] by (auto simp: m1_def nn span_def)
  have s1: "cstr m1 p s"
    using s(2) K ap sub by (intro cstr_span [OF s0] c(2)) auto
  have app: "vt_append p (vt, m) = Some (vt\<lparr>vt_index := i0 + of_nat ?n\<rparr>, m1)"
    using len [OF s0] len [OF s1] unfolding vt_append_def m1_def d_def
    by (simp add: Let_def one nn i0_def m0_def split: if_splits)
  have idx: "unat (i0 + of_nat ?n) = unat i0 + ?n"
    using i0 n(2) K by (subst unat_add_small) (simp_all add: unat_of_nat32)
  have "bytes_at m1 ?b (unat i0) = bytes_at m0 ?b (unat i0)"
    using i0 n(2) K unfolding d by (intro bytes_at_cong c(2) [unfolded d] before_span) simp_all
  then have "shown (vt\<lparr>vt_index := i0 + of_nat ?n\<rparr>) m1 = add_text ?cap (stored s) (shown vt m)"
    using old c(1) by (simp add: shown_def idx bytes_at_append add_text_def d)
  moreover have "\<forall>a. a \<notin> vt_span K vt \<longrightarrow> m1 a = m a" using c(2) m0 sub by (metis subsetD)
  ultimately show ?thesis using app by blast
qed

section \<open>Printing\<close>

text \<open>
  The bytes the conversions of \<open>printf\<close> may write: their static buffers, and 14 bytes in front
  of the one of \<open>inttohstr\<close>.
\<close>

definition char_buffer :: "buffers \<Rightarrow> u64 set" where "char_buffer b = span (chartostrOutput b) 2"
definition dec_buffer :: "buffers \<Rightarrow> u64 set" where "dec_buffer b = span (uintTo_StringOutput b) 128"
definition hex_buffer :: "buffers \<Rightarrow> u64 set" where "hex_buffer b = span (hexTo_StringOutput b - 14) 142"

definition statics :: "buffers \<Rightarrow> u64 set" where
  "statics b = char_buffer b \<union> dec_buffer b \<union> hex_buffer b"

lemmas static_defs = statics_def char_buffer_def dec_buffer_def hex_buffer_def

abbreviation current :: "terminals \<Rightarrow> vterminal" where
  "current t \<equiv> VirtualTerminals t (CurrentTerminal t)"

text \<open>Strings of up to \<open>K\<close> bytes fit behind the terminal, clear of the static buffers.\<close>

definition console_ok :: "nat \<Rightarrow> buffers \<Rightarrow> vterminal \<Rightarrow> bool" where
  "console_ok K b vt \<longleftrightarrow> 20 \<le> K \<and> unat (maxLen vt) + K < 2147483648 \<and> statics b \<inter> vt_span K vt = {} \<and> size0 b = 0"

text \<open>
  The strings \<open>ss\<close> are appended to the current terminal, and nothing else happens but writes to the
  static buffers \<open>S\<close>.
\<close>

definition prints :: "nat \<Rightarrow> u64 set \<Rightarrow> u8 list list \<Rightarrow> terminals \<Rightarrow> terminals \<Rightarrow> bool" where
  "prints K S ss t t' \<longleftrightarrow>
     (\<exists>i m. t' = t\<lparr>VirtualTerminals := (VirtualTerminals t)(CurrentTerminal t := (current t)\<lparr>vt_index := i\<rparr>), t_mem := m\<rparr>) \<and>
     shown (current t') (t_mem t') = fold (add_text (unat (maxLen (current t)))) ss (shown (current t) (t_mem t)) \<and>
     (\<forall>a. a \<notin> S \<union> vt_span K (current t) \<longrightarrow> t_mem t' a = t_mem t a)"

lemma vt_span_index [simp]: "vt_span K (vt\<lparr>vt_index := i\<rparr>) = vt_span K vt"
  by (simp add: vt_span_def)

lemma console_ok_index [simp]: "console_ok K b (vt\<lparr>vt_index := i\<rparr>) = console_ok K b vt"
  by (simp add: console_ok_def)

lemma prints_current:
  assumes "prints K S ss t t'"
  shows "CurrentTerminal t' = CurrentTerminal t" "maxLen (current t') = maxLen (current t)"
    "vt_span k (current t') = vt_span k (current t)" "console_ok k b (current t') = console_ok k b (current t)"
  using assms by (auto simp: prints_def)

lemma prints_refl: "prints K S [] t t"
  unfolding prints_def by (intro conjI exI [of _ "vt_index (current t)"] exI [of _ "t_mem t"]) simp_all

lemma prints_trans: "prints K S ss t t' \<Longrightarrow> prints K S ss' t' t'' \<Longrightarrow> prints K S (ss @ ss') t t''"
  unfolding prints_def by (clarsimp simp: fun_upd_upd) blast

lemma add_text_static:
  assumes "\<And>a. a \<in> vt_span K vt \<Longrightarrow> m' a = m a" and "unat (maxLen vt) + K < 2147483648"
  shows "add_text (unat (maxLen vt)) s (shown vt m') = add_text (unat (maxLen vt)) s (shown vt m)"
proof (cases "unat (maxLen vt) \<le> unat (vt_index vt)")
  case True
  then show ?thesis by (simp add: add_text_def shown_def)
next
  case False
  then have "shown vt m' = shown vt m"
    unfolding shown_def using assms by (intro bytes_at_cong assms(1)) (auto simp: vt_span_def intro: in_span_offset)
  then show ?thesis by simp
qed

lemma append_current_prints:
  assumes ok: "console_ok K b (current t)" and S: "S \<subseteq> statics b" and m: "\<And>a. a \<notin> S \<Longrightarrow> m a = t_mem t a"
    and s: "cstr m p s" "length s \<le> K" "span p (Suc (length s)) \<inter> vt_span K (current t) = {}" and e: "s' = stored s"
  shows "\<exists>t'. append_current p (t\<lparr>t_mem := m\<rparr>) = Some t' \<and> prints K S [s'] t t'"
proof -
  have K: "unat (maxLen (current t)) + K < 2147483648" "S \<inter> vt_span K (current t) = {}"
    using ok S by (auto simp: console_ok_def)
  obtain i m' where r: "vt_append p (current t, m) = Some ((current t)\<lparr>vt_index := i\<rparr>, m')"
    "shown ((current t)\<lparr>vt_index := i\<rparr>) m' = add_text (unat (maxLen (current t))) (stored s) (shown (current t) m)"
    "\<And>a. a \<notin> vt_span K (current t) \<Longrightarrow> m' a = m a"
    using vt_append_shows [OF s(1,2) _ K(1) s(3)] ok by (auto simp: console_ok_def)
  have sh: "add_text (unat (maxLen (current t))) (stored s) (shown (current t) m) =
      add_text (unat (maxLen (current t))) (stored s) (shown (current t) (t_mem t))"
    using K m by (intro add_text_static [where K = K]) auto
  let ?t' = "t\<lparr>VirtualTerminals := (VirtualTerminals t)(CurrentTerminal t := (current t)\<lparr>vt_index := i\<rparr>), t_mem := m'\<rparr>"
  have "append_current p (t\<lparr>t_mem := m\<rparr>) = Some ?t'"
    using r(1) by (simp add: append_current_def Let_def)
  moreover have "prints K S [s'] t ?t'"
    using r(2,3) m sh unfolding prints_def e by auto
  ultimately show ?thesis by blast
qed

section \<open>Formats\<close>

text \<open>
  A format as a list of pieces: what its bytes are, which argument each piece takes, and what it
  prints.  \<open>%co\<close> takes a colour and prints nothing; \<open>%f\<close> is left out, since its text depends on the
  floating point unit.
\<close>

datatype piece =
    Plain u8 | Unsigned u64 | Signed u64 | Hexa u64 | Pointer u64 | Character u64
  | String u64 "u8 list" | Colour u64

fun piece_code :: "piece \<Rightarrow> u8 list" where
  "piece_code (Plain c) = [c]"
| "piece_code (Unsigned _) = [37, 117]"
| "piece_code (Signed _) = [37, 100]"
| "piece_code (Hexa _) = [37, 120]"
| "piece_code (Pointer _) = [37, 112]"
| "piece_code (Character _) = [37, 99]"
| "piece_code (String _ _) = [37, 115]"
| "piece_code (Colour _) = [37, 99, 111]"

fun piece_args :: "piece \<Rightarrow> u64 list" where
  "piece_args (Plain _) = []"
| "piece_args (Unsigned a) = [a]"
| "piece_args (Signed a) = [a]"
| "piece_args (Hexa a) = [a]"
| "piece_args (Pointer a) = [a]"
| "piece_args (Character a) = [a]"
| "piece_args (String a _) = [a]"
| "piece_args (Colour a) = [a]"

text \<open>The \<open>int\<close> of \<open>%d\<close> is converted to 64 bits unsigned: a negative one prints as a large number.\<close>

fun printed :: "piece \<Rightarrow> u8 list list" where
  "printed (Plain c) = [[c]]"
| "printed (Unsigned a) = [dec_digits (unat a)]"
| "printed (Signed a) = [dec_digits (unat (sext (ucast a :: i32) :: u64))]"
| "printed (Hexa a) = [hex_digits 16 a]"
| "printed (Pointer a) = [dec_digits (unat a)]"
| "printed (Character a) = [[ucast a]]"
| "printed (String _ s) = [stored s]"
| "printed (Colour _) = []"

definition format :: "piece list \<Rightarrow> u8 list" where "format ps = concat (map piece_code ps)"

text \<open>
  The pieces that print what they say: no NUL, no bare \<open>%\<close>, no \<open>%c\<close> in front of an \<open>o\<close>, and strings
  that lie clear of the bytes \<open>printf\<close> writes.
\<close>

fun piece_ok :: "nat \<Rightarrow> u64 set \<Rightarrow> mem \<Rightarrow> u8 \<Rightarrow> piece \<Rightarrow> bool" where
  "piece_ok K W m nxt (Plain c) \<longleftrightarrow> c \<noteq> 0 \<and> c \<noteq> 37"
| "piece_ok K W m nxt (Character a) \<longleftrightarrow> nxt \<noteq> 111"
| "piece_ok K W m nxt (String p s) \<longleftrightarrow> length s \<le> K \<and> cstr m p s \<and> span p (Suc (length s)) \<inter> W = {}"
| "piece_ok K W m nxt _ \<longleftrightarrow> True"

fun pieces_ok :: "nat \<Rightarrow> u64 set \<Rightarrow> mem \<Rightarrow> piece list \<Rightarrow> bool" where
  "pieces_ok K W m [] \<longleftrightarrow> True"
| "pieces_ok K W m (p # ps) \<longleftrightarrow> piece_ok K W m (hd (format ps @ [0])) p \<and> pieces_ok K W m ps"

lemma pieces_ok_frame:
  assumes "\<And>a. a \<notin> W \<Longrightarrow> m' a = m a" "K < 18446744073709551615"
  shows "pieces_ok K W m ps \<Longrightarrow> pieces_ok K W m' ps"
proof (induction ps)
  case (Cons p ps)
  have "piece_ok K W m' n p" if "piece_ok K W m n p" for n
  proof (cases p)
    case (String q s)
    then have "cstr m' q s" using that assms by (intro cstr_span [of m q s m']) auto
    with String that show ?thesis by simp
  qed (use that in simp_all)
  with Cons show ?case by simp
qed simp

text \<open>The static buffer a piece goes through.\<close>

fun piece_buffer :: "buffers \<Rightarrow> piece \<Rightarrow> u64 set" where
  "piece_buffer b (Plain _) = char_buffer b"
| "piece_buffer b (Character _) = char_buffer b"
| "piece_buffer b (Hexa _) = hex_buffer b"
| "piece_buffer b (String _ _) = {}"
| "piece_buffer b (Colour _) = {}"
| "piece_buffer b _ = dec_buffer b"

definition buffers_used :: "buffers \<Rightarrow> piece list \<Rightarrow> u64 set" where
  "buffers_used b ps = \<Union> (piece_buffer b ` set ps)"

lemma buffers_used_statics: "buffers_used b ps \<subseteq> statics b"
proof -
  have "piece_buffer b p \<subseteq> statics b" for p by (cases p) (auto simp: statics_def)
  then show ?thesis by (auto simp: buffers_used_def)
qed

lemma hex_digits_length [simp]: "length (hex_digits n w) = n"
  by (simp add: hex_digits_def)

text \<open>What the conversions leave alone.\<close>

lemma statics_frame:
  "a \<notin> char_buffer b \<Longrightarrow> chartostr (chartostrOutput b) c m a = m a"
  "a \<notin> dec_buffer b \<Longrightarrow> inttostr (uintTo_StringOutput b) 0 v m a = m a"
  "a \<notin> hex_buffer b \<Longrightarrow> inttohstr64 (hexTo_StringOutput b) stk v m a = m a"
proof -
  assume "a \<notin> char_buffer b"
  then have "2 \<le> unat (a - chartostrOutput b)" by (simp add: char_buffer_def span_def)
  then have "a \<noteq> chartostrOutput b" "a \<noteq> chartostrOutput b + 1" by auto
  then show "chartostr (chartostrOutput b) c m a = m a" by (simp add: chartostr_def)
qed (rule inttostr_frame inttohstr64_frame, simp add: dec_buffer_def hex_buffer_def span_def)+

text \<open>The static buffers are clear of the terminal, with room for the terminating NUL.\<close>

lemma statics_apart:
  assumes "console_ok K b vt"
  shows "span (chartostrOutput b) 2 \<inter> vt_span K vt = {}"
    "n \<le> 128 \<Longrightarrow> span (uintTo_StringOutput b) n \<inter> vt_span K vt = {}"
    "n \<le> 128 \<Longrightarrow> span (hexTo_StringOutput b) n \<inter> vt_span K vt = {}"
proof -
  have d: "statics b \<inter> vt_span K vt = {}" using assms by (simp add: console_ok_def)
  then show "span (chartostrOutput b) 2 \<inter> vt_span K vt = {}" by (auto simp: static_defs)
  show "n \<le> 128 \<Longrightarrow> span (uintTo_StringOutput b) n \<inter> vt_span K vt = {}"
    using d span_mono [of n 128 "uintTo_StringOutput b"] by (auto simp: static_defs)
  assume "n \<le> 128"
  then have "span (hexTo_StringOutput b - 14 + of_nat 14) n \<subseteq> span (hexTo_StringOutput b - 14) 142"
    by (intro span_part) simp_all
  then show "span (hexTo_StringOutput b) n \<inter> vt_span K vt = {}" using d by (auto simp: static_defs)
qed

lemma append_char_prints:
  assumes ok: "console_ok K b (current t)" and S: "S \<subseteq> statics b" "char_buffer b \<subseteq> S"
  shows "\<exists>t'. append_current (chartostrOutput b) (t\<lparr>t_mem := chartostr (chartostrOutput b) c (t_mem t)\<rparr>) = Some t' \<and>
    prints K S [[c]] t t'"
proof (rule append_current_prints [OF ok S(1)])
  let ?s = "if c = 0 then [] else [c]"
  show "cstr (chartostr (chartostrOutput b) c (t_mem t)) (chartostrOutput b) ?s"
    by (simp add: chartostr_def cstr_def bytes_at_Suc)
  show "length ?s \<le> K" using ok by (simp add: console_ok_def)
  have "span (chartostrOutput b) (Suc (length ?s)) \<subseteq> span (chartostrOutput b) 2" by (rule span_mono) simp
  then show "span (chartostrOutput b) (Suc (length ?s)) \<inter> vt_span K (current t) = {}"
    using statics_apart(1) [OF ok] by blast
qed (use S(2) in \<open>auto intro: statics_frame(1)\<close>)

section \<open>printf\<close>

text \<open>One directive prints its piece and takes its argument.\<close>

lemma directive_prints:
  assumes ok: "console_ok K b (current t)" and W: "W = S \<union> vt_span K (current t)"
    and S: "S \<subseteq> statics b" "piece_buffer b pc \<subseteq> S"
    and p: "piece_ok K W (t_mem t) nxt pc" "piece_code pc = 37 # c1 # cs" and c2: "c2 = hd (cs @ [nxt])"
    and a: "piece_args pc = [gp v (gp_pos v)]"
  shows "\<exists>t'. directive fp b c1 c2 (v, t) = Some (of_nat (length cs), v\<lparr>gp_pos := gp_pos v + 1\<rparr>, t') \<and>
    prints K S (printed pc) t t'"
proof -
  have K: "20 \<le> K" "size0 b = 0" using ok by (simp_all add: console_ok_def)
  have dec: "\<exists>t'. append_current (uintTo_StringOutput b)
        (t\<lparr>t_mem := inttostr (uintTo_StringOutput b) 0 x (t_mem t)\<rparr>) = Some t' \<and>
      prints K S [dec_digits (unat x)] t t'" if "dec_buffer b \<subseteq> S" for x
    using K length_dec_digits_u64 [of x] that dec_digits_ne [of "unat x"]
    by (intro append_current_prints [OF ok S(1) _ inttostr_cstr] statics_frame statics_apart [OF ok]) auto
  have hex: "\<exists>t'. append_current (hexTo_StringOutput b)
        (t\<lparr>t_mem := inttohstr64 (hexTo_StringOutput b) (stack b) x (t_mem t)\<rparr>) = Some t' \<and>
      prints K S [hex_digits 16 x] t t'" if "hex_buffer b \<subseteq> S" for x
    using K inttohstr64_cstr [of "hexTo_StringOutput b" "stack b" x "t_mem t"] that
    by (intro append_current_prints [OF ok S(1) _ inttohstr64_cstr] statics_frame statics_apart [OF ok]) (auto simp: hex_digits_def)
  have str: "\<exists>t'. append_current q t = Some t' \<and> prints K S [stored s] t t'" if "pc = String q s" for q s
    using append_current_prints [OF ok S(1), of "t_mem t" q s] p(1) W that by auto
  note d = directive_def va_int_def Let_def inttostr_int_def K(2)
  show ?thesis
  proof (cases pc)
    case (Plain c)
    then show ?thesis using a by simp
  next
    case (Unsigned x)
    with p(2) c2 a S(2) dec [of x] show ?thesis by (auto simp: d)
  next
    case (Signed x)
    with p(2) c2 a S(2) dec [of "sext (ucast x :: i32)"] show ?thesis by (auto simp: d)
  next
    case (Hexa x)
    with p(2) c2 a S(2) hex [of x] show ?thesis by (auto simp: d)
  next
    case (Pointer x)
    with p(2) c2 a S(2) dec [of x] show ?thesis by (auto simp: d)
  next
    case (Character x)
    with p c2 a S(2) append_char_prints [OF ok S(1), of "ucast x"] show ?thesis by (auto simp: d)
  next
    case (String q s)
    with p(2) c2 a str show ?thesis by (auto simp: d)
  next
    case (Colour x)
    with p(2) c2 a prints_refl show ?thesis by (auto simp: d)
  qed
qed

text \<open>The bytes of the rest of a format.\<close>

lemma format_byte:
  assumes "cstr m str F" "length F < 2147483648" "drop i F = xs" "i \<le> length F" "j \<le> length xs"
  shows "m (str + sext (of_nat i + of_nat j :: i32)) = (xs @ [0]) ! j"
proof -
  have l: "length F = i + length xs" using assms(3,4) by auto
  have s: "sext (of_nat i + of_nat j :: i32) = (of_nat (i + j) :: u64)"
    using assms(2,5) l sext_of_nat [of "i + j"] by simp
  show ?thesis
  proof (cases "j < length xs")
    case True
    then have "xs ! j = F ! (i + j)" using assms(3,4) by auto
    then show ?thesis using cstr_nth [OF assms(1), of "i + j"] True l s by (simp add: nth_append)
  next
    case False
    then have "j = length xs" using assms(5) by simp
    then show ?thesis using cstr_end [OF assms(1)] l s by (simp add: nth_append)
  qed
qed

lemma format_Cons: "format (p # ps) = piece_code p @ format ps"
  by (simp add: format_def)

lemma piece_code_cases:
  obtains c where "p = Plain c"
  | c1 cs where "piece_code p = 37 # c1 # cs" "\<exists>a. piece_args p = [a]" "\<And>c. p \<noteq> Plain c" "length cs \<le> 1"
  by (cases p) auto

lemma piece_code_nonempty: "piece_code p \<noteq> []"
  by (cases p) simp_all

lemma format_rest:
  assumes "drop i F = format (p # ps)" and "i \<le> length F"
  shows "length F = i + length (piece_code p) + length (format ps)" "drop (i + length (piece_code p)) F = format ps"
proof -
  have "length (drop i F) = length (piece_code p) + length (format ps)" using assms(1) by (simp add: format_Cons)
  then show "length F = i + length (piece_code p) + length (format ps)" using assms(2) by simp
  show "drop (i + length (piece_code p)) F = format ps"
    using arg_cong [OF assms(1), of "drop (length (piece_code p))"] by (simp add: format_Cons add.commute)
qed

text \<open>The rounds of the loop that one piece takes.\<close>

lemma printf_loop_piece:
  fixes v :: "'d va_list"
  assumes F: "length F < 2147483648" and str: "cstr (t_mem t) str F" and i: "i \<le> length F" "drop i F = format (p # ps)"
    and ok: "console_ok K b (current t)" and W: "W = S \<union> vt_span K (current t)" and S: "S \<subseteq> statics b" "piece_buffer b p \<subseteq> S"
    and p: "piece_ok K W (t_mem t) (hd (format ps @ [0])) p"
    and a: "\<And>j. j < length (piece_args p) \<Longrightarrow> gp v (gp_pos v + j) = piece_args p ! j"
  shows "\<exists>t1. printf_loop fp b str (of_nat i) (v, t) = printf_loop fp b str (of_nat (i + length (piece_code p)))
      (v\<lparr>gp_pos := gp_pos v + length (piece_args p)\<rparr>, t1) \<and> prints K S (printed p) t t1"
proof -
  note byte = format_byte [OF str F i(2,1)]
  show ?thesis
  proof (cases rule: piece_code_cases [of p])
    case (1 c)
    then have c: "c \<noteq> 0" "c \<noteq> 37" "t_mem t (str + sext (of_nat i :: i32)) = c"
      using p byte [of 0] by (simp_all add: format_Cons)
    obtain t1 where t1: "append_current (chartostrOutput b) (t\<lparr>t_mem := chartostr (chartostrOutput b) c (t_mem t)\<rparr>) = Some t1"
      "prints K S [[c]] t t1"
      using append_char_prints [OF ok S(1)] S(2) 1 by auto
    have "printf_loop fp b str (of_nat i) (v, t) = printf_loop fp b str (of_nat (i + length (piece_code p)))
        (v\<lparr>gp_pos := gp_pos v + length (piece_args p)\<rparr>, t1)"
      using c t1(1) 1 by (simp add: printf_loop.simps [of _ _ _ "of_nat i"] Let_def add.commute)
    then show ?thesis using t1(2) 1 by auto
  next
    case (2 c1 cs)
    have c: "t_mem t (str + sext (of_nat i :: i32)) = 37" "t_mem t (str + sext (of_nat i + 1 :: i32)) = c1"
      "t_mem t (str + sext (of_nat i + 2 :: i32)) = hd (cs @ [hd (format ps @ [0])])"
      using 2 byte [of 0] byte [of 1] byte [of 2]
      by (simp_all add: format_Cons) (cases cs; cases "format ps"; simp)+
    have a1: "piece_args p = [gp v (gp_pos v)]" using 2(2) a [of 0] by auto
    obtain t1 where t1: "directive fp b c1 (hd (cs @ [hd (format ps @ [0])])) (v, t) =
        Some (of_nat (length cs), v\<lparr>gp_pos := gp_pos v + 1\<rparr>, t1)" "prints K S (printed p) t t1"
      using directive_prints [OF ok W S p 2(1) HOL.refl a1] by blast
    have e: "of_nat i + of_nat (length cs) + 1 + 1 = (of_nat (i + length (piece_code p)) :: i32)"
      using 2(1) by (simp add: algebra_simps)
    have "printf_loop fp b str (of_nat i) (v, t) =
        printf_loop fp b str (of_nat (i + length (piece_code p))) (v\<lparr>gp_pos := gp_pos v + 1\<rparr>, t1)"
      using c t1(1) by (subst printf_loop.simps) (simp add: Let_def del: of_nat_add flip: e)
    then show ?thesis using t1(2) a1 by auto
  qed
qed

lemma printf_loop_prints:
  fixes v :: "'d va_list"
  assumes F: "length F < 2147483648"
    and S: "S \<subseteq> statics b" and W: "W = S \<union> vt_span K (current t)" "span str (Suc (length F)) \<inter> W = {}"
  shows "console_ok K b (current t) \<Longrightarrow> cstr (t_mem t) str F \<Longrightarrow> i \<le> length F \<Longrightarrow> drop i F = format ps \<Longrightarrow>
    pieces_ok K W (t_mem t) ps \<Longrightarrow> buffers_used b ps \<subseteq> S \<Longrightarrow>
    (\<And>j. j < length (concat (map piece_args ps)) \<Longrightarrow> gp v (gp_pos v + j) = concat (map piece_args ps) ! j) \<Longrightarrow>
    \<exists>t'. printf_loop fp b str (of_nat i) (v, t) = Some t' \<and> prints K S (concat (map printed ps)) t t'"
  using W
proof (induction ps arbitrary: t v i)
  case Nil
  then have "t_mem t (str + sext (of_nat i :: i32)) = 0"
    using format_byte [OF Nil(2) F Nil(4) Nil(3), of 0] by (simp add: format_def)
  then show ?case using prints_refl by (simp add: printf_loop.simps Let_def)
next
  case (Cons p ps)
  have p: "piece_ok K W (t_mem t) (hd (format ps @ [0])) p" "pieces_ok K W (t_mem t) ps"
    using Cons.prems(5) by simp_all
  have used: "piece_buffer b p \<subseteq> S" "buffers_used b ps \<subseteq> S" using Cons.prems(6) by (simp_all add: buffers_used_def)
  have "gp v (gp_pos v + j) = piece_args p ! j" if "j < length (piece_args p)" for j
    using that Cons.prems(7) [of j] by (simp add: nth_append)
  from printf_loop_piece [OF F Cons.prems(2,3,4,1,8) S used(1) p(1) this] obtain t1 where
    t1: "printf_loop fp b str (of_nat i) (v, t) = printf_loop fp b str (of_nat (i + length (piece_code p)))
      (v\<lparr>gp_pos := gp_pos v + length (piece_args p)\<rparr>, t1)" "prints K S (printed p) t t1" by blast
  note l = format_rest [OF Cons.prems(4,3)]
  have W1: "W = S \<union> vt_span K (current t1)" using Cons.prems(8) prints_current(3) [OF t1(2)] by simp
  have fr: "a \<notin> W \<Longrightarrow> t_mem t1 a = t_mem t a" for a using t1(2) Cons.prems(8) by (simp add: prints_def)
  have "console_ok K b (current t1)" using Cons.prems(1) prints_current(4) [OF t1(2)] by simp
  moreover have "cstr (t_mem t1) str F"
    using Cons.prems(9) F by (intro cstr_span [OF Cons.prems(2)] fr) auto
  moreover have "K < 18446744073709551615" using Cons.prems(1) by (simp add: console_ok_def)
  then have "pieces_ok K W (t_mem t1) ps" using fr p(2) by (blast intro: pieces_ok_frame)
  moreover have "gp v (gp_pos v + length (piece_args p) + j) = concat (map piece_args ps) ! j"
    if "j < length (concat (map piece_args ps))" for j
    using that Cons.prems(7) [of "length (piece_args p) + j"] by (simp add: add.assoc)
  ultimately have "\<exists>t'. printf_loop fp b str (of_nat (i + length (piece_code p)))
        (v\<lparr>gp_pos := gp_pos v + length (piece_args p)\<rparr>, t1) = Some t' \<and> prints K S (concat (map printed ps)) t1 t'"
    using l used(2) Cons.prems(9) W1 by (intro Cons.IH) simp_all
  then show ?case using prints_trans [OF t1(2)] by (auto simp: t1(1))
qed

text \<open>What \<open>printf\<close> to a terminal does: the strings are appended to that terminal.\<close>

definition prints_to :: "nat \<Rightarrow> u64 set \<Rightarrow> u32 \<Rightarrow> u8 list list \<Rightarrow> terminals \<Rightarrow> terminals \<Rightarrow> bool" where
  "prints_to K S n ss t t' \<longleftrightarrow>
     (\<exists>i m. t' = t\<lparr>VirtualTerminals := (VirtualTerminals t)(n := (VirtualTerminals t n)\<lparr>vt_index := i\<rparr>), t_mem := m\<rparr>) \<and>
     shown (VirtualTerminals t' n) (t_mem t') =
       fold (add_text (unat (maxLen (VirtualTerminals t n)))) ss (shown (VirtualTerminals t n) (t_mem t)) \<and>
     (\<forall>a. a \<notin> S \<union> vt_span K (VirtualTerminals t n) \<longrightarrow> t_mem t' a = t_mem t a)"

lemma prints_toE:
  assumes "prints_to K S n ss t t'"
  obtains i m where "t' = t\<lparr>VirtualTerminals := (VirtualTerminals t)(n := (VirtualTerminals t n)\<lparr>vt_index := i\<rparr>), t_mem := m\<rparr>"
    "shown ((VirtualTerminals t n)\<lparr>vt_index := i\<rparr>) m =
      fold (add_text (unat (maxLen (VirtualTerminals t n)))) ss (shown (VirtualTerminals t n) (t_mem t))"
    "\<And>a. a \<notin> S \<union> vt_span K (VirtualTerminals t n) \<Longrightarrow> m a = t_mem t a"
  using assms by (auto simp: prints_to_def)

lemma printf_to_prints:
  assumes ok: "console_ok K b (VirtualTerminals t n)" and W: "W = buffers_used b ps \<union> vt_span K (VirtualTerminals t n)"
    and f: "cstr (t_mem t) str (format ps)" "length (format ps) < 2147483648" "span str (Suc (length (format ps))) \<inter> W = {}"
    and ps: "pieces_ok K W (t_mem t) ps"
    and args: "\<And>j. j < length (concat (map piece_args ps)) \<Longrightarrow> gp args (gp_pos args + j) = concat (map piece_args ps) ! j"
  shows "\<exists>t'. printf_to fp b n str args t = Some t' \<and> prints_to K (buffers_used b ps) n (concat (map printed ps)) t t'"
proof -
  let ?t = "t\<lparr>CurrentTerminal := n\<rparr>" and ?S = "buffers_used b ps"
  have "\<exists>t'. printf_loop fp b str (of_nat 0) (args, ?t) = Some t' \<and> prints K ?S (concat (map printed ps)) ?t t'"
    by (rule printf_loop_prints [where F = "format ps" and W = W and S = ?S])
      (use assms in \<open>simp_all add: buffers_used_statics\<close>)
  then obtain t' where r: "printf_loop fp b str 0 (args, ?t) = Some t'" "prints K ?S (concat (map printed ps)) ?t t'"
    by auto
  from r(2) obtain i m where t': "t' = ?t\<lparr>VirtualTerminals := (VirtualTerminals t)(n := (VirtualTerminals t n)\<lparr>vt_index := i\<rparr>), t_mem := m\<rparr>"
    by (auto simp: prints_def)
  have "prints_to K ?S n (concat (map printed ps)) t (t'\<lparr>CurrentTerminal := CurrentTerminal t\<rparr>)"
    unfolding prints_to_def using r(2) by (intro conjI exI [of _ i] exI [of _ m]) (simp_all add: t' prints_def)
  then show ?thesis using r(1) by (auto simp: printf_to_def vprintf_def Let_def)
qed

section \<open>Properties\<close>


definition example_buffers :: buffers where
  "example_buffers = \<lparr>chartostrOutput = 0x1000, uintTo_StringOutput = 0x2000, intTo_StringOutput = 0x2100,
     doubleTo_StringOutput = 0x2200, hexTo_StringOutput = 0x3000, size0 = 0, stack = (\<lambda>_. 0)\<rparr>"

definition example_console :: terminals where
  "example_console = \<lparr>VirtualTerminals = (\<lambda>_. \<lparr>vt_buffer = 0x10000, maxLen = 0x1000, vt_index = 0, initialized = True\<rparr>),
     CurrentTerminal = 2, t_mem = put_str 0x200 (bytes_of ''idle'') (put_str 0x100 (bytes_of ''%s: %u'') (\<lambda>_. 0))\<rparr>"

lemma example_console_ok:
  "console_ok 20 example_buffers (VirtualTerminals example_console vt)"
  "unat a + n \<le> 0x1000 \<Longrightarrow>
     span a n \<inter> (statics example_buffers \<union> vt_span 20 (VirtualTerminals example_console vt)) = {}"
proof -
  have d: "span (0x1000 :: u64) 2 \<inter> span 0x10000 4116 = {}" "span (0x2000 :: u64) 128 \<inter> span 0x10000 4116 = {}"
    "span (0x2FF2 :: u64) 142 \<inter> span 0x10000 4116 = {}"
    by (rule span_disjoint; simp)+
  then show "console_ok 20 example_buffers (VirtualTerminals example_console vt)"
    by (simp add: console_ok_def static_defs vt_span_def example_buffers_def example_console_def Int_Un_distrib2)
  assume "unat a + n \<le> 0x1000"
  then have "span a n \<inter> span 0x1000 2 = {}" "span a n \<inter> span 0x2000 128 = {}" "span a n \<inter> span 0x2FF2 142 = {}"
    "span a n \<inter> span 0x10000 4116 = {}"
    by (simp_all add: span_disjoint)
  then show "span a n \<inter> (statics example_buffers \<union> vt_span 20 (VirtualTerminals example_console vt)) = {}"
    by (simp add: static_defs vt_span_def example_buffers_def example_console_def Int_Un_distrib)
qed


end
