(* ===== verification/KernelConsole.thy ===== *)
theory KernelConsole
  imports Kernel Console
begin

text \<open>
  What the kernel writes to its terminals: \<open>printf\<close> and the lines of the log over the whole state.
\<close>

section \<open>Printing\<close>

text \<open>The strings are appended to terminal \<open>n\<close>, and besides it only the static buffers \<open>S\<close> change.\<close>

definition appends :: "nat \<Rightarrow> u64 set \<Rightarrow> u32 \<Rightarrow> u8 list list \<Rightarrow> 'd kernel \<Rightarrow> 'd kernel \<Rightarrow> bool" where
  "appends K S n strs k k' \<longleftrightarrow>
     (\<exists>i m. k' = k\<lparr>k_vts := (k_vts k)(n := (k_vts k n)\<lparr>vt_index := i\<rparr>), k_mem := m\<rparr>) \<and>
     shown (k_vts k' n) (k_mem k') = fold (add_text (unat (maxLen (k_vts k n)))) strs (shown (k_vts k n) (k_mem k)) \<and>
     (\<forall>a. a \<notin> S \<union> vt_span K (k_vts k n) \<longrightarrow> k_mem k' a = k_mem k a)"

lemma appendsE:
  assumes "appends K S n strs k k'"
  obtains i m where "k' = k\<lparr>k_vts := (k_vts k)(n := (k_vts k n)\<lparr>vt_index := i\<rparr>), k_mem := m\<rparr>"
    "shown ((k_vts k n)\<lparr>vt_index := i\<rparr>) m = fold (add_text (unat (maxLen (k_vts k n)))) strs (shown (k_vts k n) (k_mem k))"
    "\<And>a. a \<notin> S \<union> vt_span K (k_vts k n) \<Longrightarrow> m a = k_mem k a"
  using assms by (auto simp: appends_def)

lemma k_printf_to_appends:
  fixes k :: "'d kernel" and E :: "'d env"
  assumes "console_ok K (env_buffers E) (k_vts k n)" and W: "W = buffers_used (env_buffers E) ps \<union> vt_span K (k_vts k n)"
    and "cstr (k_mem k) (env_lit E fmt) (format ps)" and "length (format ps) < 2147483648"
    and "span (env_lit E fmt) (Suc (length (format ps))) \<inter> W = {}"
    and "pieces_ok K W (k_mem k) ps" and args: "args = concat (map piece_args ps)"
  shows "\<exists>k'. k_printf_to E n fmt args k = Some k' \<and> appends K (buffers_used (env_buffers E) ps) n (concat (map printed ps)) k k'"
proof -
  let ?S = "buffers_used (env_buffers E) ps"
  have t: "VirtualTerminals (terms_of k) = k_vts k" "t_mem (terms_of k) = k_mem k" by (simp_all add: terms_of_def)
  have a: "gp (log_args (env_fs E) args (env_rest E)) (gp_pos (log_args (env_fs E) args (env_rest E)) + j) =
      concat (map piece_args ps) ! j" if "j < length (concat (map piece_args ps))" for j
    using that by (simp add: log_args_def args)
  have "\<exists>t'. printf_to (env_fp E) (env_buffers E) n (env_lit E fmt) (log_args (env_fs E) args (env_rest E)) (terms_of k) = Some t' \<and>
      prints_to K ?S n (concat (map printed ps)) (terms_of k) t'"
    using printf_to_prints [where t = "terms_of k" and b = "env_buffers E" and W = W and K = K and n = n, unfolded t, OF assms(1-6) a] by blast
  then obtain t' where t': "printf_to (env_fp E) (env_buffers E) n (env_lit E fmt) (log_args (env_fs E) args (env_rest E)) (terms_of k) = Some t'"
    "prints_to K ?S n (concat (map printed ps)) (terms_of k) t'" by blast
  from t'(2) obtain i m where p: "t' = (terms_of k)\<lparr>VirtualTerminals := (k_vts k)(n := (k_vts k n)\<lparr>vt_index := i\<rparr>), t_mem := m\<rparr>"
    "shown ((k_vts k n)\<lparr>vt_index := i\<rparr>) m =
      fold (add_text (unat (maxLen (k_vts k n)))) (concat (map printed ps)) (shown (k_vts k n) (k_mem k))"
    "\<And>a. a \<notin> ?S \<union> vt_span K (k_vts k n) \<Longrightarrow> m a = k_mem k a"
    by (rule prints_toE) (unfold t, blast)
  let ?k = "k\<lparr>k_vts := (k_vts k)(n := (k_vts k n)\<lparr>vt_index := i\<rparr>), k_mem := m\<rparr>"
  have "k_printf_to E n fmt args k = Some ?k"
    unfolding k_printf_to_def t'(1) p(1) by (simp add: put_terms_def terms_of_def)
  moreover have "appends K ?S n (concat (map printed ps)) k ?k"
    unfolding appends_def using p(2,3) by (intro conjI exI [of _ i] exI [of _ m]) simp_all
  ultimately show ?thesis by blast
qed

section \<open>The log\<close>

definition warn_pieces :: "u64 \<Rightarrow> u64 \<Rightarrow> u64 \<Rightarrow> u64 \<Rightarrow> u8 list \<Rightarrow> piece list" where
  "warn_pieces h mi s p txt =
     [Plain 91, Colour 0xffff00, Signed h, Plain 58, Signed mi, Plain 58, Signed s, Plain 47, Plain 87, Plain 65,
      Plain 82, Plain 78, Colour 0xffffff, Plain 93, Plain 32, String p txt, Plain 10]"

abbreviation warn_format :: string where "warn_format \<equiv> ''[%co%d:%d:%d/WARN%co] %s\<newline>''"

lemma warn_pieces_format: "format (warn_pieces h mi s p txt) = bytes_of warn_format"
  by (simp add: format_def warn_pieces_def bytes_of_def)

lemma warn_pieces_buffers: "buffers_used b (warn_pieces h mi s p txt) = char_buffer b \<union> dec_buffer b"
  by (auto simp: buffers_used_def warn_pieces_def)

text \<open>A warning is appended to terminal 0, unless the clock is never read.\<close>

lemma k_LogWarn_appends:
  fixes k :: "'d kernel" and E :: "'d env"
  defines "S \<equiv> char_buffer (env_buffers E) \<union> dec_buffer (env_buffers E)"
  assumes "console_ok K (env_buffers E) (k_vts k 0)" and W: "W = S \<union> vt_span K (k_vts k 0)"
    and "cstr (k_mem k) (env_lit E warn_format) (bytes_of warn_format)" and "span (env_lit E warn_format) 26 \<inter> W = {}"
    and "cstr (k_mem k) p txt" and "length txt \<le> K" and "span p (Suc (length txt)) \<inter> W = {}"
  shows "k_LogWarn E p k = None \<or> (\<exists>k' strs. k_LogWarn E p k = Some k' \<and> appends K S 0 strs k (k'\<lparr>k_trace := k_trace k\<rparr>))"
proof (cases "k_LogWarn E p k")
  case (Some k')
  from Some obtain s mi h tr1 tr2 tr3 t where clock: "RTCreadSeconds (env_hw E) (k_trace k) = Some (s, tr1)"
    "RTCreadMinutes (env_hw E) tr1 = Some (mi, tr2)" "RTCreadHours (env_hw E) tr2 = Some (h, tr3)"
    and t: "printf_to (env_fp E) (env_buffers E) 0 (env_lit E warn_format)
        (log_args (env_fs E) [0xffff00, ucast h, ucast mi, ucast s, 0xffffff, p] (env_rest E)) (terms_of k) = Some t"
    and k': "k' = (put_terms t k)\<lparr>k_trace := tr3\<rparr>"
    by (auto simp: k_LogWarn_def LogWarn_def log_line_def bind_eq_Some_conv)
  let ?ps = "warn_pieces (ucast h) (ucast mi) (ucast s) p txt"
  have l: "Suc (length (bytes_of warn_format)) = 26" by (simp add: bytes_of_def)
  have "\<exists>k''. k_printf_to E 0 warn_format [0xffff00, ucast h, ucast mi, ucast s, 0xffffff, p] k = Some k'' \<and>
      appends K (buffers_used (env_buffers E) ?ps) 0 (concat (map printed ?ps)) k k''"
  proof (rule k_printf_to_appends)
    show "W = buffers_used (env_buffers E) ?ps \<union> vt_span K (k_vts k 0)" by (simp add: W S_def warn_pieces_buffers)
    show "pieces_ok K W (k_mem k) ?ps" using assms(6-8) by (simp add: warn_pieces_def)
    show "[0xffff00, ucast h, ucast mi, ucast s, 0xffffff, p] = concat (map piece_args ?ps)" by (simp add: warn_pieces_def)
  qed (use assms(2,4,5) l in \<open>simp_all add: warn_pieces_format\<close>)
  then have "appends K S 0 (concat (map printed ?ps)) k (put_terms t k)"
    by (simp add: k_printf_to_def t warn_pieces_buffers S_def)
  moreover have "k'\<lparr>k_trace := k_trace k\<rparr> = put_terms t k" by (simp add: k' put_terms_def)
  ultimately show ?thesis using Some by auto
qed simp

end
