(* ===== verification/Mlib.thy ===== *)
theory Mlib
  imports Boot KernelConsole
begin

unbundle bit_operations_syntax

text \<open>
  The C library of user programs, \<open>mlib/\<close>, and the first program, \<open>apps/minit/src/main.cpp\<close>.  A
  library function acts on the state of the kernel, through the system call it makes; the timer
  interrupts that come in between are not part of it.
\<close>

section \<open>ctype\<close>

text \<open>Characters are of type \<open>int\<close>, and so are the truth values.\<close>

definition between :: "i32 \<Rightarrow> int \<Rightarrow> int \<Rightarrow> bool" where
  "between c lo hi \<longleftrightarrow> lo \<le> sint c \<and> sint c \<le> hi"

definition isupper :: "i32 \<Rightarrow> i32" where "isupper c = of_bool (between c 65 90)"
definition islower :: "i32 \<Rightarrow> i32" where "islower c = of_bool (between c 97 122)"
definition isdigit :: "i32 \<Rightarrow> i32" where "isdigit c = of_bool (between c 48 57)"
definition isgraph :: "i32 \<Rightarrow> i32" where "isgraph c = of_bool (between c 33 126)"
definition iscntrl :: "i32 \<Rightarrow> i32" where "iscntrl c = of_bool (between c 0 31)"
definition isalpha :: "i32 \<Rightarrow> i32" where
  "isalpha c = of_bool (between c 65 90 \<or> between c 97 122)"
definition isalnum :: "i32 \<Rightarrow> i32" where
  "isalnum c = of_bool (between c 48 57 \<or> between c 65 90 \<or> between c 97 122)"
definition isxdigit :: "i32 \<Rightarrow> i32" where
  "isxdigit c = of_bool (between c 48 57 \<or> between c 97 102 \<or> between c 65 70)"
definition isspace :: "i32 \<Rightarrow> i32" where
  "isspace c = of_bool (c = 32 \<or> c = 10 \<or> c = 13 \<or> c = 9)"
definition isprint :: "i32 \<Rightarrow> i32" where "isprint c = of_bool (31 \<le> sint c)"
definition ispunct :: "i32 \<Rightarrow> i32" where "ispunct c = of_bool (isalnum c = 0 \<and> isgraph c \<noteq> 0)"

definition tolower :: "i32 \<Rightarrow> i32" where
  "tolower c = (if islower c \<noteq> 0 \<or> isalpha c = 0 then c else c + 32)"

text \<open>The function in \<open>toupper.cpp\<close> is called \<open>tolower\<close> too.\<close>

definition toupper :: "i32 \<Rightarrow> i32" where
  "toupper c = (if isupper c \<noteq> 0 \<or> isalpha c = 0 then c else c - 32)"

section \<open>System calls\<close>

definition SYS_WRITEC :: u8 where "SYS_WRITEC = 0x1"
definition SYS_READ :: u8 where "SYS_READ = 0x2"
definition SYS_OPEN :: u8 where "SYS_OPEN = 0x3"
definition SYS_GETTERMINALOUTPUT :: u8 where "SYS_GETTERMINALOUTPUT = 0x4"
definition SYS_GETPROCESSTERMINAL :: u8 where "SYS_GETPROCESSTERMINAL = 0x5"
definition SYS_ALLOCATEMEMORY :: u8 where "SYS_ALLOCATEMEMORY = 0x6"
definition SYS_GETPIDBYNAME :: u8 where "SYS_GETPIDBYNAME = 0x7"
definition SYS_GETPID :: u8 where "SYS_GETPID = 0x8"
definition SYS_GETTERMINALBYPID :: u8 where "SYS_GETTERMINALBYPID = 0x9"
definition SYS_EXIT :: u8 where "SYS_EXIT = 0xFF"
definition COUT :: u64 where "COUT = 1"

lemmas sys_defs = SYS_WRITEC_def SYS_READ_def SYS_OPEN_def SYS_GETTERMINALOUTPUT_def
  SYS_GETPROCESSTERMINAL_def SYS_ALLOCATEMEMORY_def SYS_GETPIDBYNAME_def SYS_GETPID_def
  SYS_GETTERMINALBYPID_def SYS_EXIT_def COUT_def

text \<open>
  \<open>mov r8,rcx\<close> puts the third argument where the handler looks for it; the fourth one, in \<open>r8\<close>,
  is lost.  \<open>syscall\<close> leaves the return address in \<open>rcx\<close>: it and \<open>r9\<close> are the pair \<open>regs\<close>.
\<close>

type_synonym 'd syscall = "'d kernel \<Rightarrow> (u64 \<times> 'd kernel) result option"

definition sys_call :: "'d env \<Rightarrow> u64 \<times> u64 \<Rightarrow> u8 \<Rightarrow> u64 \<Rightarrow> u64 \<Rightarrow> u64 \<Rightarrow> u64 \<Rightarrow> 'd syscall" where
  "sys_call E regs syscall arg1 arg2 arg3 arg4 =
     SyscallHandler E (ucast syscall) arg1 arg2 (fst regs) arg3 (snd regs)"

definition no_value :: "'d syscall \<Rightarrow> 'd kstep" where
  "no_value f k = map_option (map_sum id snd) (f k)"

text \<open>After the call the program spins: the result is the state in which it does.\<close>

definition mlib_exit :: "'d env \<Rightarrow> u64 \<times> u64 \<Rightarrow> u64 \<Rightarrow> 'd kstep" where
  "mlib_exit E regs code = no_value (sys_call E regs SYS_EXIT code 0 0 0)"

definition sys_getterminaloutput :: "'d env \<Rightarrow> u64 \<times> u64 \<Rightarrow> u64 \<Rightarrow> 'd syscall" where
  "sys_getterminaloutput E regs vt = sys_call E regs SYS_GETTERMINALOUTPUT vt 0 0 0"
definition sys_getprocessterminal :: "'d env \<Rightarrow> u64 \<times> u64 \<Rightarrow> 'd syscall" where
  "sys_getprocessterminal E regs = sys_call E regs SYS_GETPROCESSTERMINAL 0 0 0 0"
definition sys_getpid :: "'d env \<Rightarrow> u64 \<times> u64 \<Rightarrow> 'd syscall" where
  "sys_getpid E regs = sys_call E regs SYS_GETPID 0 0 0 0"
definition sys_getpidbyname :: "'d env \<Rightarrow> u64 \<times> u64 \<Rightarrow> u64 \<Rightarrow> 'd syscall" where
  "sys_getpidbyname E regs name = sys_call E regs SYS_GETPIDBYNAME name 0 0 0"
definition sys_getterminalbypid :: "'d env \<Rightarrow> u64 \<times> u64 \<Rightarrow> u64 \<Rightarrow> 'd syscall" where
  "sys_getterminalbypid E regs pid = sys_call E regs SYS_GETTERMINALBYPID pid 0 0 0"

section \<open>stdlib and stdio\<close>

definition malloc_pages :: "u64 \<Rightarrow> u64" where
  "malloc_pages sz = (let pages = sz div 4096 in if sz mod 4096 \<noteq> 0 then pages + 1 else pages)"

definition mlib_malloc :: "'d env \<Rightarrow> u64 \<times> u64 \<Rightarrow> u64 \<Rightarrow> 'd syscall" where
  "mlib_malloc E regs sz = sys_call E regs SYS_ALLOCATEMEMORY (malloc_pages sz) 0 0 0"

definition putchar :: "'d env \<Rightarrow> u64 \<times> u64 \<Rightarrow> i32 \<Rightarrow> 'd kstep" where
  "putchar E regs ch = no_value (sys_call E regs SYS_WRITEC (sext ch) COUT 0 0)"

partial_function (option) puts_from :: "'d env \<Rightarrow> u64 \<times> u64 \<Rightarrow> u64 \<Rightarrow> i32 \<Rightarrow> 'd kstep" where
  "puts_from E regs str i k =
     (let c = k_mem k (str + sext i)
      in if c \<noteq> 0
         then case putchar E regs (scast c) k of
                None \<Rightarrow> None
              | Some (Inl e) \<Rightarrow> Some (Inl e)
              | Some (Inr k) \<Rightarrow> puts_from E regs str (i + 1) k
         else Some (Inr k))"

definition mlib_puts :: "'d env \<Rightarrow> u64 \<times> u64 \<Rightarrow> u64 \<Rightarrow> 'd kstep" where
  "mlib_puts E regs str = puts_from E regs str 0"

definition fopen :: "'d env \<Rightarrow> u64 \<times> u64 \<Rightarrow> u64 \<Rightarrow> u64 \<Rightarrow> 'd syscall" where
  "fopen E regs name mode = sys_call E regs SYS_OPEN name mode 0 0"

definition fread :: "'d env \<Rightarrow> u64 \<times> u64 \<Rightarrow> u64 \<Rightarrow> u64 \<Rightarrow> u64 \<Rightarrow> u64 \<Rightarrow> 'd kstep" where
  "fread E regs dest sizeData numbersData fd =
     no_value (sys_call E regs SYS_READ dest fd (sizeData * numbersData) 0)"

section \<open>minit\<close>

text \<open>\<open>f (g ())\<close> for a system call \<open>g\<close>.\<close>

definition with_value :: "'d syscall \<Rightarrow> (u64 \<Rightarrow> 'd kstep) \<Rightarrow> 'd kstep" where
  "with_value g f k =
     (case g k of None \<Rightarrow> None | Some (Inl e) \<Rightarrow> Some (Inl e) | Some (Inr (v, k)) \<Rightarrow> f v k)"

definition put_digit :: "'d env \<Rightarrow> u64 \<times> u64 \<Rightarrow> u64 \<Rightarrow> 'd kstep" where
  "put_digit E regs v = putchar E regs (ucast (v + 48))"

definition moldMain :: "'d env \<Rightarrow> u64 \<times> u64 \<Rightarrow> 'd kstep" where
  "moldMain E regs =
     (let puts' = (\<lambda>s. mlib_puts E regs (env_lit E s))
      in steps
       [puts' ''Welcome to moldOS!\<newline>'',
        puts' ''By Moldu' (Nov. 2020 - Jan. 2022)\<newline>\<newline>'',
        puts' (CHR 0x1B # ''[1;30mCOLOUR!\<newline>''),
        puts' (CHR 0x1B # ''[1;31mCOLOUR!\<newline>''),
        puts' (CHR 0x1B # ''[1;32mCOLOUR!\<newline>''),
        puts' (CHR 0x1B # ''[1;33mCOLOUR!\<newline>''),
        puts' (CHR 0x1B # ''[1;34mCOLOUR!\<newline>''),
        puts' (CHR 0x1B # ''[1;35mCOLOUR!\<newline>''),
        puts' (CHR 0x1B # ''[1;36mCOLOUR!\<newline>''),
        puts' (CHR 0x1B # ''[1;37mCOLOUR!\<newline>''),
        puts' ''\<newline>Process' terminal no': '',
        with_value (sys_getprocessterminal E regs) (put_digit E regs),
        putchar E regs 10,
        puts' ''\<newline>Process' pid: '',
        with_value (sys_getpid E regs) (put_digit E regs),
        putchar E regs 10,
        puts' ''\<newline>'/minit.melf' task's pid: '',
        with_value (sys_getpidbyname E regs (env_lit E ''/minit.melf'')) (put_digit E regs),
        putchar E regs 10,
        puts' ''\<newline>Idle task's pid: '',
        with_value (sys_getpidbyname E regs (env_lit E ''Idle Task'')) (put_digit E regs),
        putchar E regs 10,
        puts' ''\<newline>Contents of /sample.text: \<newline>'',
        with_value (mlib_malloc E regs 4096) (\<lambda>buffer. steps
          [with_value (fopen E regs (env_lit E ''/sample.text'') (env_lit E ''r'')) (fread E regs buffer 43 1),
           mlib_puts E regs buffer]),
        mlib_exit E regs 2021])"

section \<open>Writing to the console\<close>

lemma byte_through_int: "ucast (sext (scast (c :: u8) :: i32) :: u64) = c"
  by (rule bit_word_eqI) (simp add: sext_def bit_simps)

text \<open>The terminal of the current task, what it shows, and the bytes a write to it may change.\<close>

definition task_terminal :: "'d kernel \<Rightarrow> vterminal" where
  "task_terminal k = k_vts k (terminal (CurrentTask k))"

definition console_bytes :: "nat \<Rightarrow> 'd env \<Rightarrow> 'd kernel \<Rightarrow> u64 set" where
  "console_bytes K E k = statics (env_buffers E) \<union> vt_span K (task_terminal k)"

text \<open>Characters are appended to the terminal of the current task, and nothing else happens.\<close>

definition types :: "nat \<Rightarrow> 'd env \<Rightarrow> u8 list \<Rightarrow> 'd kernel \<Rightarrow> 'd kernel \<Rightarrow> bool" where
  "types K E s k k' \<longleftrightarrow>
     (\<exists>i m. k' = k\<lparr>k_vts := (k_vts k)(terminal (CurrentTask k) := (task_terminal k)\<lparr>vt_index := i\<rparr>), k_mem := m\<rparr>) \<and>
     shown (task_terminal k') (k_mem k') =
       fold (\<lambda>c. add_text (unat (maxLen (task_terminal k))) [c]) s (shown (task_terminal k) (k_mem k)) \<and>
     (\<forall>a. a \<notin> console_bytes K E k \<longrightarrow> k_mem k' a = k_mem k a)"

lemma types_refl: "types K E [] k k"
  unfolding types_def task_terminal_def
  by (intro conjI exI [of _ "vt_index (task_terminal k)"] exI [of _ "k_mem k"]) (simp_all add: task_terminal_def)

lemma types_trans:
  assumes "types K E s k k'" "types K E s' k' k''"
  shows "types K E (s @ s') k k''"
proof -
  from assms(1) obtain i m where k': "k' = k\<lparr>k_vts := (k_vts k)(terminal (CurrentTask k) := (task_terminal k)\<lparr>vt_index := i\<rparr>), k_mem := m\<rparr>"
    by (auto simp: types_def)
  then have t: "task_terminal k' = (task_terminal k)\<lparr>vt_index := i\<rparr>" "CurrentTask k' = CurrentTask k"
    by (simp_all add: task_terminal_def CurrentTask_def)
  then have "console_bytes K E k' = console_bytes K E k" by (simp add: console_bytes_def)
  moreover have "\<exists>j m'. k'' = k\<lparr>k_vts := (k_vts k)(terminal (CurrentTask k) := (task_terminal k)\<lparr>vt_index := j\<rparr>), k_mem := m'\<rparr>"
    using assms(2) t by (auto simp: types_def k')
  ultimately show ?thesis using assms t(1) by (auto simp: types_def)
qed

text \<open>What a write needs: room, and the format \<open>%c\<close> in its place.\<close>

definition console_ready :: "nat \<Rightarrow> 'd env \<Rightarrow> 'd kernel \<Rightarrow> bool" where
  "console_ready K E k \<longleftrightarrow> console_ok K (env_buffers E) (task_terminal k) \<and>
     cstr (k_mem k) (env_lit E ''%c'') [37, 99] \<and> span (env_lit E ''%c'') 3 \<inter> console_bytes K E k = {}"

lemma types_ready:
  assumes "types K E s k k'" and r: "console_ready K E k"
  shows "console_ready K E k'" and "console_bytes K E k' = console_bytes K E k"
proof -
  from assms(1) obtain i m where k': "k' = k\<lparr>k_vts := (k_vts k)(terminal (CurrentTask k) := (task_terminal k)\<lparr>vt_index := i\<rparr>), k_mem := m\<rparr>"
    and m: "\<And>a. a \<notin> console_bytes K E k \<Longrightarrow> k_mem k' a = k_mem k a"
    by (auto simp: types_def)
  then have t: "task_terminal k' = (task_terminal k)\<lparr>vt_index := i\<rparr>"
    by (simp add: task_terminal_def CurrentTask_def)
  then show b: "console_bytes K E k' = console_bytes K E k" by (simp add: console_bytes_def)
  have "cstr (k_mem k') (env_lit E ''%c'') [37, 99]"
  proof (rule cstr_span)
    show "cstr (k_mem k) (env_lit E ''%c'') [37, 99]" using r by (simp only: console_ready_def)
    show "k_mem k' a = k_mem k a" if "a \<in> span (env_lit E ''%c'') (Suc (length [37, 99 :: u8]))" for a
      using that r by (intro m) (auto simp: console_ready_def numeral_3_eq_3)
  qed simp
  then show "console_ready K E k'" using r t b by (simp add: console_ready_def)
qed

lemma SysConsoleWrite_types:
  assumes r: "console_ready K E k"
  shows "\<exists>k'. SysConsoleWrite E c k = Some k' \<and> types K E [c] k k'"
proof -
  let ?a = "sext (scast c :: i32) :: u64" and ?n = "terminal (CurrentTask k)" and ?S = "char_buffer (env_buffers E)"
  have f: "format [Character ?a] = [37, 99]" and e: "format [] = []" by (simp_all add: format_def)
  have u: "buffers_used (env_buffers E) [Character ?a] = ?S" by (simp add: buffers_used_def)
  have sub: "?S \<union> vt_span K (k_vts k ?n) \<subseteq> console_bytes K E k"
    by (auto simp: console_bytes_def task_terminal_def statics_def)
  have "\<exists>k'. k_printf_to E ?n ''%c'' [?a] k = Some k' \<and>
      appends K (buffers_used (env_buffers E) [Character ?a]) ?n (concat (map printed [Character ?a])) k k'"
  proof (rule k_printf_to_appends [OF _ HOL.refl], unfold f u)
    show "span (env_lit E ''%c'') (Suc (length [37, 99 :: u8])) \<inter> (?S \<union> vt_span K (k_vts k ?n)) = {}"
      using r sub by (auto simp: console_ready_def numeral_3_eq_3)
  qed (use r in \<open>simp_all add: console_ready_def task_terminal_def byte_through_int e\<close>)
  then obtain k' where k': "SysConsoleWrite E c k = Some k'" "appends K ?S ?n [[c]] k k'"
    by (auto simp: SysConsoleWrite_def u byte_through_int)
  from k'(2) have "types K E [c] k k'"
    using sub unfolding appends_def types_def by (auto simp: task_terminal_def CurrentTask_def)
  then show ?thesis using k'(1) by blast
qed

lemma putchar_types:
  assumes "console_ready K E k"
  shows "\<exists>k'. putchar E regs (scast c) k = Some (Inr k') \<and> types K E [c] k k'"
  using SysConsoleWrite_types [OF assms, of c]
  by (auto simp: putchar_def no_value_def sys_call_def SyscallHandler_def sys_defs syscall_defs byte_through_int)

lemma puts_from_types:
  assumes "length s < 2147483648" and "span str (Suc (length s)) \<inter> console_bytes K E k0 = {}"
  shows "i \<le> length s \<Longrightarrow> console_ready K E k \<Longrightarrow> console_bytes K E k = console_bytes K E k0 \<Longrightarrow> cstr (k_mem k) str s \<Longrightarrow>
    \<exists>k'. puts_from E regs str (of_nat i) k = Some (Inr k') \<and> types K E (drop i s) k k'"
proof (induction "length s - i" arbitrary: i k)
  case 0
  then have "i = length s" by simp
  then have "k_mem k (str + sext (of_nat i :: i32)) = 0"
    using cstr_end [OF 0(5)] assms(1) by (simp add: sext_of_nat)
  then show ?case using types_refl \<open>i = length s\<close> by (simp add: puts_from.simps)
next
  case (Suc n)
  then have i: "i < length s" by simp
  then have c: "k_mem k (str + sext (of_nat i :: i32)) = s ! i" "s ! i \<noteq> 0"
    using cstr_nth [OF Suc.prems(4) i] assms(1) by (simp_all add: sext_of_nat)
  obtain k1 where k1: "putchar E regs (scast (s ! i)) k = Some (Inr k1)" "types K E [s ! i] k k1"
    using putchar_types [OF Suc.prems(2)] by blast
  note r = types_ready [OF k1(2) Suc.prems(2)]
  have "cstr (k_mem k1) str s"
    using k1(2) assms Suc.prems(3) by (intro cstr_span [OF Suc.prems(4)]) (auto simp: types_def)
  moreover have "n = length s - Suc i" using Suc.hyps(2) by simp
  ultimately obtain k' where k': "puts_from E regs str (of_nat (Suc i)) k1 = Some (Inr k')" "types K E (drop (Suc i) s) k1 k'"
    using Suc.hyps(1) [of "Suc i" k1] Suc.prems(3) i r by auto
  have "types K E (drop i s) k k'"
    using types_trans [OF k1(2) k'(2)] i by (simp add: Cons_nth_drop_Suc)
  then show ?case using c k1(1) k'(1) by (simp add: puts_from.simps [of _ _ _ "of_nat i"] Let_def add.commute)
qed

section \<open>Properties\<close>

text \<open>
  C26: \<open>puts\<close> of a user program returns, and through one system call per character appends exactly
  its string to what the terminal of the process shows; the other terminals, the tasks, the devices
  and all memory but the terminal and the static buffers of \<open>printf\<close> stay as they were.
\<close>

theorem puts_appends:
  fixes k :: "'d kernel" and E :: "'d env" and K :: nat
  defines "vt \<equiv> task_terminal k"
  assumes "console_ready K E k" and "cstr (k_mem k) str s" and "length s < 2147483648"
    and "span str (Suc (length s)) \<inter> console_bytes K E k = {}"
  shows "\<exists>i m. mlib_puts E regs str k =
      Some (Inr (k\<lparr>k_vts := (k_vts k)(terminal (CurrentTask k) := vt\<lparr>vt_index := i\<rparr>), k_mem := m\<rparr>)) \<and>
    shown (vt\<lparr>vt_index := i\<rparr>) m = fold (\<lambda>c. add_text (unat (maxLen vt)) [c]) s (shown vt (k_mem k)) \<and>
    (\<forall>a. a \<notin> console_bytes K E k \<longrightarrow> m a = k_mem k a)"
proof -
  obtain k' where k': "mlib_puts E regs str k = Some (Inr k')" "types K E s k k'"
    using puts_from_types [OF assms(4,5), of 0 k regs] assms(2,3) by (auto simp: mlib_puts_def)
  from k'(2) obtain i m where e: "k' = k\<lparr>k_vts := (k_vts k)(terminal (CurrentTask k) := (task_terminal k)\<lparr>vt_index := i\<rparr>), k_mem := m\<rparr>"
    by (auto simp: types_def)
  then have "task_terminal k' = (task_terminal k)\<lparr>vt_index := i\<rparr>" by (simp add: task_terminal_def CurrentTask_def)
  then show ?thesis using k' e unfolding vt_def types_def by auto
qed

definition example_env :: "unit env \<Rightarrow> unit env" where
  "example_env E = E\<lparr>env_buffers := example_buffers, env_lit := (\<lambda>_. 0x100)\<rparr>"

definition example_user :: "unit kernel \<Rightarrow> unit kernel" where
  "example_user k = k\<lparr>k_vts := VirtualTerminals example_console,
     k_mem := put_str 0x200 (bytes_of ''hello'') (put_str 0x100 [37, 99] (\<lambda>_. 0))\<rparr>"

theorem puts_appends_witness:
  "\<forall>E k regs. \<exists>i m. mlib_puts (example_env E) regs 0x200 (example_user k) =
      Some (Inr ((example_user k)\<lparr>k_vts := (k_vts (example_user k))(terminal (CurrentTask (example_user k)) :=
        (task_terminal (example_user k))\<lparr>vt_index := i\<rparr>), k_mem := m\<rparr>)) \<and>
     shown ((task_terminal (example_user k))\<lparr>vt_index := i\<rparr>) m = bytes_of ''hello''"
proof (intro allI)
  fix E k regs
  let ?E = "example_env E" and ?k = "example_user k"
  have W: "console_bytes 20 ?E ?k =
      statics example_buffers \<union> vt_span 20 (VirtualTerminals example_console (terminal (CurrentTask ?k)))"
    by (simp add: console_bytes_def task_terminal_def example_env_def example_user_def)
  have vt: "task_terminal ?k = VirtualTerminals example_console (terminal (CurrentTask ?k))"
    by (simp add: task_terminal_def example_user_def)
  have "cstr (k_mem ?k) 0x100 [37, 99]" "span 0x100 3 \<inter> console_bytes 20 ?E ?k = {}"
    unfolding W by (simp add: example_user_def bytes_of_def) (rule example_console_ok, simp)
  then have 1: "console_ready 20 ?E ?k"
    using example_console_ok(1) by (simp add: console_ready_def vt) (simp add: example_env_def)
  have 2: "cstr (k_mem ?k) 0x200 (bytes_of ''hello'')" by (simp add: example_user_def bytes_of_def)
  have 3: "span 0x200 (Suc (length (bytes_of ''hello''))) \<inter> console_bytes 20 ?E ?k = {}"
    unfolding W by (rule example_console_ok) (simp add: bytes_of_def)
  have 4: "fold (\<lambda>c. add_text (unat (maxLen (task_terminal ?k))) [c]) (bytes_of ''hello'') (shown (task_terminal ?k) (k_mem ?k)) =
      bytes_of ''hello''"
    unfolding vt by (simp add: bytes_of_def add_text_def shown_def example_console_def)
  have "length (bytes_of ''hello'') < 2147483648" by (simp add: bytes_of_def)
  from puts_appends [OF 1 2 this 3, of regs] show "\<exists>i m. mlib_puts ?E regs 0x200 ?k =
      Some (Inr (?k\<lparr>k_vts := (k_vts ?k)(terminal (CurrentTask ?k) := (task_terminal ?k)\<lparr>vt_index := i\<rparr>), k_mem := m\<rparr>)) \<and>
     shown ((task_terminal ?k)\<lparr>vt_index := i\<rparr>) m = bytes_of ''hello''"
    unfolding 4 by blast
qed

end
