(* ===== verification/UserFiles.thy ===== *)
theory UserFiles
  imports Mlib
begin

text \<open>
  What a user program gets when it reads a file: \<open>fopen\<close> and \<open>fread\<close> of the library, the two system
  calls they make, the virtual file system with its reader of the RAM disk, the page allocator and
  the page tables together.
\<close>

section \<open>The disk in order\<close>

text \<open>
  The image lies in memory and its files are entered, in order, into the first descriptors; the
  bytes behind these are zero, and so are the paths of the others.
\<close>

definition entry_path :: "u8 list \<times> u8 list \<Rightarrow> u8 list" where
  "entry_path f = 47 # take 367 (pad_name (fst f)) @ [1]"

definition disk_ok :: "(u8 list \<times> u8 list) list \<Rightarrow> u64 list \<Rightarrow> u64 \<Rightarrow> mem \<Rightarrow> bool" where
  "disk_ok files ds fs m \<longleftrightarrow> files_ok files \<and> (\<forall>f \<in> set files. 0 \<notin> set (fst f)) \<and>
     loaded m fs (build_llfs files) \<and> length files \<le> length ds \<and>
     (\<forall>i < length files. bytes_at m (ds ! i) 368 = 47 # take 367 (pad_name (fst (files ! i))) \<and>
        m (ds ! i + 368) = VFS_SOURCE_RAMFS \<and> m (ds ! i + 369) = 0) \<and>
     (\<forall>i < length ds. length files \<le> i \<longrightarrow> m (ds ! i) = 0)"

definition disk_bytes :: "(u8 list \<times> u8 list) list \<Rightarrow> u64 list \<Rightarrow> u64 \<Rightarrow> u64 set" where
  "disk_bytes files ds fs = {fs + of_nat i | i. i < length (build_llfs files)} \<union>
     {d + of_nat i | d i. d \<in> set ds \<and> i \<le> 369}"

lemma descriptor_byte: "i < length ds \<Longrightarrow> t \<le> 369 \<Longrightarrow> ds ! i + of_nat t \<in> disk_bytes files ds fs"
  using nth_mem [of i ds] unfolding disk_bytes_def by blast

text \<open>The loop of \<open>kernelMain\<close> brings it in order, when the descriptors and the bytes behind them are cleared.\<close>

lemma register_files_disk_ok:
  assumes "separate ds" and "loaded m fs (build_llfs files)" and "files_ok files"
    and "\<forall>i < length (build_llfs files). outside ds (fs + of_nat i)"
    and "\<forall>d \<in> set ds. m d = 0 \<and> m (d + 369) = 0 \<and> outside ds (d + 369)" and "length files \<le> length ds"
    and "\<forall>f \<in> set files. 0 \<notin> set (fst f)"
  shows "disk_ok files ds fs (fst (register_files ds fs m tot))"
proof -
  let ?m = "fst (register_files ds fs m tot)"
  have out: "outside ds (fs + of_nat k)" if "k < length (build_llfs files)" for k
    using assms(4) that by blast
  have fresh: "\<forall>d \<in> set ds. m d = 0" using assms(5) by blast
  note r = register_files_spec [OF assms(1-3) out fresh assms(6) HOL.refl]
  have "?m (ds ! i + 369) = 0" if "i < length files" for i
    using assms(5,6) r(4) [of "ds ! i + 369"] that by simp
  moreover have "?m (ds ! i) = 0" if "i < length ds" "length files \<le> i" for i
    using r(5) that by simp
  ultimately show ?thesis
    using assms(3,6,7) r(1,2,3) by (simp add: disk_ok_def)
qed

lemma entry_path_cstr:
  assumes "bytes_at m d 368 = 47 # take 367 (pad_name (fst f))" and "m (d + 368) = VFS_SOURCE_RAMFS" and "m (d + 369) = 0"
    and "length (fst f) \<le> 368" and "0 \<notin> set (fst f)"
  shows "cstr m d (entry_path f)" and "cstr m (d + 1) (take 367 (pad_name (fst f)) @ [1])"
proof -
  show c: "cstr m (d + 1) (take 367 (pad_name (fst f)) @ [1])"
    using nth_after_slash [OF assms(1-3)] length_pad_name [OF assms(4)] set_take_pad [OF assms(5)]
    by (simp add: VFS_SOURCE_RAMFS_def)
  have "m d = 47" using assms(1) hd_bytes [of m d] by simp
  with c show "cstr m d (entry_path f)" by (simp add: entry_path_def)
qed

lemma disk_names:
  assumes "disk_ok files ds fs m"
  shows "named m ds (map entry_path files @ replicate (length ds - length files) [])"
  unfolding named_def
proof (rule list_all2_all_nthI)
  fix i assume i: "i < length ds"
  show "cstr m (ds ! i) ((map entry_path files @ replicate (length ds - length files) []) ! i) \<and>
    length ((map entry_path files @ replicate (length ds - length files) []) ! i) < 2147483648"
  proof (cases "i < length files")
    case True
    then have f: "length (fst (files ! i)) \<le> 368" "0 \<notin> set (fst (files ! i))"
      using assms by (auto simp: disk_ok_def files_ok_def)
    then show ?thesis
      using True assms entry_path_cstr(1) [OF _ _ _ f, of m "ds ! i"] length_pad_name [OF f(1)]
      by (simp add: disk_ok_def nth_append) (simp add: entry_path_def)
  qed (use i assms in \<open>auto simp: disk_ok_def nth_append\<close>)
qed (use assms in \<open>simp add: disk_ok_def\<close>)

lemma find_path_append: "find_path p xs = Some i \<Longrightarrow> find_path p (xs @ ys) = Some i"
  by (induction xs arbitrary: i) (auto split: if_splits)

lemma find_path_less: "find_path p xs = Some i \<Longrightarrow> i < length xs"
  by (induction xs arbitrary: i) (auto split: if_splits)

text \<open>Opening a path of the disk.\<close>

lemma disk_open:
  assumes "disk_ok files ds fs m" and "cstr m q p" and "length p < 2147483648" and "p \<noteq> []"
    and "find_path p (map entry_path files) = Some i"
  shows "VFSOpenFile ds q m = Some (ds ! i)"
  using VFSOpenFile_find(1) [OF assms(2-4) disk_names [OF assms(1)]] find_path_append [OF assms(5)] by simp

text \<open>Where the contents of a file lie, and that they lie inside the image.\<close>

definition contents_at :: "u64 \<Rightarrow> (u8 list \<times> u8 list) list \<Rightarrow> nat \<Rightarrow> nat" where
  "contents_at fs files j = 17 + sum_list (map entry_size (take j files)) + 377"

lemma contents_inside:
  assumes "files_ok files" and "j < length files" and "t < length (snd (files ! j))"
  shows "contents_at fs files j + t < length (build_llfs files)"
proof -
  have "sum_list (map entry_size files) =
      sum_list (map entry_size (take j files)) + sum_list (map entry_size (drop j files))"
    by (metis append_take_drop_id map_append sum_list_append)
  moreover have "drop j files = files ! j # drop (Suc j) files" using assms(2) by (simp add: Cons_nth_drop_Suc)
  ultimately show ?thesis
    using length_image [of files] assms by (simp add: contents_at_def files_ok_def entry_size_def)
qed

text \<open>A descriptor anywhere in memory that holds what that of the file \<open>i\<close> holds.\<close>

lemma disk_read:
  assumes img: "loaded m fs (build_llfs files)" and ok: "files_ok files" and f: "i < length files" "0 \<notin> set (fst (files ! i))"
    and d: "bytes_at m d 368 = 47 # take 367 (pad_name (fst (files ! i)))" "m (d + 368) = VFS_SOURCE_RAMFS" "m (d + 369) = 0"
    and "d \<noteq> 0" and j: "lookup_name (take 367 (pad_name (fst (files ! i)))) files = Some j"
  shows "VFSReadFile m fs d = Some (fs + of_nat (contents_at fs files j))"
    and "loaded m (fs + of_nat (contents_at fs files j)) (snd (files ! j))"
proof -
  have len: "length (fst (files ! i)) \<le> 368" using ok f(1) by (auto simp: files_ok_def)
  let ?s = "take 367 (pad_name (fst (files ! i))) @ [1]"
  have c: "cstr m (d + 1) ?s" by (rule entry_path_cstr [OF d len f(2)])
  have l: "length ?s \<le> 368" "butlast ?s = take 367 (pad_name (fst (files ! i)))" by simp_all
  have e: "LLFSReadFile (entry_at (fs + 17) files j) = fs + of_nat (contents_at fs files j)"
    by (simp add: LLFSReadFile_def entry_at_def contents_at_def)
  have o: "LLFSOpenFile m fs (d + 1) = Some (entry_at (fs + 17) files j)"
    using LLFSOpenFile_image [OF img ok c l(1)] j unfolding l(2) by simp
  then show "VFSReadFile m fs d = Some (fs + of_nat (contents_at fs files j))"
    using d(2) \<open>d \<noteq> 0\<close> by (simp add: VFSReadFile_def LLFSVFSHelperReader_def e)
  show "loaded m (fs + of_nat (contents_at fs files j)) (snd (files ! j))"
    using llfs_reads_image [OF img ok c l(1)] j o unfolding l(2) by (simp add: e)
qed

section \<open>The system calls\<close>

lemma same_page_iff:
  assumes "page_aligned d"
  shows "x - d < 4096 \<longleftrightarrow> x div 4096 = d div 4096"
proof
  assume "x - d < 4096"
  then have l: "unat (x - d) < 4096" by (simp add: word_less_nat_alt)
  then have "unat d + unat (x - d) < 18446744073709551616"
    using room_page [of d] assms by (simp add: page_aligned_def)
  then have "unat x = unat d + unat (x - d)"
    using unat_add_small [of d "x - d"] by simp
  moreover obtain q where "unat d = 4096 * q"
    using assms by (metis page_aligned_def mod_0_imp_dvd dvdE)
  ultimately have "unat x div 4096 = unat d div 4096" using l by simp
  then show "x div 4096 = d div 4096" by (simp add: word_unat_eq_iff unat_div)
next
  assume "x div 4096 = d div 4096"
  then have "unat x div 4096 = unat d div 4096" by (simp add: word_unat_eq_iff unat_div)
  then have "unat x = unat d + unat x mod 4096"
    using div_mult_mod_eq [of "unat x" 4096] div_mult_mod_eq [of "unat d" 4096] assms
    unfolding page_aligned_def by linarith
  then have "unat (x - d) = unat x mod 4096" using unat_diff64 [of x d] by simp
  then show "x - d < 4096" by (simp add: word_less_nat_alt)
qed

text \<open>A page is requested, cleared and opened to user code.\<close>

lemma fresh_user_page:
  assumes "source_fine p" and "RequestPage p = Inr (pg, p')" and ok: "tables_ok U m root" and "U \<subseteq> taken p"
    and "translate m root pg \<noteq> None"
  defines "m' \<equiv> MapUserspaceMemory root pg (memset pg 0 4096 m)"
  shows "x div 4096 \<notin> insert (pg div 4096) U \<Longrightarrow> m' x = m x"
    and "x div 4096 = pg div 4096 \<Longrightarrow> m' x = 0"
    and "page_aligned pg"
proof -
  have g: "page_aligned pg" "pg div 4096 \<notin> U" using frames.granted [OF assms(1,2)] assms(4) by auto
  let ?m = "memset pg 0 4096 m"
  have "load64 ?m (t + i * 8) = load64 m (t + i * 8)" if "page_aligned t" "t div 4096 \<in> U" "unat i < 512" for t i
  proof -
    have "t \<noteq> pg" using that g(2) by auto
    then show ?thesis using load64_memset_page [OF g(1) that(1,3), of m] by simp
  qed
  then have w: "length q \<le> 4 \<Longrightarrow> idx_ok q \<Longrightarrow> walk ?m root q = walk m root q" for q
    by (rule walk_cong [OF ok])
  then have "tables_ok U ?m root" by (intro tables_ok_walk_cong [OF ok]) simp
  moreover obtain f where "walk ?m root (path_of pg) = Some f"
    using assms(5) w path_of_ok [of pg] by (auto simp: translate_def)
  ultimately have fr: "x div 4096 \<notin> U \<Longrightarrow> m' x = ?m x" for x
    unfolding m'_def by (rule MapUserspaceMemory_spec(5))
  have ms: "?m x = (if x div 4096 = pg div 4096 then 0 else m x)" for x
    by (simp add: memset_eq same_page_iff [OF g(1)])
  show "x div 4096 \<notin> insert (pg div 4096) U \<Longrightarrow> m' x = m x" by (simp add: fr ms)
  show "x div 4096 = pg div 4096 \<Longrightarrow> m' x = 0" using fr g(2) by (simp add: ms)
  show "page_aligned pg" by (rule g)
qed

lemma disk_ok_cong:
  assumes "disk_ok files ds fs m" and same: "\<And>x. x \<in> disk_bytes files ds fs \<Longrightarrow> m' x = m x"
  shows "disk_ok files ds fs m'"
proof -
  have d: "m' (ds ! i + of_nat k) = m (ds ! i + of_nat k)" if "i < length ds" "k \<le> 369" for i k
    by (intro same descriptor_byte that)
  have b: "bytes_at m' (ds ! i) 368 = bytes_at m (ds ! i) 368" if "i < length ds" for i
    using d [OF that] by (intro bytes_at_cong) simp
  have e: "m' (ds ! i) = m (ds ! i)" "m' (ds ! i + 368) = m (ds ! i + 368)" "m' (ds ! i + 369) = m (ds ! i + 369)"
    if "i < length ds" for i
    using d [OF that, of 0] d [OF that, of 368] d [OF that, of 369] by simp_all
  have "loaded m' fs (build_llfs files)"
    using assms(1) by (intro loaded_cong [OF same]) (auto simp: disk_bytes_def disk_ok_def)
  then show ?thesis using assms(1) b e by (simp add: disk_ok_def)
qed

text \<open>The state in which \<open>fopen\<close> leaves the disk and the descriptor it made.\<close>

lemma sys_open_copies:
  assumes disk: "disk_ok files (k_files k) (k_ramfs k) (k_mem k)"
    and path: "cstr (k_mem k) path p" "length p < 2147483648" "p \<noteq> []" "find_path p (map entry_path files) = Some i"
    and page: "source_fine (k_pfa k)" "RequestPage (k_pfa k) = Inr (desc, pfa')"
    and tables: "tables_ok U (k_mem k) (k_root k)" "U \<subseteq> taken (k_pfa k)" "translate (k_mem k) (k_root k) desc \<noteq> None"
    and away: "\<forall>x \<in> disk_bytes files (k_files k) (k_ramfs k) \<union> span path (Suc (length p)). x div 4096 \<notin> insert (desc div 4096) U"
  shows "\<exists>m. sys_open path k = Some (Inr (desc, k\<lparr>k_pfa := pfa', k_mem := m\<rparr>)) \<and>
    (\<forall>x. x div 4096 \<notin> insert (desc div 4096) U \<longrightarrow> m x = k_mem k x) \<and>
    bytes_at m desc 368 = 47 # take 367 (pad_name (fst (files ! i))) \<and>
    m (desc + 368) = VFS_SOURCE_RAMFS \<and> m (desc + 369) = 0"
proof -
  let ?ds = "k_files k" and ?fs = "k_ramfs k"
  define m1 where "m1 = MapUserspaceMemory (k_root k) desc (memset desc 0 4096 (k_mem k))"
  note f = fresh_user_page [OF page tables, folded m1_def]
  have same: "m1 x = k_mem k x" if "x \<in> disk_bytes files ?ds ?fs \<union> span path (Suc (length p))" for x
    using away that by (intro f(1)) blast
  have disk1: "disk_ok files ?ds ?fs m1" using same by (intro disk_ok_cong [OF disk]) blast
  have "cstr m1 path p" using path(2) same by (intro cstr_span [OF path(1)]) auto
  note opened = disk_open [OF disk1 this path(2,3,4)]
  have i: "i < length files" "i < length ?ds" using find_path_less [OF path(4)] disk by (simp_all add: disk_ok_def)
  let ?d = "?ds ! i"
  have d: "?d + of_nat t \<in> disk_bytes files ?ds ?fs" if "t \<le> 369" for t by (intro descriptor_byte i that)
  have "369 \<le> unat (desc - ?d)"
  proof (rule ccontr)
    assume "\<not> 369 \<le> unat (desc - ?d)"
    then have "?d + of_nat (unat (desc - ?d)) \<in> disk_bytes files ?ds ?fs" by (intro d) simp
    then have "desc \<in> disk_bytes files ?ds ?fs" by simp
    then show False using away by blast
  qed
  then have c: "memcpy desc ?d 369 m1 = copied desc ?d 369 m1"
    by (subst memcpy_eq) (simp_all add: forward_ok_iff)
  define m where "m = copied desc ?d 369 m1"
  have u: "unat (of_nat t :: u64) = t" if "t \<le> 369" for t using that by (intro unat_of_nat64) simp
  have in_page: "(desc + of_nat t) div 4096 = desc div 4096" if "t \<le> 369" for t
    using that by (subst same_page_iff [OF f(3), symmetric]) (simp add: word_less_nat_alt u)
  have far: "m x = m1 x" if "x div 4096 \<noteq> desc div 4096" for x
  proof -
    have "369 \<le> unat (x - desc)"
      using that same_page_iff [OF f(3), of x] by (simp add: word_less_nat_alt)
    then show ?thesis by (simp add: m_def copied_out)
  qed
  have cp: "m (desc + of_nat t) = k_mem k (?d + of_nat t)" if "t < 369" for t
  proof -
    have "m (desc + of_nat t) = m1 (?d + of_nat t)" unfolding m_def using that by (intro copied_in) (simp add: u)
    then show ?thesis using same d that by simp
  qed
  have "bytes_at m desc 368 = bytes_at (k_mem k) ?d 368"
    by (intro nth_equalityI) (simp_all add: cp)
  moreover have "m (desc + 369) = 0"
  proof -
    have "m (desc + of_nat 369) = m1 (desc + of_nat 369)" unfolding m_def by (simp add: copied_def)
    also have "\<dots> = 0" using in_page [of 369] by (intro f(2)) simp
    finally show ?thesis by simp
  qed
  moreover have "sys_open path k = Some (Inr (desc, k\<lparr>k_pfa := pfa', k_mem := m\<rparr>))"
    using opened by (simp add: sys_open_def page(2) k_map_user_def m1_def [symmetric] c m_def)
  ultimately show ?thesis
    using disk i cp [of 368] far f(1) by (auto simp: disk_ok_def)
qed

section \<open>Properties\<close>

text \<open>
  C6: a user program that opens a file of the RAM disk and reads it, as \<open>minit\<close> does, gets its
  contents.  Two system calls return; the buffer then holds the first bytes of the file that the
  path means, the kernel has one page less, and all memory but the buffer, the page of the new
  descriptor and the page tables is as before.
\<close>

theorem user_reads_file:
  fixes k :: "'d kernel" and sizeData numbersData :: u64
  defines "n \<equiv> unat (sizeData * numbersData)"
  assumes "disk_ok files (k_files k) (k_ramfs k) (k_mem k)"
    and "cstr (k_mem k) path p" and "length p < 2147483648" and "p \<noteq> []"
    and "find_path p (map entry_path files) = Some i"
    and "lookup_name (take 367 (pad_name (fst (files ! i)))) files = Some j"
    and "source_fine (k_pfa k)" and "RequestPage (k_pfa k) = Inr (desc, pfa')" and "desc \<noteq> 0"
    and "tables_ok U (k_mem k) (k_root k)" and "U \<subseteq> taken (k_pfa k)"
    and "translate (k_mem k) (k_root k) desc \<noteq> None"
    and "\<forall>x \<in> disk_bytes files (k_files k) (k_ramfs k) \<union> span path (Suc (length p)).
      x div 4096 \<notin> insert (desc div 4096) U"
    and "n \<le> length (snd (files ! j))" and "dest \<notin> disk_bytes files (k_files k) (k_ramfs k)"
  shows "\<exists>m. with_value (fopen E regs path mode) (fread E regs dest sizeData numbersData) k =
      Some (Inr (k\<lparr>k_pfa := pfa', k_mem := m\<rparr>)) \<and>
    bytes_at m dest n = take n (snd (files ! j)) \<and>
    (\<forall>x. x \<notin> span dest n \<longrightarrow> x div 4096 \<notin> insert (desc div 4096) U \<longrightarrow> m x = k_mem k x)"
proof -
  let ?fs = "k_ramfs k"
  obtain m where o: "sys_open path k = Some (Inr (desc, k\<lparr>k_pfa := pfa', k_mem := m\<rparr>))"
    and far: "\<And>x. x div 4096 \<notin> insert (desc div 4096) U \<Longrightarrow> m x = k_mem k x"
    and d: "bytes_at m desc 368 = 47 # take 367 (pad_name (fst (files ! i)))"
      "m (desc + 368) = VFS_SOURCE_RAMFS" "m (desc + 369) = 0"
    using sys_open_copies [OF assms(2-6,8,9,11,12,13,14)] by blast
  have "disk_ok files (k_files k) ?fs m" using assms(14) by (intro disk_ok_cong [OF assms(2)] far) blast
  then have disk: "loaded m ?fs (build_llfs files)" "files_ok files" "i < length files" "0 \<notin> set (fst (files ! i))"
    using find_path_less [OF assms(6)] by (simp_all add: disk_ok_def)
  note r = disk_read [OF disk d assms(10,7)]
  let ?e = "?fs + of_nat (contents_at ?fs files j)"
  have j: "j < length files" using lookup_name_Some [OF assms(7)] by simp
  have n: "n \<le> 18446744073709551616" unfolding n_def using unat_less_2p64 [of "sizeData * numbersData"] by simp
  have "dest = ?e \<or> n \<le> unat (dest - ?e)"
  proof (rule ccontr)
    assume c: "\<not> (dest = ?e \<or> n \<le> unat (dest - ?e))"
    let ?t = "unat (dest - ?e)"
    have "contents_at ?fs files j + ?t < length (build_llfs files)"
      using c assms(15) by (intro contents_inside [OF disk(2) j]) simp
    moreover have "dest = ?fs + of_nat (contents_at ?fs files j + ?t)" by simp
    ultimately show False using assms(16) unfolding disk_bytes_def by blast
  qed
  then have c: "memcpy dest ?e (sizeData * numbersData) m = copied dest ?e n m"
    unfolding n_def using n by (intro memcpy_eq) (simp add: forward_ok_iff n_def)
  let ?m = "copied dest ?e n m"
  have "with_value (fopen E regs path mode) (fread E regs dest sizeData numbersData) k =
      Some (Inr (k\<lparr>k_pfa := pfa', k_mem := ?m\<rparr>))"
    using o r(1) by (simp add: with_value_def fopen_def fread_def no_value_def sys_call_def SyscallHandler_def sys_defs syscall_defs c)
  moreover have "bytes_at ?m dest n = bytes_at m ?e n"
  proof (rule nth_equalityI)
    fix t assume "t < length (bytes_at ?m dest n)"
    then have t: "t < n" "unat (of_nat t :: u64) = t" using n by (auto intro!: unat_of_nat64)
    then show "bytes_at ?m dest n ! t = bytes_at m ?e n ! t" by (simp add: copied_in)
  qed simp
  moreover have "bytes_at m ?e n = take n (snd (files ! j))" by (rule loaded_take [OF r(2) assms(15)])
  moreover have "?m x = k_mem k x" if "x \<notin> span dest n" "x div 4096 \<notin> insert (desc div 4096) U" for x
    using far [OF that(2)] that(1) by (simp add: span_def copied_out)
  ultimately show ?thesis by auto
qed

section \<open>A disk with one file\<close>

text \<open>
  The image at \<open>0x10000\<close>, its descriptor at \<open>0x20000\<close> and a path at \<open>0x30000\<close>; four page tables at
  \<open>0x1000\<close> to \<open>0x4000\<close> map the first ten pages to themselves.
\<close>

definition page_entries :: "nat \<Rightarrow> mem \<Rightarrow> mem" where
  "page_entries n m = fold (\<lambda>i. store64 (0x4000 + of_nat i * 8) (of_nat (4096 * i + 3))) [0..<n] m"

definition one_disk :: "u8 list \<times> u8 list \<Rightarrow> u8 list \<Rightarrow> mem" where
  "one_disk f p = place 0x30000 (p @ [0]) (place 0x20000 (entry_path f @ [0])
     (place 0x10000 (build_llfs [f]) (page_entries 10 four_tables)))"

definition small_file :: "u8 list \<times> u8 list \<Rightarrow> u8 list \<Rightarrow> bool" where
  "small_file f p \<longleftrightarrow> length (fst f) \<le> 366 \<and> length (snd f) < 65000 \<and> 0 \<notin> set (fst f) \<and> p = 47 # fst f"

lemma place_below:
  assumes "unat x < unat a" and "unat a + length xs \<le> 18446744073709551616"
  shows "place a xs m x = m x"
proof -
  have "\<not> unat (x - a) < length xs" using assms unat_diff64 [of x a] by simp
  then show ?thesis by (simp add: place_def)
qed

lemma loaded_below:
  assumes "loaded m a xs" and "unat a + length xs \<le> unat b" and "unat b + length ys \<le> 18446744073709551616"
  shows "loaded (place b ys m) a xs"
proof (rule loaded_cong [OF _ assms(1)])
  fix i assume i: "i < length xs"
  have lt: "unat a + i < 18446744073709551616" using i assms(2) unat_less_2p64 [of b] by linarith
  then have "unat (of_nat i :: u64) = i" by (intro unat_of_nat64) simp
  then have "unat (a + of_nat i) = unat a + i" using lt by (subst unat_add_small) simp_all
  then show "place b ys m (a + of_nat i) = m (a + of_nat i)" using i assms(2,3) by (intro place_below) simp_all
qed

lemma loaded_cstr: "loaded m a (s @ [0]) \<Longrightarrow> 0 \<notin> set s \<Longrightarrow> cstr m a s"
  by (simp add: cstr_def loaded_append) (simp add: loaded_def)

lemma unat_offset: "i < 65536 \<Longrightarrow> unat b \<le> 0x30000 \<Longrightarrow> unat (b + of_nat i :: u64) = unat b + i"
  using unat_add_small [of b "of_nat i"] unat_of_nat64 [of i] by simp

lemma one_disk_lengths:
  assumes "small_file f p"
  shows "length (build_llfs [f]) = 394 + length (snd f)" "length (entry_path f) = 369" "length (p @ [0 :: u8]) \<le> 368"
proof -
  have "\<forall>f' \<in> set [f]. length (fst f') \<le> 368" using assms by (simp add: small_file_def)
  from length_image [OF this] show "length (build_llfs [f]) = 394 + length (snd f)" by (simp add: entry_size_def)
qed (use assms in \<open>simp_all add: entry_path_def small_file_def length_pad_name\<close>)

lemma one_disk_low:
  assumes "small_file f p" and "unat x < 65536"
  shows "one_disk f p x = page_entries 10 four_tables x"
  using assms one_disk_lengths [OF assms(1)] by (simp add: one_disk_def place_below small_file_def)

lemma one_disk_loaded:
  assumes s: "small_file f p"
  shows "loaded (one_disk f p) 0x10000 (build_llfs [f])" "loaded (one_disk f p) 0x20000 (entry_path f @ [0])"
    "loaded (one_disk f p) 0x30000 (p @ [0])"
proof -
  note l = one_disk_lengths [OF s]
  have sz: "length (snd f) < 65000" using s by (simp add: small_file_def)
  let ?m1 = "place 0x10000 (build_llfs [f]) (page_entries 10 four_tables)"
  let ?m2 = "place 0x20000 (entry_path f @ [0]) ?m1"
  have "loaded ?m1 0x10000 (build_llfs [f])" using l sz by (intro loaded_place) simp
  then have "loaded ?m2 0x10000 (build_llfs [f])" by (rule loaded_below) (use l sz in simp_all)
  then show "loaded (one_disk f p) 0x10000 (build_llfs [f])"
    unfolding one_disk_def by (rule loaded_below) (use l sz in simp_all)
  have "loaded ?m2 0x20000 (entry_path f @ [0])" using l by (intro loaded_place) simp
  then show "loaded (one_disk f p) 0x20000 (entry_path f @ [0])"
    unfolding one_disk_def by (rule loaded_below) (use l in simp_all)
  show "loaded (one_disk f p) 0x30000 (p @ [0])"
    unfolding one_disk_def using l(3) by (intro loaded_place) simp
qed

lemma one_disk_ok:
  assumes s: "small_file f p"
  shows "disk_ok [f] [0x20000] 0x10000 (one_disk f p)" and "cstr (one_disk f p) 0x30000 p"
    and "find_path p (map entry_path [f]) = Some 0" and "lookup_name (take 367 (pad_name (fst ([f] ! 0)))) [f] = Some 0"
proof -
  have n: "length (fst f) \<le> 366" "length (fst f) \<le> 368" "length (snd f) < 65000" "0 \<notin> set (fst f)" "p = 47 # fst f"
    using s by (simp_all add: small_file_def)
  note l = one_disk_loaded [OF s] and len = one_disk_lengths [OF s]
  have "bytes_at (one_disk f p) 0x20000 368 = take 368 (entry_path f @ [0])"
    by (rule loaded_take [OF l(2)]) (simp add: len)
  also have "\<dots> = 47 # take 367 (pad_name (fst f))"
    by (simp add: entry_path_def length_pad_name [OF n(2)])
  finally have 1: "bytes_at (one_disk f p) 0x20000 368 = 47 # take 367 (pad_name (fst f))" .
  have "one_disk f p (0x20000 + of_nat 368) = (entry_path f @ [0]) ! 368" "one_disk f p (0x20000 + of_nat 369) = (entry_path f @ [0]) ! 369"
    by (rule loaded_nth [OF l(2)], simp add: len)+
  then have 2: "one_disk f p 0x20170 = 1" "one_disk f p 0x20171 = 0"
    by (simp_all add: nth_append len) (simp add: entry_path_def nth_append length_pad_name [OF n(2)])
  show "disk_ok [f] [0x20000] 0x10000 (one_disk f p)"
    unfolding disk_ok_def using 1 2 l(1) n by (simp add: files_ok_def VFS_SOURCE_RAMFS_def)
  show "cstr (one_disk f p) 0x30000 p"
    using n by (intro loaded_cstr [OF l(3)]) simp
  have "pad_name (fst f) = fst f @ 32 # replicate (367 - length (fst f)) 32"
    using n(1) by (simp add: pad_name_def Suc_diff_le flip: replicate_Suc)
  then have "entry_path f = p @ 32 # take (366 - length (fst f)) (replicate (367 - length (fst f)) 32) @ [1]"
    using n(1) by (simp add: entry_path_def n(5) take_Cons')
  then show "find_path p (map entry_path [f]) = Some 0" using path_eq_padded [of p] n(5) by simp
  show "lookup_name (take 367 (pad_name (fst ([f] ! 0)))) [f] = Some 0"
    by (simp add: length_pad_name [OF n(2)])
qed

lemma one_disk_away:
  assumes "small_file f p" and x: "x \<in> disk_bytes [f] [0x20000] 0x10000 \<union> span 0x30000 (Suc (length p))"
  shows "16 \<le> unat (x div 4096)" and "x \<noteq> 0x40000"
proof -
  have len: "length (build_llfs [f]) < 65536" "length p < 65000" using one_disk_lengths [OF assms(1)] assms(1) by (auto simp: small_file_def)
  have e: "x = 0x30000 + of_nat (unat (x - 0x30000))" by simp
  consider i where "x = 0x10000 + of_nat i" "i < 65536" | i where "x = 0x20000 + of_nat i" "i \<le> 369"
    | "unat (x - 0x30000) < 65536"
    using x len by (auto simp: disk_bytes_def span_def)
  then have "0x10000 \<le> unat x \<and> unat x < 0x40000"
  proof cases
    case 3
    then have "unat x = 0x30000 + unat (x - 0x30000)" using unat_offset [of "unat (x - 0x30000)" "0x30000"] e by simp
    then show ?thesis using 3 by simp
  qed (simp_all add: unat_offset)
  then show "16 \<le> unat (x div 4096)" "x \<noteq> 0x40000" using div_le_mono [of 65536 "unat x" 4096] by (auto simp: unat_div)
qed

lemma low_path_of:
  assumes "unat a < 2097152"
  shows "path_of a = [0, 0, 0] @ [a div 4096]"
proof -
  define x where "x = a div 4096"
  have d: "drop_bit 12 a = x" by (simp add: x_def drop_bit_eq_div)
  have u: "unat x < 512" using assms by (simp add: x_def unat_div less_mult_imp_div_less)
  have "x AND 0x1ff = take_bit 9 x" by (simp add: take_bit_eq_mask mask_eq_exp_minus_1)
  also have "\<dots> = x" using u by (simp add: word_unat_eq_iff unsigned_take_bit_eq take_bit_nat_eq_self_iff)
  finally have m: "x AND 0x1ff = x" .
  have "drop_bit 9 x = 0" "drop_bit 18 x = 0" "drop_bit 27 x = 0"
    using u by (simp_all add: word_unat_eq_iff drop_bit_eq_div unat_div)
  then show ?thesis by (simp add: path_of_def PageMapIndexer_def Let_def d m flip: x_def)
qed

lemma page_entries_load:
  "n \<le> 512 \<Longrightarrow> page_aligned t \<Longrightarrow> unat i < 512 \<Longrightarrow> load64 (page_entries n m) (t + i * 8) =
    (if t = 0x4000 \<and> unat i < n then of_nat (4096 * unat i + 3) else load64 m (t + i * 8))"
proof (induction n)
  case (Suc n)
  have un: "unat (of_nat n :: u64) = n" using Suc.prems by (intro unat_of_nat64) simp
  have e: "(of_nat n :: u64) = i \<longleftrightarrow> unat i = n" using un by (auto simp: word_unat_eq_iff)
  have "page_entries (Suc n) m = store64 (0x4000 + of_nat n * 8) (of_nat (4096 * n + 3)) (page_entries n m)"
    by (simp add: page_entries_def)
  moreover have "page_aligned 0x4000" by (simp add: page_aligned_def)
  moreover have "unat (of_nat n :: u64) < 512" using Suc.prems un by simp
  ultimately show ?case
    using Suc load64_entry_other [of "0x4000" "of_nat n" t i "of_nat (4096 * n + 3)" "page_entries n m"] e
    by (cases "t = 0x4000 \<and> unat i = n") auto
qed (simp add: page_entries_def)

lemma one_disk_entry:
  assumes "small_file f p" and "t \<in> {0x1000, 0x2000, 0x3000, 0x4000}" and "unat i < 512"
  shows "load64 (one_disk f p) (t + i * 8) =
    (if t = 0x4000 \<and> unat i < 10 then of_nat (4096 * unat i + 3) else load64 four_tables (t + i * 8))"
proof -
  have t: "page_aligned t" "unat t \<le> 0x4000" using assms(2) by (auto simp: page_aligned_def)
  have "one_disk f p (t + i * 8 + of_nat k) = page_entries 10 four_tables (t + i * 8 + of_nat k)" if "k < 8" for k
    using quad_byte [OF entry_addr_8 [OF t(1) assms(3)] that] entry_addr [OF t(1) assms(3)] t(2) assms(3) that
    by (intro one_disk_low [OF assms(1)]) simp
  then have "load64 (one_disk f p) (t + i * 8) = load64 (page_entries 10 four_tables) (t + i * 8)" by (rule load64_cong)
  then show ?thesis using page_entries_load [OF _ t(1) assms(3), of 10 four_tables] by simp
qed

lemma one_disk_walk:
  assumes "small_file f p"
  shows "length q \<le> 3 \<Longrightarrow> idx_ok q \<Longrightarrow> walk (one_disk f p) 0x1000 q = walk four_tables 0x1000 q"
proof (induction q rule: rev_induct)
  case (snoc i q)
  then have IH: "walk (one_disk f p) 0x1000 q = walk four_tables 0x1000 q" by simp
  show ?case
  proof (cases "walk four_tables 0x1000 q")
    case None
    then show ?thesis by (simp only: walk_snoc IH Option.bind.simps)
  next
    case (Some t)
    have t: "(q, t) \<in> {([], 0x1000), ([0], 0x2000), ([0, 0], 0x3000), ([0, 0, 0], 0x4000)}"
      using snoc.prems by (intro four_tables_walk Some) simp_all
    then have "t \<noteq> 0x4000" "t \<in> {0x1000, 0x2000, 0x3000, 0x4000}" using snoc.prems(1) by auto
    then have "load64 (one_disk f p) (t + i * 8) = load64 four_tables (t + i * 8)"
      using one_disk_entry [OF assms, of t i] snoc.prems(2) by simp
    then show ?thesis by (simp only: walk_snoc IH Some Option.bind.simps)
  qed
qed (simp only: walk.simps)

lemma one_disk_tables:
  assumes "small_file f p"
  shows "tables_ok {1, 2, 3, 4} (one_disk f p) 0x1000"
    and "unat a < 40960 \<Longrightarrow> translate (one_disk f p) 0x1000 a \<noteq> None"
proof -
  show "tables_ok {1, 2, 3, 4} (one_disk f p) 0x1000"
    by (rule tables_ok_walk_cong [OF four_tables_ok]) (simp add: one_disk_walk [OF assms])
  assume a: "unat a < 40960"
  then have i: "unat (a div 4096) < 10" by (simp add: unat_div less_mult_imp_div_less)
  have "path_of a = [0, 0, 0] @ [a div 4096]" using a by (intro low_path_of) simp
  moreover have "walk (one_disk f p) 0x1000 [0, 0, 0] = Some 0x4000"
    using one_disk_walk [OF assms, of "[0, 0, 0]"] by (simp add: four_tables_level del: walk.simps(2))
  moreover have "load64 (one_disk f p) (0x4000 + a div 4096 * 8) = of_nat (4096 * unat (a div 4096) + 3)"
    using i by (subst one_disk_entry [OF assms]) simp_all
  moreover have "odd (of_nat (4096 * unat (a div 4096) + 3) :: u64)" by simp
  ultimately show "translate (one_disk f p) 0x1000 a \<noteq> None"
    by (auto simp: translate_def walk_snoc bit_0 simp del: walk.simps(2) append.simps)
qed

text \<open>The pages 0 to 4 are in use.\<close>

definition user_pages :: pfa where
  "user_pages = some_pages\<lparr>PageBitmap := \<lparr>Size = 1, Buffer = (\<lambda>_. 0xF8)\<rparr>, pageBitmapIndex := 0\<rparr>"

lemma user_pages_ok: "source_fine user_pages" "RequestPage user_pages = Inr (0x5000, LockPage 0x5000 (user_pages\<lparr>pageBitmapIndex := 5\<rparr>))"
  "{1, 2, 3, 4} \<subseteq> taken user_pages"
proof -
  show "source_fine user_pages" by (simp add: source_fine_def hint_ok_def user_pages_def some_pages_def)
  show "RequestPage user_pages = Inr (0x5000, LockPage 0x5000 (user_pages\<lparr>pageBitmapIndex := 5\<rparr>))"
    by (simp add: RequestPage.simps user_pages_def some_pages_def Get_def top_bit_def)
  have "Get (PageBitmap user_pages) 1" "Get (PageBitmap user_pages) 2" "Get (PageBitmap user_pages) 3"
    "Get (PageBitmap user_pages) 4"
    by (simp_all add: user_pages_def some_pages_def Get_def top_bit_def)
  then show "{1, 2, 3, 4} \<subseteq> taken user_pages" by (simp add: Get_taken)
qed

definition user_kernel :: "u8 list \<times> u8 list \<Rightarrow> unit kernel \<Rightarrow> unit kernel" where
  "user_kernel f k = k\<lparr>k_mem := one_disk f (47 # fst f), k_root := 0x1000, k_pfa := user_pages, k_ramfs := 0x10000, k_files := [0x20000]\<rparr>"

lemma user_kernel_simps [simp]:
  "k_mem (user_kernel f k) = one_disk f (47 # fst f)" "k_files (user_kernel f k) = [0x20000]" "k_ramfs (user_kernel f k) = 0x10000"
  "k_pfa (user_kernel f k) = user_pages" "k_root (user_kernel f k) = 0x1000"
  by (simp_all add: user_kernel_def)

theorem user_reads_file_witness:
  "\<forall>E k regs. \<exists>m. with_value (fopen E regs 0x30000 0) (fread E regs 0x40000 2 1) (user_kernel ([115, 104], [4, 5]) k) =
      Some (Inr ((user_kernel ([115, 104], [4, 5]) k)\<lparr>k_pfa := LockPage 0x5000 (user_pages\<lparr>pageBitmapIndex := 5\<rparr>), k_mem := m\<rparr>)) \<and>
    bytes_at m 0x40000 2 = [4, 5]"
proof (intro allI)
  fix E k regs
  let ?f = "([115, 104], [4, 5]) :: u8 list \<times> u8 list" and ?p = "[47, 115, 104] :: u8 list"
  let ?k = "user_kernel ?f k"
  have s: "small_file ?f ?p" by (simp add: small_file_def)
  note d = one_disk_ok [OF s] and away = one_disk_away [OF s]
  have m: "k_mem ?k = one_disk ?f ?p" by simp
  have "\<forall>x \<in> disk_bytes [?f] [0x20000] 0x10000 \<union> span 0x30000 (Suc (length ?p)). x div 4096 \<notin> insert (0x5000 div 4096) {1, 2, 3, 4}"
    using away(1) by fastforce
  moreover have "0x40000 \<notin> disk_bytes [?f] [0x20000] 0x10000" using away(2) by blast
  moreover have "translate (one_disk ?f ?p) 0x1000 0x5000 \<noteq> None" by (rule one_disk_tables [OF s]) simp
  moreover have "unat ((2 :: u64) * 1) \<le> length (snd ([?f] ! 0))" by simp
  ultimately show "\<exists>m. with_value (fopen E regs 0x30000 0) (fread E regs 0x40000 2 1) ?k =
      Some (Inr (?k\<lparr>k_pfa := LockPage 0x5000 (user_pages\<lparr>pageBitmapIndex := 5\<rparr>), k_mem := m\<rparr>)) \<and>
    bytes_at m 0x40000 2 = [4, 5]"
    using user_reads_file [of "[?f]" ?k "0x30000" ?p 0 0 "0x5000" "LockPage 0x5000 (user_pages\<lparr>pageBitmapIndex := 5\<rparr>)" "{1, 2, 3, 4}"
        2 1 "0x40000" E regs 0] d one_disk_tables(1) [OF s] user_pages_ok by auto
qed

end
