(* ===== verification/Syscalls.thy ===== *)
theory Syscalls
  imports Kernel
begin

unbundle bit_operations_syntax

text \<open>
  What user programs get from the system calls of \<open>userspace/userspace.cpp\<close>: the memory of
  \<open>SYSCALL_ALLOCATEMEMORY\<close> and the task that \<open>SYSCALL_GETPIDBYNAME\<close> finds.
\<close>

section \<open>Memory\<close>

text \<open>The addresses of \<open>A\<close> are opened to user code, by writes to the page tables only.\<close>

definition opened :: "u64 set \<Rightarrow> u64 \<Rightarrow> mem \<Rightarrow> u64 set \<Rightarrow> mem \<Rightarrow> bool" where
  "opened U root m A m' \<longleftrightarrow> tables_ok U m' root \<and> (\<forall>w. translate m' root w = translate m root w) \<and>
     (\<forall>a \<in> A. all_user m' root (path_of a)) \<and> (\<forall>x. x div 4096 \<notin> U \<longrightarrow> m' x = m x) \<and>
     (\<forall>a. translate m root a \<noteq> None \<longrightarrow> all_user m root (path_of a) \<longrightarrow> all_user m' root (path_of a))"

lemma opened_refl: "tables_ok U m root \<Longrightarrow> opened U root m {} m"
  by (simp add: opened_def)

lemma opened_step:
  assumes o: "opened U root m A m'" and A: "\<And>a. a \<in> insert v A \<Longrightarrow> translate m root a \<noteq> None"
  shows "opened U root m (insert v A) (MapUserspaceMemory root v m')"
proof -
  have ok: "tables_ok U m' root" and tr: "translate m' root w = translate m root w" for w
    using o by (simp_all add: opened_def)
  obtain f where f: "walk m' root (path_of v) = Some f"
    using A [of v] tr [of v] by (auto simp: translate_def)
  note s = MapUserspaceMemory_spec [OF ok f]
  have "all_user (MapUserspaceMemory root v m') root (path_of a)"
    if "translate m root a \<noteq> None" "all_user m' root (path_of a)" for a
    using that s(4) [of "path_of a"] tr [of a] path_of_ok [of a] by (simp add: translate_def)
  then show ?thesis
    using s(1,2,3,5) o tr A path_of_ok unfolding opened_def by (auto simp: translate_def)
qed

lemma opened_range:
  "tables_ok U m root \<Longrightarrow> (\<And>j. j < n \<Longrightarrow> translate m root (b + of_nat j) \<noteq> None) \<Longrightarrow>
    opened U root m ((\<lambda>j. b + of_nat j) ` {..<n})
      (fold (\<lambda>j. MapUserspaceMemory root (b + sext (of_nat j :: i32))) [0..<n] m)" if "n \<le> 2147483648"
  using that
proof (induction n)
  case 0
  then show ?case by (simp add: opened_refl)
next
  case (Suc n)
  define f where "f n = fold (\<lambda>j. MapUserspaceMemory root (b + sext (of_nat j :: i32))) [0..<n] m" for n
  have "f (Suc n) = MapUserspaceMemory root (b + of_nat n) (f n)"
    using Suc.prems by (simp add: f_def sext_of_nat)
  moreover have "opened U root m (insert (b + of_nat n) ((\<lambda>j. b + of_nat j) ` {..<n}))
      (MapUserspaceMemory root (b + of_nat n) (f n))"
    using Suc by (intro opened_step) (auto simp: f_def)
  ultimately show ?case unfolding f_def [symmetric] by (simp add: lessThan_Suc)
qed

lemma k_map_user_fold:
  "fold (\<lambda>j. k_map_user (b + g j)) xs k = k\<lparr>k_mem := fold (\<lambda>j. MapUserspaceMemory (k_root k) (b + g j)) xs (k_mem k)\<rparr>"
  by (induction xs arbitrary: k) (simp_all add: k_map_user_def)

text \<open>What a run of pages is: its start lies below the end of the bitmap, its pages were free, or there is none.\<close>

lemma pages_run:
  assumes ad: "addressable p" and r: "pages_spec n p (b, p')"
  shows "unat b \<le> 4096 * unat (Size (PageBitmap p))" and "b = 0 \<or> (\<forall>i < unat n. b div 4096 + of_nat i \<notin> taken p)"
    and "Size (PageBitmap p') = Size (PageBitmap p)"
proof -
  have "b = 0 \<or> (\<exists>i. b = i * 4096 \<and> i < Size (PageBitmap p) \<and> (\<forall>j < unat n. i + of_nat j \<notin> taken p))"
    using r by (auto simp: pages_spec_def)
  moreover have "unat (i * 4096) = unat i * 4096 \<and> i * 4096 div 4096 = i" if "i < Size (PageBitmap p)" for i
  proof -
    have "unat i < unat (Size (PageBitmap p))" using that by (simp add: word_less_nat_alt)
    then have "unat (i * 4096) = unat i * 4096"
      using ad by (subst unat_mult_lem [THEN iffD1]) (simp_all add: addressable_def)
    then show ?thesis by (simp add: word_unat_eq_iff unat_div)
  qed
  ultimately show "unat b \<le> 4096 * unat (Size (PageBitmap p))" "b = 0 \<or> (\<forall>i < unat n. b div 4096 + of_nat i \<notin> taken p)"
    by (auto simp: word_less_nat_alt)
  show "Size (PageBitmap p') = Size (PageBitmap p)" using r by (auto simp: pages_spec_def)
qed

lemma sys_allocate_eq:
  assumes "0 < n" "unat n < 524288" "RequestPages n (k_pfa k) = Some (b, p)"
  shows "sys_allocate n k = Some (b, k\<lparr>
    k_tasks := (k_tasks k)\<lparr>tasks := (tasks (k_tasks k))(currentTask (k_tasks k) :=
      (CurrentTask k)\<lparr>memoryUse := memoryUse (CurrentTask k) + n * 4096\<rparr>)\<rparr>,
    k_pfa := p,
    k_mem := fold (\<lambda>j. MapUserspaceMemory (k_root k) (b + sext (of_nat j :: i32))) [0..<4096 * unat n + 1] (k_mem k)\<rparr>)"
proof -
  have u: "unat (4096 * n + 1) = 4096 * unat n + 1"
  proof -
    have "unat (4096 * n) = 4096 * unat n" using assms(2) by (subst unat_mult_lem [THEN iffD1]) simp_all
    then show ?thesis using assms(2) by (subst unat_add_small) simp_all
  qed
  have "for_int (4096 * n + 1) (\<lambda>i. k_map_user (b + sext i)) s =
      s\<lparr>k_mem := fold (\<lambda>j. MapUserspaceMemory (k_root s) (b + sext (of_nat j :: i32))) [0..<4096 * unat n + 1] (k_mem s)\<rparr>"
    for s :: "'a kernel"
    using assms(2) by (subst for_int_fold) (simp_all only: u k_map_user_fold)
  then show ?thesis
    using assms(1,3) by (auto simp: sys_allocate_def Let_def CurrentTask_def)
qed

section \<open>Names\<close>

text \<open>
  The comparison covers one character less than the name of the task has, since \<open>strlen\<close> returns
  the index of the last one.
\<close>

definition name_matches :: "'d kernel \<Rightarrow> u64 \<Rightarrow> (nat \<Rightarrow> u8 list) \<Rightarrow> nat \<Rightarrow> bool" where
  "name_matches k arg nm i \<longleftrightarrow> bytes_at (k_mem k) arg (length (nm i) - 1) = butlast (nm i)"

lemma pid_loop:
  assumes "\<And>i. i \<in> set xs \<Longrightarrow> cstr (k_mem k) (task_name (tasks (k_tasks k) (of_nat i))) (nm i) \<and> length (nm i) < 2147483648"
  shows "loop_list xs (\<lambda>j _. map_option (\<lambda>n.
            if memcmp (k_mem k) arg (task_name (tasks (k_tasks k) (of_nat j))) (sext n) = 0 then Inl (of_nat j :: i32) else Inr ())
          (strlen (k_mem k) (task_name (tasks (k_tasks k) (of_nat j))))) () =
    Some (case find (name_matches k arg nm) xs of Some j \<Rightarrow> Inl (of_nat j) | None \<Rightarrow> Inr ())"
  using assms
proof (induction xs)
  case (Cons i xs)
  let ?p = "task_name (tasks (k_tasks k) (of_nat i))"
  have c: "cstr (k_mem k) ?p (nm i)" "length (nm i) < 2147483648" using Cons.prems by simp_all
  have s: "sext (of_nat (length (nm i) - 1) :: i32) = (of_nat (length (nm i) - 1) :: u64)"
    using c(2) by (intro sext_of_nat) simp
  have u: "unat (of_nat (length (nm i) - 1) :: u64) = length (nm i) - 1"
    using c(2) by (intro unat_of_nat64) simp
  have "bytes_at (k_mem k) ?p (length (nm i) - 1) = butlast (nm i)"
    using cstr_nth [OF c(1)] by (intro nth_equalityI) (simp_all add: nth_butlast)
  then have "memcmp (k_mem k) arg ?p (of_nat (length (nm i) - 1)) = 0 \<longleftrightarrow> name_matches k arg nm i"
    by (simp add: memcmp_zero u [simplified] name_matches_def)
  then show ?case
    using Cons strlen_cstr [OF c] s by simp
qed simp

section \<open>Properties\<close>

text \<open>
  C15: a request of \<open>n\<close> pages returns the start of a run of pages that were free, or null when
  none is left, and in either case opens to user code every address from there on up to and
  including the first one behind the run, while no address is translated differently and no mapped
  one is closed.  Hence one page too many is opened, and after a failure the first pages of memory.
\<close>

theorem sys_allocate_opens:
  fixes k :: "'d kernel"
  assumes "tables_ok U (k_mem k) (k_root k)" and "addressable (k_pfa k)"
    and "0 < n" and "unat n < 524288"
    and "\<forall>a. unat a \<le> 4096 * (unat (Size (PageBitmap (k_pfa k))) + unat n) \<longrightarrow> translate (k_mem k) (k_root k) a \<noteq> None"
  shows "\<exists>b k'. sys_allocate n k = Some (b, k') \<and>
    (b = 0 \<or> (\<forall>i < unat n. b div 4096 + of_nat i \<notin> taken (k_pfa k))) \<and>
    (\<forall>j \<le> 4096 * unat n. all_user (k_mem k') (k_root k) (path_of (b + of_nat j))) \<and>
    (\<forall>a. translate (k_mem k') (k_root k) a = translate (k_mem k) (k_root k) a) \<and>
    (\<forall>a. translate (k_mem k) (k_root k) a \<noteq> None \<longrightarrow> all_user (k_mem k) (k_root k) (path_of a) \<longrightarrow>
       all_user (k_mem k') (k_root k) (path_of a)) \<and>
    memoryUse (CurrentTask k') = memoryUse (CurrentTask k) + n * 4096"
proof -
  let ?S = "unat (Size (PageBitmap (k_pfa k)))"
  obtain b p where r: "RequestPages n (k_pfa k) = Some (b, p)" "pages_spec n (k_pfa k) (b, p)"
    using RequestPages_spec [OF assms(2), of n] assms(4) by auto
  obtain k' where k': "sys_allocate n k = Some (b, k')" "memoryUse (CurrentTask k') = memoryUse (CurrentTask k) + n * 4096"
    "k_mem k' = fold (\<lambda>j. MapUserspaceMemory (k_root k) (b + sext (of_nat j :: i32))) [0..<4096 * unat n + 1] (k_mem k)"
    using sys_allocate_eq [OF assms(3,4) r(1)] by (simp add: CurrentTask_def)
  note b = pages_run [OF assms(2) r(2)]
  have "translate (k_mem k) (k_root k) (b + of_nat j) \<noteq> None" if "j < 4096 * unat n + 1" for j
  proof -
    have "unat (of_nat j :: u64) = j" using that assms(4) by (intro unat_of_nat64) simp
    then have "unat (b + of_nat j) = unat b + j"
      using that b(1) assms(2,4) by (subst unat_add_small) (simp_all add: addressable_def)
    then show ?thesis using assms(5) that b(1) by simp
  qed
  then have "opened U (k_root k) (k_mem k) ((\<lambda>j. b + of_nat j) ` {..<4096 * unat n + 1}) (k_mem k')"
    unfolding k'(3) using assms(1,4) by (intro opened_range) simp_all
  then show ?thesis using k'(1,2) b(2) by (auto simp: opened_def less_Suc_eq_le)
qed

text \<open>The pages 0, 2 and 3 mapped as well as page 1.\<close>

definition low_tables :: mem where
  "low_tables = store64 (0x4000 + 0 * 8) 0x0003 (store64 (0x4000 + 2 * 8) 0x2003
     (store64 (0x4000 + 3 * 8) 0x3003 four_tables))"

lemma low_tables_entry:
  assumes "page_aligned t" "unat i < 512"
  shows "load64 low_tables (t + i * 8) =
    (if t = 0x4000 then if i = 0 then 0x0003 else if i = 2 then 0x2003 else if i = 3 then 0x3003 else load64 four_tables (t + i * 8)
     else load64 four_tables (t + i * 8))"
proof -
  have st: "load64 (store64 (0x4000 + j * 8) e m) (t + i * 8) = (if t = 0x4000 \<and> i = j then e else load64 m (t + i * 8))"
    if "unat j < 512" for e m j
    using load64_entry_other [OF _ that assms, of "0x4000" e m] by (auto simp: page_aligned_def)
  have j: "unat (0 :: u64) < 512" "unat (2 :: u64) < 512" "unat (3 :: u64) < 512" by simp_all
  show ?thesis unfolding low_tables_def st [OF j(1)] st [OF j(2)] st [OF j(3)] by simp
qed

lemma low_tables_walk: "length p \<le> 3 \<Longrightarrow> idx_ok p \<Longrightarrow> walk low_tables 0x1000 p = walk four_tables 0x1000 p"
proof (induction p rule: rev_induct)
  case (snoc i q)
  then have IH: "walk low_tables 0x1000 q = walk four_tables 0x1000 q" by simp
  show ?case
  proof (cases "walk four_tables 0x1000 q")
    case None
    then show ?thesis by (simp only: walk_snoc IH Option.bind.simps)
  next
    case (Some t)
    have t: "(q, t) \<in> {([], 0x1000), ([0], 0x2000), ([0, 0], 0x3000), ([0, 0, 0], 0x4000)}"
      using snoc.prems by (intro four_tables_walk Some) simp_all
    then have "t \<noteq> 0x4000" "page_aligned t"
      using snoc.prems(1) by (auto simp: page_aligned_def)
    then have "load64 low_tables (t + i * 8) = load64 four_tables (t + i * 8)"
      using low_tables_entry [of t i] snoc.prems(2) by simp
    then show ?thesis by (simp only: walk_snoc IH Some Option.bind.simps)
  qed
qed (simp only: walk.simps)

lemma low_tables_ok: "tables_ok {1, 2, 3, 4} low_tables 0x1000"
  by (rule tables_ok_walk_cong [OF four_tables_ok]) (simp add: low_tables_walk)

lemma low_tables_translate:
  assumes "unat a \<le> 0x3000"
  shows "translate low_tables 0x1000 a \<noteq> None"
proof -
  define x where "x = drop_bit 12 a"
  have "unat x = unat a div 4096" by (simp add: x_def drop_bit_eq_div unat_div)
  then have "unat x = 0 \<or> unat x = 1 \<or> unat x = 2 \<or> unat x = 3" using assms by linarith
  then have "x = 0 \<or> x = 1 \<or> x = 2 \<or> x = 3" unfolding word_unat_eq_iff by simp
  then have "path_of a = path_of 0 \<or> path_of a = path_of 0x1000 \<or> path_of a = path_of 0x2000 \<or> path_of a = path_of 0x3000"
    by (auto simp: path_of_eq_iff PageMapIndexer_eq_iff x_def [symmetric])
  moreover have "path_of 0 = [0, 0, 0] @ [0]" "path_of 0x1000 = [0, 0, 0] @ [1]" "path_of 0x2000 = [0, 0, 0] @ [2]"
    "path_of 0x3000 = [0, 0, 0] @ [3]"
    by (simp_all add: path_of_def PageMapIndexer_def Let_def)
  moreover have "walk low_tables 0x1000 [0, 0, 0] = Some 0x4000"
    using low_tables_walk [of "[0, 0, 0]"] by (simp add: four_tables_level del: walk.simps(2))
  moreover have "load64 low_tables (0x4000 + 0 * 8) = 3" "load64 low_tables (0x4000 + 1 * 8) = 0x5003"
    "load64 low_tables (0x4000 + 2 * 8) = 0x2003" "load64 low_tables (0x4000 + 3 * 8) = 0x3003"
    using low_tables_entry [of "0x4000" 0] low_tables_entry [of "0x4000" 1] low_tables_entry [of "0x4000" 2]
      low_tables_entry [of "0x4000" 3] four_tables_entry [of "0x4000" 1]
    by (simp_all add: page_aligned_def)
  ultimately show ?thesis
    by (auto simp: translate_def walk_snoc bit_0 simp del: walk.simps(2) append.simps)
qed

theorem sys_allocate_opens_witness:
  "\<forall>k :: unit kernel. \<exists>b k'.
     sys_allocate 1 (k\<lparr>k_mem := low_tables, k_root := 0x1000,
       k_pfa := some_pages\<lparr>PageBitmap := \<lparr>Size = 2, Buffer = (\<lambda>_. 0xB0)\<rparr>\<rparr>\<rparr>) = Some (b, k') \<and>
     all_user (k_mem k') 0x1000 (path_of (b + 0x1000))"
proof
  fix k :: "unit kernel"
  let ?k = "k\<lparr>k_mem := low_tables, k_root := 0x1000, k_pfa := some_pages\<lparr>PageBitmap := \<lparr>Size = 2, Buffer = (\<lambda>_. 0xB0)\<rparr>\<rparr>\<rparr>"
  have "tables_ok {1, 2, 3, 4} (k_mem ?k) (k_root ?k)" "addressable (k_pfa ?k)"
    by (simp_all add: low_tables_ok addressable_def)
  from sys_allocate_opens [OF this, of 1] low_tables_translate
  obtain b k' where r: "sys_allocate 1 ?k = Some (b, k')"
    "\<forall>j \<le> 4096. all_user (k_mem k') 0x1000 (path_of (b + of_nat j))" by auto
  from r(2) have "all_user (k_mem k') 0x1000 (path_of (b + of_nat 4096))" by blast
  with r(1) show "\<exists>b k'. sys_allocate 1 ?k = Some (b, k') \<and> all_user (k_mem k') 0x1000 (path_of (b + 0x1000))"
    by auto
qed

text \<open>
  \<open>SYSCALL_GETPIDBYNAME\<close> returns the least position whose task's name, without its last
  character, is what the given string begins with, and \<open>2 ^ 64 - 1\<close> when there is none.
\<close>

theorem sys_pid_by_name_finds:
  assumes "\<forall>i < 1024. cstr (k_mem k) (task_name (tasks (k_tasks k) (of_nat i))) (nm i) \<and> length (nm i) < 2147483648"
  shows "sys_pid_by_name arg k =
    Some (case find (name_matches k arg nm) [0..<1024] of Some i \<Rightarrow> of_nat i | None \<Rightarrow> 0xFFFFFFFFFFFFFFFF)"
proof -
  have l: "find (name_matches k arg nm) [0..<1024] = Some i \<Longrightarrow> i < 1024" for i
    by (auto simp: find_Some_iff)
  then have "find (name_matches k arg nm) [0..<1024] = Some i \<Longrightarrow> sext (of_nat i :: i32) = (of_nat i :: u64)" for i
    by (intro sext_of_nat) fastforce
  then show ?thesis
    using pid_loop [of "[0..<1024]" k nm arg] assms
    by (simp add: sys_pid_by_name_def loop_int_list split: option.splits)
qed

definition named_tasks :: "unit kernel \<Rightarrow> unit kernel" where
  "named_tasks k = k\<lparr>k_mem := put_str 0x300 (bytes_of ''ini!'') (put_str 0x200 (bytes_of ''init'') (put_str 0x100 (bytes_of ''idle'') (\<lambda>_. 0))),
     k_tasks := (k_tasks k)\<lparr>tasks := (\<lambda>i. (tasks (k_tasks k) i)\<lparr>task_name := if i = 1 then 0x200 else 0x100\<rparr>)\<rparr>\<rparr>"

theorem sys_pid_by_name_finds_witness:
  "\<forall>k. sys_pid_by_name 0x300 (named_tasks k) = Some 1"
proof
  fix k :: "unit kernel"
  let ?k = "named_tasks k" and ?nm = "\<lambda>i :: nat. if i = 1 then bytes_of ''init'' else bytes_of ''idle''"
  have c: "cstr (k_mem ?k) 0x100 (bytes_of ''idle'')" "cstr (k_mem ?k) 0x200 (bytes_of ''init'')"
    by (simp_all add: named_tasks_def bytes_of_def)
  have "task_name (tasks (k_tasks ?k) (of_nat i)) = (if i = 1 then 0x200 else 0x100)" if "i < 1024" for i
    using that by (simp add: named_tasks_def word_unat_eq_iff unat_of_nat32)
  then have n: "\<forall>i < 1024. cstr (k_mem ?k) (task_name (tasks (k_tasks ?k) (of_nat i))) (?nm i) \<and> length (?nm i) < 2147483648"
    using c by (simp add: bytes_of_def)
  have "bytes_at (k_mem ?k) 0x300 3 = butlast (bytes_of ''init'')" "bytes_at (k_mem ?k) 0x300 3 \<noteq> butlast (bytes_of ''idle'')"
    by (simp_all add: named_tasks_def bytes_of_def bytes_at_Suc numeral_3_eq_3)
  moreover have "length (?nm i) - 1 = 3" for i by (simp add: bytes_of_def)
  ultimately have m: "name_matches ?k 0x300 ?nm i \<longleftrightarrow> i = 1" for i by (simp only: name_matches_def split: if_splits) simp
  have "[0..<1024] = 0 # [Suc 0..<1024]" "[Suc 0..<1024] = Suc 0 # [Suc (Suc 0)..<1024]"
    by (rule upt_conv_Cons, simp)+
  then have "find (name_matches ?k 0x300 ?nm) [0..<1024] = Some 1"
    by (simp only: find.simps m) simp
  then show "sys_pid_by_name 0x300 ?k = Some 1" using sys_pid_by_name_finds [OF n, of "0x300"] by simp
qed

end
