(* ===== verification/Startup.thy ===== *)
theory Startup
  imports UserFiles Syscalls
begin

text \<open>
  The end of \<open>kernelMain\<close>: the two first tasks, their stacks, and what the first interrupt of the
  timer after them runs.
\<close>

section \<open>Stacks\<close>

lemma for_pages_fold:
  "unat a + 4096 * n < 18446744073709551616 \<Longrightarrow>
    for_pages (\<lambda>t. does (f t)) a (a + of_nat (4096 * n)) k = Some (Inr (fold (\<lambda>j. f (a + of_nat (4096 * j))) [0..<n] k))"
proof (induction n arbitrary: a k)
  case 0
  then show ?case by (simp add: for_pages.simps [of _ a])
next
  case (Suc n)
  have u: "unat (a + 4096) = unat a + 4096" using Suc.prems by (subst unat_add_small) simp_all
  have "unat (of_nat (4096 * Suc n) :: u64) = 4096 * Suc n" using Suc.prems by (intro unat_of_nat64) simp
  then have "unat (a + of_nat (4096 * Suc n)) = unat a + 4096 * Suc n"
    using Suc.prems by (subst unat_add_small) simp_all
  then have lt: "a < a + of_nat (4096 * Suc n)" by (simp add: word_less_nat_alt)
  have s: "a + of_nat (4096 * Suc n) = (a + 4096) + of_nat (4096 * n)" by simp
  have "[0..<Suc n] = 0 # map Suc [0..<n]" by (simp only: map_Suc_upt upt_conv_Cons [OF zero_less_Suc])
  then have "fold (\<lambda>j. f (a + of_nat (4096 * j))) [0..<Suc n] k =
      fold (\<lambda>j. f (a + of_nat (4096 * Suc j))) [0..<n] (f a k)"
    by (simp only: fold_simps fold_map o_def) simp
  moreover have "(\<lambda>j. f (a + of_nat (4096 * Suc j))) = (\<lambda>j. f (a + 4096 + of_nat (4096 * j)))"
    by (simp add: add.assoc)
  ultimately have "fold (\<lambda>j. f (a + 4096 + of_nat (4096 * j))) [0..<n] (f a k) =
      fold (\<lambda>j. f (a + of_nat (4096 * j))) [0..<Suc n] k" by (simp only:)
  moreover have "for_pages (\<lambda>t. does (f t)) a (a + of_nat (4096 * Suc n)) k =
      for_pages (\<lambda>t. does (f t)) (a + 4096) (a + 4096 + of_nat (4096 * n)) (f a k)"
    using lt unfolding s by (subst for_pages.simps) (simp only: does_def if_True option.case sum.case)
  moreover have "unat (a + 4096) + 4096 * n < 18446744073709551616" using Suc.prems u by simp
  ultimately show ?case using Suc.IH [of "a + 4096" "f a k"] by (simp only:)
qed

text \<open>What the start of a task keeps of the kernel and opens to user code.\<close>

definition prepares :: "u64 set \<Rightarrow> 'd kernel \<Rightarrow> u64 set \<Rightarrow> 'd kernel \<Rightarrow> bool" where
  "prepares U k A k' \<longleftrightarrow> (\<exists>p m tm. k' = k\<lparr>k_pfa := p, k_mem := m, k_tasks := tm\<rparr>) \<and>
     Size (PageBitmap (k_pfa k')) = Size (PageBitmap (k_pfa k)) \<and>
     opened U (k_root k) (k_mem k) A (k_mem k') \<and> (\<forall>a \<in> A. translate (k_mem k) (k_root k) a \<noteq> None)"

lemma prepares_refl: "tables_ok U (k_mem k) (k_root k) \<Longrightarrow> prepares U k {} k"
  unfolding prepares_def using opened_refl
  by (intro conjI exI [of _ "k_pfa k"] exI [of _ "k_mem k"] exI [of _ "k_tasks k"]) simp_all

lemma opened_trans: "opened U root m A m' \<Longrightarrow> opened U root m' B m'' \<Longrightarrow> (\<And>a. a \<in> A \<Longrightarrow> translate m root a \<noteq> None) \<Longrightarrow>
    opened U root m (A \<union> B) m''"
  unfolding opened_def by auto

lemma prepares_root: "prepares U k A k' \<Longrightarrow> k_root k' = k_root k"
  by (auto simp: prepares_def)

lemma prepares_trans:
  assumes "prepares U k A k'" "prepares U k' B k''"
  shows "prepares U k (A \<union> B) k''"
proof -
  have "opened U (k_root k) (k_mem k) (A \<union> B) (k_mem k'')"
    using assms(1,2) prepares_root [OF assms(1)] by (intro opened_trans [where m' = "k_mem k'"]) (auto simp: prepares_def)
  moreover have "\<exists>p m tm. k'' = k\<lparr>k_pfa := p, k_mem := m, k_tasks := tm\<rparr>"
  proof -
    from assms(1,2) obtain p m tm p' m' tm' where "k' = k\<lparr>k_pfa := p, k_mem := m, k_tasks := tm\<rparr>"
      "k'' = k'\<lparr>k_pfa := p', k_mem := m', k_tasks := tm'\<rparr>" by (auto simp: prepares_def)
    then have "k'' = k\<lparr>k_pfa := p', k_mem := m', k_tasks := tm'\<rparr>" by simp
    then show ?thesis by blast
  qed
  moreover have "\<forall>a \<in> A \<union> B. translate (k_mem k) (k_root k) a \<noteq> None"
    using assms prepares_root [OF assms(1)] by (auto simp: prepares_def opened_def)
  ultimately show ?thesis using assms(1,2) by (auto simp: prepares_def)
qed

lemma prepares_tasks: "prepares U k A k' \<Longrightarrow> prepares U k A (k'\<lparr>k_tasks := tm\<rparr>)"
proof -
  assume p: "prepares U k A k'"
  then obtain p' m tm' where "k' = k\<lparr>k_pfa := p', k_mem := m, k_tasks := tm'\<rparr>" by (auto simp: prepares_def)
  then have "k'\<lparr>k_tasks := tm\<rparr> = k\<lparr>k_pfa := p', k_mem := m, k_tasks := tm\<rparr>" by simp
  then have "\<exists>p m t. k'\<lparr>k_tasks := tm\<rparr> = k\<lparr>k_pfa := p, k_mem := m, k_tasks := t\<rparr>" by blast
  then show ?thesis using p by (simp add: prepares_def)
qed

lemma map_user_prepares:
  assumes "tables_ok U (k_mem k) (k_root k)" and "translate (k_mem k) (k_root k) a \<noteq> None"
  shows "prepares U k {a} (k_map_user a k)"
proof -
  have "opened U (k_root k) (k_mem k) {a} (MapUserspaceMemory (k_root k) a (k_mem k))"
    using opened_step [OF opened_refl [OF assms(1)], of a] assms(2) by simp
  then show ?thesis
    unfolding prepares_def k_map_user_def using assms(2)
    by (intro conjI exI [of _ "k_pfa k"] exI [of _ "MapUserspaceMemory (k_root k) a (k_mem k)"] exI [of _ "k_tasks k"]) simp_all
qed

lemma map_users_prepares:
  assumes "tables_ok U (k_mem k) (k_root k)" and "\<And>j. j < n \<Longrightarrow> translate (k_mem k) (k_root k) (b j) \<noteq> None"
  shows "prepares U k (b ` {..<n}) (fold (\<lambda>j. k_map_user (b j)) [0..<n] k)"
  using assms(2)
proof (induction n)
  case 0
  then show ?case using prepares_refl [OF assms(1)] by simp
next
  case (Suc n)
  let ?k = "fold (\<lambda>j. k_map_user (b j)) [0..<n] k"
  have p: "prepares U k (b ` {..<n}) ?k" using Suc by simp
  then have "tables_ok U (k_mem ?k) (k_root ?k)" "translate (k_mem ?k) (k_root ?k) (b n) \<noteq> None"
    using Suc.prems prepares_root [OF p] by (simp_all add: prepares_def opened_def)
  then have "prepares U k (b ` {..<n} \<union> {b n}) (k_map_user (b n) ?k)"
    by (intro prepares_trans [OF p] map_user_prepares)
  then show ?case by (simp add: lessThan_Suc)
qed

text \<open>Memory below the end of the bitmap, and eight pages more, is mapped.\<close>

definition low_mapped :: "u64 set \<Rightarrow> 'd kernel \<Rightarrow> bool" where
  "low_mapped U k \<longleftrightarrow> tables_ok U (k_mem k) (k_root k) \<and> addressable (k_pfa k) \<and>
     (\<forall>a. unat a \<le> 4096 * (unat (Size (PageBitmap (k_pfa k))) + 8) \<longrightarrow> translate (k_mem k) (k_root k) a \<noteq> None)"

lemma prepares_low_mapped: "prepares U k A k' \<Longrightarrow> low_mapped U k \<Longrightarrow> low_mapped U k'"
  unfolding low_mapped_def by (auto simp: prepares_def opened_def addressable_def)

text \<open>The pages of a stack.\<close>

definition stack_pages :: "u64 \<Rightarrow> u64 set" where
  "stack_pages b = (\<lambda>n. b + of_nat (4096 * n)) ` {..<8}"

text \<open>Eight pages that were granted are in use afterwards.\<close>

lemma stack_locked:
  assumes ad: "addressable p" and r: "pages_spec 8 p (b, p')" and b: "b \<noteq> 0" and i: "i < 8"
  shows "b div 4096 + of_nat i \<in> taken p'"
proof -
  obtain x where x: "b = x * 4096" "x < Size (PageBitmap p)" "p' = LockPages b 8 (p\<lparr>pageBitmapIndex := x + 8\<rparr>)"
    using r b by (auto simp: pages_spec_def)
  let ?S = "unat (Size (PageBitmap p))"
  have xs: "unat x < ?S" "?S \<le> 562949953421311" using x(2) ad by (simp_all add: word_less_nat_alt addressable_def)
  then have ub: "unat b = unat x * 4096" unfolding x(1) by (subst unat_mult_lem [THEN iffD1]) simp_all
  then have d: "b div 4096 = x" by (simp add: word_unat_eq_iff unat_div)
  have "unat (of_nat i :: u64) = i" using i by (intro unat_of_nat64) simp
  then have ui: "unat (x + of_nat i) = unat x + i" using xs i by (subst unat_add_small) simp_all
  have "int_range b 8" using ub xs by (simp add: int_range_def)
  then have "taken p' = taken (p\<lparr>pageBitmapIndex := x + 8\<rparr>) \<union> (page_range b 8 \<inter> {..last_index (p\<lparr>pageBitmapIndex := x + 8\<rparr>)})"
    unfolding x(3) by (rule taken_LockPages)
  moreover have "x + of_nat i \<in> page_range b 8" using ub ui i by (simp add: page_range_def)
  moreover have "x + of_nat i \<le> last_index p"
    using unat_last_index [OF ad] ui xs i by (simp add: word_le_nat_alt)
  ultimately show ?thesis by (simp add: d)
qed

lemma GenerateUserspaceStack_spec:
  assumes "low_mapped U k"
  obtains b k' where "GenerateUserspaceStack k = Some (Inr (b, k'))" "prepares U k (stack_pages b) k'"
    "k_tasks k' = k_tasks k" "b = 0 \<or> (\<forall>i < 8. b div 4096 + of_nat i \<notin> taken (k_pfa k) \<and> b div 4096 + of_nat i \<in> taken (k_pfa k'))"
proof -
  let ?S = "unat (Size (PageBitmap (k_pfa k)))"
  have ad: "addressable (k_pfa k)" and ok: "tables_ok U (k_mem k) (k_root k)" using assms by (simp_all add: low_mapped_def)
  obtain b p where r: "RequestPages 8 (k_pfa k) = Some (b, p)" "pages_spec 8 (k_pfa k) (b, p)"
    using RequestPages_spec [OF ad, of 8] by auto
  note b = pages_run [OF ad r(2)]
  have lt: "unat b + 4096 * 8 < 18446744073709551616" using b(1) ad by (simp add: addressable_def)
  let ?k = "k\<lparr>k_pfa := p\<rparr>" and ?b = "\<lambda>j. b + of_nat (4096 * j) :: u64"
  have tr: "translate (k_mem ?k) (k_root ?k) (?b j) \<noteq> None" if "j < 8" for j
  proof -
    have "unat (of_nat (4096 * j) :: u64) = 4096 * j" using that by (intro unat_of_nat64) simp
    then have "unat (?b j) = unat b + 4096 * j" using that lt by (subst unat_add_small) simp_all
    then show ?thesis using assms b(1) that by (simp add: low_mapped_def)
  qed
  let ?k' = "fold (\<lambda>j. k_map_user (?b j)) [0..<8] ?k"
  have "prepares U k {} ?k"
    unfolding prepares_def using b(3) opened_refl [OF ok]
    by (intro conjI exI [of _ p] exI [of _ "k_mem k"] exI [of _ "k_tasks k"]) simp_all
  moreover have "prepares U ?k (?b ` {..<8}) ?k'" using ok by (intro map_users_prepares tr) simp_all
  ultimately have p: "prepares U k ({} \<union> ?b ` {..<8}) ?k'" by (rule prepares_trans)
  have "k_tasks ?k' = k_tasks k" "k_pfa ?k' = p" by (simp_all add: k_map_user_fold)
  moreover have "GenerateUserspaceStack k = Some (Inr (b, ?k'))"
    using r(1) for_pages_fold [OF lt, of k_map_user ?k] by (simp add: GenerateUserspaceStack_def)
  moreover have "b = 0 \<or> (\<forall>i < 8. b div 4096 + of_nat i \<notin> taken (k_pfa k) \<and> b div 4096 + of_nat i \<in> taken p)"
    using b(2) stack_locked [OF ad r(2)] by (cases "b = 0") simp_all
  ultimately show ?thesis using that p by (simp add: stack_pages_def)
qed

section \<open>Tasks\<close>

definition with_task :: "nat \<Rightarrow> task \<Rightarrow> taskmgr \<Rightarrow> taskmgr" where
  "with_task i t tm = tm\<lparr>lastTerminal := lastTerminal tm + 1,
     taskNum := (if sint (taskNum tm) \<le> int i then of_nat (Suc i) else taskNum tm), tasks := (tasks tm)(of_nat i := t)\<rparr>"

lemma start_task_spec:
  assumes low: "low_mapped U k" and e: "translate (k_mem k) (k_root k) entry \<noteq> None" and s: "size_of k = Some sz"
    and i: "first_halted (tasks (k_tasks k)) 0 = Some (of_nat i)" "i < 1024"
  obtains b k' where "start_task entry name priv size_of k = Some (Inr k')"
    "prepares U k (insert entry (stack_pages b)) k'"
    "k_tasks k' = with_task i (new_task (GDTInfoSelectors (k_gdt k)) entry b name priv sz (lastTerminal (k_tasks k))) (k_tasks k)"
    "b = 0 \<or> (\<forall>i < 8. b div 4096 + of_nat i \<notin> taken (k_pfa k) \<and> b div 4096 + of_nat i \<in> taken (k_pfa k'))"
proof -
  obtain b k1 where g: "GenerateUserspaceStack k = Some (Inr (b, k1))"
    "prepares U k (stack_pages b) k1" "k_tasks k1 = k_tasks k"
    "b = 0 \<or> (\<forall>i < 8. b div 4096 + of_nat i \<notin> taken (k_pfa k) \<and> b div 4096 + of_nat i \<in> taken (k_pfa k1))"
    using GenerateUserspaceStack_spec [OF low] .
  let ?A = "stack_pages b"
  have sel: "k_gdt k1 = k_gdt k" using g(2) by (auto simp: prepares_def)
  have si: "sint (of_nat i :: i32) = int i" "(of_nat i :: i32) + 1 = of_nat (Suc i)"
    using i(2) sint_of_nat32 [of i] by simp_all
  let ?t = "new_task (GDTInfoSelectors (k_gdt k)) entry b name priv sz (lastTerminal (k_tasks k))"
  let ?k2 = "k_map_user b (k_map_user entry k1)"
  let ?k' = "?k2\<lparr>k_tasks := with_task i ?t (k_tasks k)\<rparr>"
  have same: "k_tasks ?k2 = k_tasks k" "k_root ?k2 = k_root k1" "k_pfa ?k2 = k_pfa k1" by (simp_all add: k_map_user_def g(3))
  have step: "prepares U k (insert a B) (k_map_user a k')"
    if "prepares U k B k'" "translate (k_mem k) (k_root k) a \<noteq> None" for a B k'
  proof -
    have "tables_ok U (k_mem k') (k_root k')" "translate (k_mem k') (k_root k') a \<noteq> None"
      using that prepares_root [OF that(1)] by (simp_all add: prepares_def opened_def)
    then have "prepares U k (B \<union> {a}) (k_map_user a k')"
      by (intro prepares_trans [OF that(1)] map_user_prepares)
    then show ?thesis by simp
  qed
  have A: "b \<in> ?A" unfolding stack_pages_def by (rule image_eqI [of _ _ 0]) simp_all
  then have "translate (k_mem k) (k_root k) b \<noteq> None" using g(2) unfolding prepares_def by blast
  then have "prepares U k (insert b (insert entry ?A)) ?k2" by (intro step step [OF g(2) e])
  then have "prepares U k (insert entry ?A) ?k2" using A by (simp add: insert_absorb)
  then have "prepares U k (insert entry ?A) ?k'" by (rule prepares_tasks)
  moreover have "start_task entry name priv size_of k = Some (Inr ?k')"
    by (simp add: start_task_def s g(1) AddTask_def Let_def g(3) sel i(1) si with_task_def k_map_user_def)
  ultimately show ?thesis using that g(4) same(3) by simp
qed

text \<open>
  The state in which \<open>kernelMain\<close> starts the tasks: an empty table, the disk in order with the path
  of the first program on it, and the code of both tasks mapped; nothing that is read lies in a
  page table.
\<close>

definition boot_ready :: "u64 set \<Rightarrow> 'd env \<Rightarrow> u64 \<Rightarrow> (u8 list \<times> u8 list) list \<Rightarrow> nat \<Rightarrow> nat \<Rightarrow> 'd kernel \<Rightarrow> bool" where
  "boot_ready U E moldInit files i j k \<longleftrightarrow>
     low_mapped U k \<and> (\<forall>i < 1024. \<not> runnable (k_tasks k) i) \<and> currentTask (k_tasks k) = 0 \<and> taskNum (k_tasks k) = 0 \<and>
     translate (k_mem k) (k_root k) (env_sym E ''IdleTask'') \<noteq> None \<and> translate (k_mem k) (k_root k) moldInit \<noteq> None \<and>
     disk_ok files (k_files k) (k_ramfs k) (k_mem k) \<and> 0 \<notin> set (k_files k) \<and>
     cstr (k_mem k) (env_lit E ''/minit.melf'') (bytes_of ''/minit.melf'') \<and>
     find_path (bytes_of ''/minit.melf'') (map entry_path files) = Some i \<and>
     lookup_name (take 367 (pad_name (fst (files ! i)))) files = Some j \<and>
     (\<forall>x \<in> disk_bytes files (k_files k) (k_ramfs k) \<union> span (env_lit E ''/minit.melf'') 12. x div 4096 \<notin> U)"

lemma disk_size:
  assumes "disk_ok files ds fs m" and "i < length files" and "ds ! i \<noteq> 0"
    and "lookup_name (take 367 (pad_name (fst (files ! i)))) files = Some j"
  shows "VFSSizeFile m fs (ds ! i) = Some (of_nat (length (snd (files ! j))))"
proof -
  have ok: "files_ok files" "loaded m fs (build_llfs files)" and len: "length (fst (files ! i)) \<le> 368" "0 \<notin> set (fst (files ! i))"
    and d: "bytes_at m (ds ! i) 368 = 47 # take 367 (pad_name (fst (files ! i)))" "m (ds ! i + 368) = VFS_SOURCE_RAMFS" "m (ds ! i + 369) = 0"
    using assms(1,2) by (auto simp: disk_ok_def files_ok_def)
  let ?s = "take 367 (pad_name (fst (files ! i))) @ [1]"
  have c: "cstr m (ds ! i + 1) ?s" by (rule entry_path_cstr [OF d len])
  have l: "length ?s \<le> 368" "butlast ?s = take 367 (pad_name (fst (files ! i)))" by simp_all
  show ?thesis
    using llfs_reads_image [OF ok(2,1) c l(1)] assms(3,4) d(2) unfolding l(2) by (auto simp: VFSSizeFile_def)
qed

lemma minit_size:
  assumes b: "boot_ready U E moldInit files i j k" and p: "prepares U k A k'"
  shows "Option.bind (VFSOpenFile (k_files k') (env_lit E ''/minit.melf'') (k_mem k')) (VFSSizeFile (k_mem k') (k_ramfs k')) =
    Some (of_nat (length (snd (files ! j))))"
proof -
  have s: "k_files k' = k_files k" "k_ramfs k' = k_ramfs k" using p by (auto simp: prepares_def)
  have same: "k_mem k' x = k_mem k x" if "x \<in> disk_bytes files (k_files k) (k_ramfs k) \<union> span (env_lit E ''/minit.melf'') 12" for x
  proof -
    have "x div 4096 \<notin> U" using b that unfolding boot_ready_def by blast
    then show ?thesis using p by (simp add: prepares_def opened_def)
  qed
  have d0: "disk_ok files (k_files k) (k_ramfs k) (k_mem k)" and nz: "0 \<notin> set (k_files k)"
    and c0: "cstr (k_mem k) (env_lit E ''/minit.melf'') (bytes_of ''/minit.melf'')"
    and f: "find_path (bytes_of ''/minit.melf'') (map entry_path files) = Some i"
    and j: "lookup_name (take 367 (pad_name (fst (files ! i)))) files = Some j" using b unfolding boot_ready_def by blast+
  have d: "disk_ok files (k_files k) (k_ramfs k) (k_mem k')"
    by (rule disk_ok_cong [OF d0]) (rule same, blast)
  have len: "length (bytes_of ''/minit.melf'') = 11" by (simp add: bytes_of_def)
  have c: "cstr (k_mem k') (env_lit E ''/minit.melf'') (bytes_of ''/minit.melf'')"
    by (rule cstr_span [OF c0]) (simp add: len, rule same, simp add: len)
  have i: "i < length files" using find_path_less [OF f] by simp
  moreover have "length files \<le> length (k_files k)" using d0 by (simp add: disk_ok_def)
  ultimately have "k_files k ! i \<noteq> 0" using nz by (metis less_le_trans nth_mem)
  moreover have "bytes_of ''/minit.melf'' \<noteq> []" using len by auto
  ultimately show ?thesis
    using disk_open [OF d c _ _ f] disk_size [OF d i _ j] len by (simp add: s)
qed

text \<open>Two tasks that can run take turns.\<close>

lemma two_tasks_alternate:
  assumes "taskNum tm = 2" "currentTask tm = 0" "isEnabled tm \<noteq> 0"
    and "tstate (tasks tm 0) \<noteq> STATE_HALTED" "tstate (tasks tm 1) \<noteq> STATE_HALTED"
  obtains tm1 tm2 where "Schedule f tm = Some ((registers (tasks tm 1))\<lparr>KernelRsp := kernel_rsp f\<rparr>, tm1)" "currentTask tm1 = 1"
    "Schedule f' tm1 = Some (f\<lparr>KernelRsp := kernel_rsp f'\<rparr>, tm2)" "currentTask tm2 = 0"
proof -
  let ?tm1 = "(save f tm)\<lparr>currentTask := 1\<rparr>"
  have "next_task (save f tm) 0 = Some 1" and n: "next_task (save f' ?tm1) 1 = Some 0"
    using assms by (subst next_task.simps, simp add: Let_def)+
  then have "Schedule f tm = Some ((registers (tasks tm 1))\<lparr>KernelRsp := kernel_rsp f\<rparr>, ?tm1)"
    using assms by (simp add: Schedule_eq)
  moreover have "Schedule f' ?tm1 = Some (f\<lparr>KernelRsp := kernel_rsp f'\<rparr>, (save f' ?tm1)\<lparr>currentTask := 0\<rparr>)"
    using n assms by (simp add: Schedule_eq)
  ultimately show ?thesis using that by simp
qed

lemma start_tasks_spec:
  assumes "boot_ready U E moldInit files i j k"
  defines "sel \<equiv> GDTInfoSelectors (k_gdt k)" and "idle \<equiv> env_sym E ''IdleTask''" and "t \<equiv> lastTerminal (k_tasks k)"
  obtains k' s0 s1 where "start_tasks E moldInit k = Some (Inr (k'\<lparr>k_current := 2\<rparr>))"
    "prepares U k ({idle, moldInit} \<union> stack_pages s0 \<union> stack_pages s1) k'"
    "taskNum (k_tasks k') = 2" "currentTask (k_tasks k') = 0" "isEnabled (k_tasks k') = 1"
    "tasks (k_tasks k') 0 = new_task sel idle s0 (env_lit E ''Idle Task'') TASK_SYSTEM 0 t"
    "tasks (k_tasks k') 1 = new_task sel moldInit s1 (env_lit E ''/minit.melf'') TASK_USER (of_nat (length (snd (files ! j)))) (t + 1)"
    "s0 = 0 \<or> s1 = 0 \<or> (\<forall>a < 8. \<forall>b < 8. s0 div 4096 + of_nat a \<noteq> s1 div 4096 + of_nat b)"
proof -
  have b: "low_mapped U k" "\<not> runnable (k_tasks k) 0" "\<not> runnable (k_tasks k) 1" "currentTask (k_tasks k) = 0"
    "taskNum (k_tasks k) = 0" "translate (k_mem k) (k_root k) idle \<noteq> None" "translate (k_mem k) (k_root k) moldInit \<noteq> None"
    using assms(1) unfolding boot_ready_def idle_def by auto
  let ?k1 = "k_map_user idle k"
  have p1: "prepares U k {idle} ?k1" using b(1,6) by (intro map_user_prepares) (simp_all add: low_mapped_def)
  have same1: "k_tasks ?k1 = k_tasks k" "k_gdt ?k1 = k_gdt k" by (simp_all add: k_map_user_def)
  have tr: "translate (k_mem k') (k_root k') a = translate (k_mem k) (k_root k) a" if "prepares U k A k'" for A k' a
    using that prepares_root [OF that] by (simp add: prepares_def opened_def)
  have f0: "first_halted (tasks (k_tasks ?k1)) 0 = Some (of_nat 0)"
    using first_halted_least [of 0 0 "k_tasks k"] b(2) by (simp add: same1)
  have e1: "translate (k_mem ?k1) (k_root ?k1) idle \<noteq> None" unfolding tr [OF p1] by (rule b)
  obtain s0 k2 where s0: "start_task idle (env_lit E ''Idle Task'') TASK_SYSTEM (\<lambda>_. Some 0) ?k1 = Some (Inr k2)"
    "prepares U ?k1 (insert idle (stack_pages s0)) k2"
    "k_tasks k2 = with_task 0 (new_task sel idle s0 (env_lit E ''Idle Task'') TASK_SYSTEM 0 t) (k_tasks k)"
    "s0 = 0 \<or> (\<forall>i < 8. s0 div 4096 + of_nat i \<notin> taken (k_pfa ?k1) \<and> s0 div 4096 + of_nat i \<in> taken (k_pfa k2))"
    using start_task_spec [where size_of = "\<lambda>_. Some 0", OF prepares_low_mapped [OF p1 b(1)] e1 HOL.refl f0 zero_less_numeral, of "env_lit E ''Idle Task''" TASK_SYSTEM]
    unfolding same1 sel_def [symmetric] t_def [symmetric] .
  note p2 = prepares_trans [OF p1 s0(2)]
  have gdt: "k_gdt k2 = k_gdt k" using p2 by (auto simp: prepares_def)
  have t2: "lastTerminal (k_tasks k2) = t + 1" "taskNum (k_tasks k2) = 1" "currentTask (k_tasks k2) = 0"
    using b(4,5) by (simp_all add: s0(3) with_task_def t_def)
  have r2: "runnable (k_tasks k2) 0" "\<not> runnable (k_tasks k2) 1"
    using b(3) by (simp_all add: s0(3) with_task_def runnable_def new_task_def STATE_RUNNING_def STATE_HALTED_def)
  have f1: "first_halted (tasks (k_tasks k2)) 0 = Some (of_nat 1)"
    using first_halted_least [of 0 1 "k_tasks k2"] r2 by (simp add: less_Suc_eq_0_disj)
  have e2: "translate (k_mem k2) (k_root k2) moldInit \<noteq> None" unfolding tr [OF p2] by (rule b)
  let ?sz = "of_nat (length (snd (files ! j))) :: u64"
  let ?size = "\<lambda>k. Option.bind (VFSOpenFile (k_files k) (env_lit E ''/minit.melf'') (k_mem k)) (VFSSizeFile (k_mem k) (k_ramfs k))"
  have one: "(1 :: nat) < 1024" by simp
  have sz: "?size k2 = Some ?sz" by (rule minit_size [OF assms(1) p2])
  obtain s1 k3 where s1: "start_task moldInit (env_lit E ''/minit.melf'') TASK_USER ?size k2 = Some (Inr k3)"
    "prepares U k2 (insert moldInit (stack_pages s1)) k3"
    "k_tasks k3 = with_task 1 (new_task sel moldInit s1 (env_lit E ''/minit.melf'') TASK_USER ?sz (t + 1)) (k_tasks k2)"
    "s1 = 0 \<or> (\<forall>i < 8. s1 div 4096 + of_nat i \<notin> taken (k_pfa k2) \<and> s1 div 4096 + of_nat i \<in> taken (k_pfa k3))"
    using start_task_spec [where size_of = ?size, OF prepares_low_mapped [OF p2 b(1)] e2 sz f1 one, of "env_lit E ''/minit.melf''" TASK_USER]
    unfolding gdt sel_def [symmetric] t2(1) .
  note p3 = prepares_trans [OF p2 s1(2)]
  let ?k' = "k3\<lparr>k_tasks := (k_tasks k3)\<lparr>isEnabled := 1\<rparr>\<rparr>"
  have "start_tasks E moldInit k = Some (Inr (?k'\<lparr>k_current := 2\<rparr>))"
    using s0(1) s1(1) by (simp add: start_tasks_def does_def idle_def)
  moreover have "{idle} \<union> insert idle (stack_pages s0) \<union> insert moldInit (stack_pages s1) =
      {idle, moldInit} \<union> stack_pages s0 \<union> stack_pages s1" by blast
  then have "prepares U k ({idle, moldInit} \<union> stack_pages s0 \<union> stack_pages s1) ?k'"
    using prepares_tasks [OF p3, of "(k_tasks k3)\<lparr>isEnabled := 1\<rparr>"] by (simp only:)
  moreover have "taskNum (k_tasks ?k') = 2" "currentTask (k_tasks ?k') = 0" "isEnabled (k_tasks ?k') = 1"
    "tasks (k_tasks ?k') 0 = new_task sel idle s0 (env_lit E ''Idle Task'') TASK_SYSTEM 0 t"
    "tasks (k_tasks ?k') 1 = new_task sel moldInit s1 (env_lit E ''/minit.melf'') TASK_USER ?sz (t + 1)"
    using t2 by (simp_all add: s1(3) s0(3) with_task_def)
  moreover have "s0 = 0 \<or> s1 = 0 \<or> (\<forall>a < 8. \<forall>b < 8. s0 div 4096 + of_nat a \<noteq> s1 div 4096 + of_nat b)"
    using s0(4) s1(4) by metis
  ultimately show ?thesis by (rule that)
qed

section \<open>Properties\<close>


text \<open>The disk with the first program alone.\<close>

definition boot_file :: "u8 list \<times> u8 list" where
  "boot_file = (bytes_of ''minit.melf'', [4, 5])"

definition boot_env :: "unit env \<Rightarrow> unit env" where
  "boot_env E = E\<lparr>env_lit := (\<lambda>_. 0x30000), env_sym := (\<lambda>_. 0x5000)\<rparr>"

definition boot_kernel :: "unit kernel \<Rightarrow> unit kernel" where
  "boot_kernel k = (user_kernel boot_file k)\<lparr>k_tasks := (k_tasks k)\<lparr>tasks := (\<lambda>i. (tasks (k_tasks k) i)\<lparr>tstate := 0\<rparr>),
     currentTask := 0, taskNum := 0\<rparr>\<rparr>"

lemma boot_kernel_ready: "boot_ready {1, 2, 3, 4} (boot_env E) 0x6000 [boot_file] 0 0 (boot_kernel k)"
proof -
  let ?p = "47 # fst boot_file"
  have p: "bytes_of ''/minit.melf'' = ?p" by (simp add: bytes_of_def boot_file_def)
  have s: "small_file boot_file ?p" by (simp add: small_file_def boot_file_def bytes_of_def)
  note d = one_disk_ok [OF s] and away = one_disk_away [OF s] and tables = one_disk_tables [OF s]
  have "low_mapped {1, 2, 3, 4} (boot_kernel k)"
    using tables by (simp add: low_mapped_def boot_kernel_def addressable_def user_pages_def some_pages_def)
  moreover have "\<forall>x \<in> disk_bytes [boot_file] [0x20000] 0x10000 \<union> span 0x30000 12. x div 4096 \<notin> {1, 2, 3, 4}"
  proof -
    have "Suc (length ?p) = 12" by (simp add: boot_file_def bytes_of_def)
    then show ?thesis using away(1) by fastforce
  qed
  moreover have "translate (one_disk boot_file ?p) 0x1000 0x5000 \<noteq> None" "translate (one_disk boot_file ?p) 0x1000 0x6000 \<noteq> None"
    by (rule tables, simp)+
  ultimately show ?thesis
    unfolding boot_ready_def p using d by (simp add: boot_kernel_def boot_env_def runnable_def STATE_HALTED_def)
qed


end
