(* ===== verification/Interrupts.thy ===== *)
theory Interrupts
  imports Kernel Console
begin

unbundle bit_operations_syntax

text \<open>
  The interrupt of the timer, \<open>PITHandler\<close> of \<open>cpu/intrerupts.cpp\<close>, put together from what its parts
  do: the clock advances, the terminal is drawn on the screen, and the scheduler chooses the frame to
  go on with.
\<close>

section \<open>Drawing the terminal\<close>

text \<open>The bytes drawing may change: the back buffer and the two parameter buffers of \<open>ANSIPrint\<close>.\<close>

definition drawn :: "display \<Rightarrow> u64 \<Rightarrow> u64 \<Rightarrow> u64 set" where
  "drawn d p1 p2 = {a. \<not> off_screen d a} \<union> span p1 3 \<union> span p2 3"

definition paints :: "u64 \<Rightarrow> u64 \<Rightarrow> display \<times> mem \<Rightarrow> display \<times> mem \<Rightarrow> bool" where
  "paints p1 p2 s s' \<longleftrightarrow> Display.screen_ok (fst s') \<and> same_screen (fst s) (fst s') \<and>
     (\<forall>a. a \<notin> drawn (fst s) p1 p2 \<longrightarrow> snd s' a = snd s a)"

lemma drawn_same: "same_screen d d' \<Longrightarrow> drawn d' p1 p2 = drawn d p1 p2"
  by (simp add: drawn_def off_screen_same)

lemma paints_trans: "paints p1 p2 s s' \<Longrightarrow> paints p1 p2 s' s'' \<Longrightarrow> paints p1 p2 s s''"
  by (auto simp: paints_def drawn_same intro: same_screen_trans)

lemma draws_paints: "draws s s' \<Longrightarrow> paints p1 p2 s s'"
  by (auto simp: draws_def paints_def drawn_def)

lemma param_memory_span:
  assumes "a \<notin> span p1 3" "a \<notin> span p2 3" "length p \<le> 2" "length r \<le> 2"
  shows "param_memory p1 p2 p r m a = m a"
  using assms by (simp add: param_memory_def put_bytes_eq memset_eq word_less_nat_alt span_def not_less)

lemma run_token_paints:
  assumes "Display.screen_ok (fst s)" "token_ok t"
  shows "paints p1 p2 s (run_token p1 p2 t s)"
proof (cases t)
  case (Chr c)
  then show ?thesis using draws_paints [OF putc_draws [OF assms(1)]] by simp
next
  case (Sgr p q)
  define d where "d = handle (of_nat (dec_value 0 p)) (fst s)"
  have d: "Display.screen_ok d \<and> same_screen (fst s) d" using handle_draws [OF assms(1)] by (simp add: d_def)
  then have "Display.screen_ok (fst (run_token p1 p2 t s)) \<and> same_screen (fst s) (fst (run_token p1 p2 t s))"
    using handle_draws [of d] same_screen_trans by (simp add: Sgr d_def [symmetric]) blast
  then show ?thesis using assms(2) by (auto simp: paints_def drawn_def Sgr param_memory_span)
qed

lemma run_tokens_paint:
  "Display.screen_ok (fst s) \<Longrightarrow> list_all token_ok ts \<Longrightarrow> paints p1 p2 s (fold (run_token p1 p2) ts s)"
proof (induction ts arbitrary: s)
  case Nil
  then show ?case by (simp add: paints_def)
next
  case (Cons t ts)
  have "paints p1 p2 s (run_token p1 p2 t s)" using Cons.prems by (intro run_token_paints) simp_all
  moreover from this have "paints p1 p2 (run_token p1 p2 t s) (fold (run_token p1 p2) (t # ts) s)"
    using Cons.prems(2) Cons.IH [of "run_token p1 p2 t s"] by (simp add: paints_def)
  ultimately show ?case by (rule paints_trans)
qed

lemma clearScreen_draws: "Display.screen_ok (fst s) \<Longrightarrow> draws s (clearScreen 0 s)"
  by (cases s) (auto simp: clearScreen_def draws_def setCursorPos_def Display.screen_ok_def getWidth_def getHeight_def
      off_screen_def memset_eq word_less_nat_alt Let_def)

section \<open>A terminal ready to be shown\<close>

text \<open>
  The current terminal holds characters and escape sequences, in memory clear of the screen and of
  the parameter buffers; the screen is in order, and the front buffer does not begin inside the back
  buffer.
\<close>

definition showable :: "'d env \<Rightarrow> token list \<Rightarrow> 'd kernel \<Rightarrow> bool" where
  "showable E ts k \<longleftrightarrow>
     (let T = concat (map encode ts); txt = vt_buffer (k_vts k (k_current k)); d = k_display k
      in ts \<noteq> [] \<and> list_all token_ok ts \<and> cstr (k_mem k) txt T \<and> length T < 2147483648 \<and> Display.screen_ok d \<and>
         (\<forall>i \<le> length T. off_screen d (txt + of_nat i)) \<and>
         clear (env_param1 E) txt (length T) \<and> clear (env_param2 E) txt (length T) \<and>
         3 \<le> unat (env_param1 E - env_param2 E) \<and> 3 \<le> unat (env_param2 E - env_param1 E))"

definition front_buffer :: "display \<Rightarrow> u64 set" where
  "front_buffer d = span (BaseAddr (globalFrameBuffer d)) (unat (BufferSize (globalFrameBuffer d)))"

text \<open>What drawing the terminal changes of the kernel.\<close>

definition redraws :: "'d env \<Rightarrow> 'd kernel \<Rightarrow> 'd kernel \<Rightarrow> bool" where
  "redraws E k k' \<longleftrightarrow> (\<exists>d m u n. k' = k\<lparr>k_display := d, k_mem := m, k_underline := u, k_times := n\<rparr> \<and>
     same_screen (k_display k) d \<and> Display.screen_ok d \<and>
     (\<forall>a. a \<notin> drawn (k_display k) (env_param1 E) (env_param2 E) \<union> front_buffer (k_display k) \<longrightarrow> m a = k_mem k a))"

lemma HandleBlink_eq:
  assumes "Display.screen_ok (k_display k)"
  shows "\<exists>d m u n. HandleBlink k = k\<lparr>k_display := d, k_mem := m, k_underline := u, k_times := n\<rparr> \<and>
    draws (k_display k, k_mem k) (d, m)"
proof -
  define k1 where "k1 = (if k_underline k then k_draw (putc 95) k else k)"
  obtain d m where k1: "k1 = k\<lparr>k_display := d, k_mem := m\<rparr>" "draws (k_display k, k_mem k) (d, m)"
  proof (cases "k_underline k")
    case True
    obtain d m where p: "putc 95 (k_display k, k_mem k) = (d, m)" by (cases "putc 95 (k_display k, k_mem k)")
    have "draws (k_display k, k_mem k) (d, m)" using putc_draws [of "(k_display k, k_mem k)" 95] assms p by simp
    then show ?thesis using True p by (intro that [where d = d and m = m]) (simp_all add: k1_def k_draw_def)
  next
    case False
    then show ?thesis using assms by (intro that [where d = "k_display k" and m = "k_mem k"]) (simp_all add: k1_def draws_def)
  qed
  have "HandleBlink k = k\<lparr>k_display := d, k_mem := m,
      k_underline := (if k_times k = Blink_Time then \<not> k_underline k else k_underline k),
      k_times := (if k_times k = Blink_Time then 0 else k_times k) + 1\<rparr>"
    unfolding HandleBlink_def k1_def [symmetric] Let_def k1(1) by simp
  with k1(2) show ?thesis by blast
qed

lemma update_frame: "a \<notin> front_buffer d \<Longrightarrow> update d m a = m a"
  unfolding update_def by (rule memcpy_frame) (simp add: front_buffer_def span_def)

lemma show_terminal_redraws:
  assumes "showable E ts k"
  shows "\<exists>k'. show_terminal E k = Some k' \<and> redraws E k k'"
proof -
  let ?T = "concat (map encode ts)" and ?txt = "vt_buffer (k_vts k (k_current k))"
    and ?p1 = "env_param1 E" and ?p2 = "env_param2 E" and ?d = "k_display k"
  have h: "ts \<noteq> []" "list_all token_ok ts" "cstr (k_mem k) ?txt ?T" "length ?T < 2147483648" "Display.screen_ok ?d"
    "\<forall>i \<le> length ?T. off_screen ?d (?txt + of_nat i)" "clear ?p1 ?txt (length ?T)" "clear ?p2 ?txt (length ?T)"
    "3 \<le> unat (?p1 - ?p2)" "3 \<le> unat (?p2 - ?p1)"
    using assms by (simp_all add: showable_def Let_def)
  obtain d0 m0 where c: "clearScreen 0 (?d, k_mem k) = (d0, m0)" by (cases "clearScreen 0 (?d, k_mem k)")
  have "draws (?d, k_mem k) (d0, m0)" using clearScreen_draws [of "(?d, k_mem k)"] h(5) c by simp
  then have "draws (?d, k_mem k) (d0\<lparr>colour := WHITE\<rparr>, m0)"
    by (auto simp: draws_def Display.screen_ok_def getWidth_def getHeight_def same_screen_def)
  then have dr: "paints ?p1 ?p2 (?d, k_mem k) (d0\<lparr>colour := WHITE\<rparr>, m0)" "\<forall>a. off_screen ?d a \<longrightarrow> m0 a = k_mem k a"
    "Display.screen_ok (d0\<lparr>colour := WHITE\<rparr>)" "same_screen ?d (d0\<lparr>colour := WHITE\<rparr>)"
    by (simp_all add: draws_paints draws_def)
  have T: "cstr m0 ?txt ?T" using h(6) dr(2) by (intro cstr_same [OF h(3)]) simp
  have off: "\<forall>i \<le> length ?T. off_screen (d0\<lparr>colour := WHITE\<rparr>) (?txt + of_nat i)"
    using h(6) by (simp only: off_screen_same [OF dr(4)])
  define s where "s = fold (run_token ?p1 ?p2) ts (d0\<lparr>colour := WHITE\<rparr>, m0)"
  have a: "ANSIPrint ?txt ?p1 ?p2 (d0\<lparr>colour := WHITE\<rparr>, m0) = Some s"
    using ANSIPrint_tokens [OF T h(2,1,4) dr(3) off h(7-10)] by (simp add: s_def)
  have p: "paints ?p1 ?p2 (?d, k_mem k) s"
    using paints_trans [OF dr(1) run_tokens_paint [OF _ h(2), of "(d0\<lparr>colour := WHITE\<rparr>, m0)"]] dr(3) by (simp add: s_def)
  let ?k1 = "k\<lparr>k_display := fst s, k_mem := snd s\<rparr>"
  have "Display.screen_ok (k_display ?k1)" using p by (simp add: paints_def)
  from HandleBlink_eq [OF this] obtain d m u n where b: "HandleBlink ?k1 = ?k1\<lparr>k_display := d, k_mem := m, k_underline := u, k_times := n\<rparr>"
    "draws s (d, m)" by auto
  have p': "paints ?p1 ?p2 (?d, k_mem k) (d, m)" by (rule paints_trans [OF p draws_paints [OF b(2)]])
  then have d: "same_screen ?d d" "Display.screen_ok d" by (simp_all add: paints_def)
  let ?k' = "k\<lparr>k_display := d, k_mem := update d m, k_underline := u, k_times := n\<rparr>"
  have "show_terminal E k = Some ?k'"
    using c a b(1) by (simp add: show_terminal_def k_draw_def BLACK_def Let_def)
  moreover have "update d m a = k_mem k a" if "a \<notin> drawn ?d ?p1 ?p2 \<union> front_buffer ?d" for a
  proof -
    have "globalFrameBuffer d = globalFrameBuffer ?d" "secondFrameBuffer d = secondFrameBuffer ?d"
      using d(1) by (simp_all add: same_screen_def)
    then have "update d m a = m a" using that by (intro update_frame) (simp add: front_buffer_def)
    then show ?thesis using p' that by (simp add: paints_def)
  qed
  then have "redraws E k ?k'" using d unfolding redraws_def by blast
  ultimately show ?thesis by blast
qed

section \<open>Properties\<close>


definition tick_env :: "unit env \<Rightarrow> unit env" where
  "tick_env E = E\<lparr>env_param1 := 0x2000, env_param2 := 0x3000\<rparr>"

definition tick_kernel :: "unit kernel \<Rightarrow> unit kernel" where
  "tick_kernel k = k\<lparr>k_display := example_display, k_mem := example_text, k_tasks := example_tm,
     k_vts := (\<lambda>_. \<lparr>vt_buffer = 0x1000, maxLen = 0x1000, vt_index = 7, initialized = True\<rparr>),
     k_pit := (k_pit k)\<lparr>Divisor := 0xFFFF\<rparr>\<rparr>"


end
