(* ===== verification/Bootloader.thy ===== *)
theory Bootloader
  imports Elf Cpu
begin

unbundle bit_operations_syntax

text \<open>
  The boot loader, \<open>gnu-efi/bootloader/BOOTx64.c\<close>.  The services of the firmware are an argument:
  functions on a state \<open>'w\<close> of their own, which get the old value of each variable they are passed
  by reference and return the new one.  \<open>loc\<close> gives the addresses of the local variables whose
  address is taken and of the literals, \<open>junk\<close> the values of the variables before they are set.
\<close>

section \<open>The firmware\<close>

record 'w uefi =
  HandleProtocol :: "u64 \<Rightarrow> string \<Rightarrow> u64 \<Rightarrow> 'w \<Rightarrow> u64 \<times> 'w"
  OpenVolume :: "u64 \<Rightarrow> u64 \<Rightarrow> 'w \<Rightarrow> u64 \<times> 'w"
  OpenAt :: "u64 \<Rightarrow> string \<Rightarrow> u64 \<Rightarrow> 'w \<Rightarrow> u64 \<times> u64 \<times> 'w"   \<comment> \<open>status and file\<close>
  Read :: "u64 \<Rightarrow> u64 \<Rightarrow> u64 \<Rightarrow> mem \<times> 'w \<Rightarrow> u64 \<times> mem \<times> 'w"   \<comment> \<open>the size read\<close>
  SetPosition :: "u64 \<Rightarrow> u64 \<Rightarrow> 'w \<Rightarrow> 'w"
  AllocatePool :: "u64 \<Rightarrow> u64 \<Rightarrow> 'w \<Rightarrow> u64 \<times> 'w"
  AllocatePages :: "u64 \<Rightarrow> u64 \<Rightarrow> 'w \<Rightarrow> u64 \<times> 'w"
  LocateProtocol :: "u64 \<Rightarrow> u64 \<Rightarrow> 'w \<Rightarrow> u64 \<times> u64 \<times> 'w"     \<comment> \<open>status and interface\<close>
  GetMemoryMap :: "u64 \<Rightarrow> u64 \<Rightarrow> u64 \<Rightarrow> u64 \<Rightarrow> mem \<times> 'w \<Rightarrow> u64 \<times> u64 \<times> u64 \<times> u64 \<times> mem \<times> 'w"
    \<comment> \<open>size, map, key, size of a descriptor; status, size, key, size of a descriptor\<close>
  ExitBootServices :: "u64 \<Rightarrow> u64 \<Rightarrow> 'w \<Rightarrow> 'w"
  Print :: "string \<Rightarrow> 'w \<Rightarrow> 'w"

definition EFI_SUCCESS :: u64 where "EFI_SUCCESS = 0"

abbreviation line :: "string \<Rightarrow> string" where "line s \<equiv> s @ [CHR 0x0A, CHR 0x0D]"

text \<open>\<open>DoError\<close> prints and halts for ever: the result is \<open>Inl\<close> of the state it halts in.\<close>

type_synonym 'w boot = "mem \<times> 'w"

definition DoError :: "'w uefi \<Rightarrow> string \<Rightarrow> 'w boot \<Rightarrow> 'w boot + 'a" where
  "DoError U error = (\<lambda>(m, w). Inl (m, Print U error (Print U (line ''An error occured when loading moldOS!'') w)))"

definition continue :: "'e + 'a \<Rightarrow> ('a \<Rightarrow> 'e + 'b) \<Rightarrow> 'e + 'b" where
  "continue x f = (case x of Inl e \<Rightarrow> Inl e | Inr a \<Rightarrow> f a)"

section \<open>Comparisons\<close>

text \<open>The loop does not advance the pointers.\<close>

fun boot_strcmp :: "mem \<Rightarrow> u64 \<Rightarrow> u64 \<Rightarrow> nat \<Rightarrow> u64" where
  "boot_strcmp m a b 0 = 1"
| "boot_strcmp m a b (Suc n) = (if m a \<noteq> m b then 0 else boot_strcmp m a b n)"

text \<open>\<open>CompareGuid\<close> of the library: the differences of the four 32-bit words, or-ed together.\<close>

definition RtCompareGuid :: "mem \<Rightarrow> u64 \<Rightarrow> u64 \<Rightarrow> i64" where
  "RtCompareGuid m Guid1 Guid2 =
     (let r = (load32 m Guid1 - load32 m Guid2 :: i32);
          r = r OR (load32 m (Guid1 + 4) - load32 m (Guid2 + 4));
          r = r OR (load32 m (Guid1 + 8) - load32 m (Guid2 + 8));
          r = r OR (load32 m (Guid1 + 12) - load32 m (Guid2 + 12))
      in sext r)"

definition CompareGuid :: "mem \<Rightarrow> u64 \<Rightarrow> u64 \<Rightarrow> i64" where
  "CompareGuid m Guid1 Guid2 = RtCompareGuid m Guid1 Guid2"

record efi_guid =
  Data1 :: u32
  Data2 :: u16
  Data3 :: u16
  Data4 :: "u8 list"

definition ACPI_20_TABLE_GUID :: efi_guid where
  "ACPI_20_TABLE_GUID = \<lparr>Data1 = 0x8868e871, Data2 = 0xe4f1, Data3 = 0x11d3,
     Data4 = [0xbc, 0x22, 0x0, 0x80, 0xc7, 0x3c, 0x88, 0x81]\<rparr>"

definition SMBIOS_TABLE_GUID :: efi_guid where
  "SMBIOS_TABLE_GUID = \<lparr>Data1 = 0xeb9d2d31, Data2 = 0x2d88, Data3 = 0x11d3,
     Data4 = [0x9a, 0x16, 0x0, 0x90, 0x27, 0x3f, 0xc1, 0x4d]\<rparr>"

definition put_guid :: "u64 \<Rightarrow> efi_guid \<Rightarrow> mem \<Rightarrow> mem" where
  "put_guid a g m =
     fold (\<lambda>(i, b) m. m(a + 8 + of_nat i := b)) (enumerate 0 (Data4 g))
       (store16 (a + 6) (Data3 g) (store16 (a + 4) (Data2 g) (store32 a (Data1 g) m)))"

section \<open>Files\<close>

text \<open>\<open>DeviceHandle\<close> is at offset 24 of the loaded image protocol.\<close>

definition OpenFile :: "'w uefi \<Rightarrow> u64 \<Rightarrow> (string \<Rightarrow> u64) \<Rightarrow> u64 \<Rightarrow> string \<Rightarrow> 'w boot \<Rightarrow> u64 \<times> 'w boot" where
  "OpenFile U IH junk Directory File = (\<lambda>(m, w).
     let (LoadedImage, w) = HandleProtocol U IH ''LoadedImage'' (junk ''LoadedImage'') w;
         (FileSystem, w) = HandleProtocol U (load64 m (LoadedImage + 24)) ''SimpleFileSystem'' (junk ''FileSystem'') w;
         (Directory, w) = (if Directory = 0 then OpenVolume U FileSystem Directory w else (Directory, w));
         (status, LoadedFile, w) = OpenAt U Directory File 0 w
     in (if status \<noteq> EFI_SUCCESS then 0 else LoadedFile, m, w))"

definition open_or_fail :: "'w uefi \<Rightarrow> u64 \<Rightarrow> (string \<Rightarrow> u64) \<Rightarrow> u64 \<Rightarrow> string \<Rightarrow> string \<Rightarrow> 'w boot \<Rightarrow> 'w boot + (u64 \<times> 'w boot)" where
  "open_or_fail U IH junk dir name error s =
     (let (f, s) = OpenFile U IH junk dir name s in if f = 0 then DoError U error s else Inr (f, s))"

definition open_files :: "'w uefi \<Rightarrow> u64 \<Rightarrow> (string \<Rightarrow> u64) \<Rightarrow> 'w boot \<Rightarrow> 'w boot + (u64 \<times> u64 \<times> u64 \<times> 'w boot)" where
  "open_files U IH junk s =
     continue (open_or_fail U IH junk 0 ''moldOS'' (line ''Failed to open the moldOS folder!'') s) (\<lambda>(dir, s).
     continue (open_or_fail U IH junk dir ''kernel.melf'' (line ''Failed to open the kernel!'') s) (\<lambda>(krnl, s).
     continue (open_or_fail U IH junk dir ''font.psf'' (line ''Failed to open the font!'') s) (\<lambda>(font, s).
     continue (open_or_fail U IH junk dir ''ram.llfs'' (line ''Failed to open the LLFS!'') s) (\<lambda>(llfs, s).
       Inr (krnl, font, llfs, s)))))"

section \<open>The kernel\<close>

definition header_supported :: "elf64_ehdr \<Rightarrow> bool" where
  "header_supported h \<longleftrightarrow> \<not> (e_ident h ! unat EI_CLASS \<noteq> ELFCLASS64 \<or> e_ident h ! unat EI_DATA \<noteq> ELFDATA2LSB \<or>
     e_type h \<noteq> ET_EXEC \<or> e_machine h \<noteq> EM_X86_64)"

text \<open>The product of the two 16-bit fields is an \<open>int\<close>.\<close>

definition phdrs_size :: "elf64_ehdr \<Rightarrow> u64" where
  "phdrs_size h = sext (ucast (e_phnum h) * ucast (e_phentsize h))"

definition load_segment :: "'w uefi \<Rightarrow> u64 \<Rightarrow> elf64_phdr \<Rightarrow> 'w boot \<Rightarrow> 'w boot" where
  "load_segment U krnl ph = (\<lambda>(m, w).
     if p_type ph = PT_LOAD
     then let pages = ucast ((p_memsz ph + 0x1000 - 1) div 0x1000) :: i32;
              (segment, w) = AllocatePages U (sext pages) (p_paddr ph) w;
              w = SetPosition U krnl (p_offset ph) w;
              (_, m, w) = Read U krnl (p_filesz ph) segment (m, w)
          in (m, w)
     else (m, w))"

text \<open>The header, the local variable at \<open>header\<close>, is read again in every turn.\<close>

partial_function (option) load_phdrs :: "'w uefi \<Rightarrow> u64 \<Rightarrow> u64 \<Rightarrow> u64 \<Rightarrow> u64 \<Rightarrow> 'w boot \<Rightarrow> 'w boot option" where
  "load_phdrs U krnl header phdrs phdr s =
     (if phdr < phdrs + phdrs_size (read_ehdr (fst s) header)
      then let s = load_segment U krnl (read_phdr (fst s) phdr) s
           in load_phdrs U krnl header phdrs (phdr + ucast (e_phentsize (read_ehdr (fst s) header))) s
      else Some s)"

definition load_kernel ::
    "'w uefi \<Rightarrow> (string \<Rightarrow> u64) \<Rightarrow> (string \<Rightarrow> u64) \<Rightarrow> u64 \<Rightarrow> 'w boot \<Rightarrow> ('w boot + 'w boot) option" where
  "load_kernel U loc junk krnl = (\<lambda>(m, w).
     let (_, m, w) = Read U krnl 64 (loc ''header'') (m, w);
         h = read_ehdr m (loc ''header'')
     in if \<not> header_supported h then Some (DoError U (line ''The kernel is corrupt or isn't supported!'') (m, w))
        else
          let w = SetPosition U krnl (e_phoff h) w;
              (phdrs, w) = AllocatePool U (phdrs_size h) (junk ''phdrs'') w;
              (_, m, w) = Read U krnl (phdrs_size h) phdrs (m, w)
          in map_option Inr (load_phdrs U krnl (loc ''header'') phdrs phdrs (m, w)))"

section \<open>The font and the file system\<close>

definition load_font :: "'w uefi \<Rightarrow> (string \<Rightarrow> u64) \<Rightarrow> u64 \<Rightarrow> 'w boot \<Rightarrow> 'w boot + (u64 \<times> 'w boot)" where
  "load_font U junk font = (\<lambda>(m, w).
     let (fontHeader, w) = AllocatePool U 4 (junk ''fontHeader'') w;
         (_, m, w) = Read U font 4 fontHeader (m, w)
     in if m fontHeader \<noteq> 0x36 \<or> m (fontHeader + 1) \<noteq> 0x04 then DoError U (line ''Unknown PSF font magic'') (m, w)
        else
          let glyphBufferSize = ucast (m (fontHeader + 3)) * 256;
              w = SetPosition U font 4 w;
              (glyphs, w) = AllocatePool U glyphBufferSize (junk ''glyphBuffer'') w;
              (_, m, w) = Read U font glyphBufferSize glyphs (m, w);
              (finishedFont, w) = AllocatePool U 16 (junk ''finishedFont'') w;
              m = store64 (finishedFont + 8) glyphs (store64 finishedFont fontHeader m)
          in Inr (finishedFont, m, w))"

definition load_llfs :: "'w uefi \<Rightarrow> (string \<Rightarrow> u64) \<Rightarrow> u64 \<Rightarrow> 'w boot \<Rightarrow> u64 \<times> 'w boot" where
  "load_llfs U junk llfs = (\<lambda>(m, w).
     let (llfsBuffer, w) = AllocatePool U 0xFFFFFF (junk ''llfsBuffer'') w;
         (_, m, w) = Read U llfs 0xFFFFFF llfsBuffer (m, w)
     in (llfsBuffer, m, w))"

section \<open>The screen and the memory map\<close>

text \<open>The offsets of the graphics protocol: \<open>Mode\<close> at 24, and in it \<open>Info\<close> at 8, the base at 24, the size at 32.\<close>

definition init_gop :: "'w uefi \<Rightarrow> (string \<Rightarrow> u64) \<Rightarrow> (string \<Rightarrow> u64) \<Rightarrow> 'w boot \<Rightarrow> 'w boot + 'w boot" where
  "init_gop U loc junk = (\<lambda>(m, w).
     let (status, gop, w) = LocateProtocol U (loc ''gopGuid'') (junk ''gop'') w
     in if status \<noteq> EFI_SUCCESS then DoError U (line ''Cannot init GOP!'') (m, w)
        else
          let mode = load64 m (gop + 24); info = load64 m (mode + 8); fb = loc ''framebuffer'';
              m = store64 fb (load64 m (mode + 24)) m;
              m = store64 (fb + 8) (load64 m (mode + 32)) m;
              m = store64 (fb + 16) (ucast (load32 m (info + 4))) m;
              m = store64 (fb + 24) (ucast (load32 m (info + 8))) m;
              m = store64 (fb + 32) (ucast (load32 m (info + 32))) m
          in Inr (m, w))"

text \<open>The firmware is asked again until it succeeds, with the size it returned the last time.\<close>

partial_function (option) map_loop ::
    "'w uefi \<Rightarrow> u64 \<Rightarrow> u64 \<times> u64 \<times> u64 \<Rightarrow> 'w boot \<Rightarrow> ((u64 \<times> u64 \<times> u64) \<times> 'w boot) option" where
  "map_loop U Map v s =
     (case v of (MapSize, MapKey, DescriptorSize) \<Rightarrow>
        (case GetMemoryMap U MapSize Map MapKey DescriptorSize s of
           (st, MapSize, MapKey, DescriptorSize, s) \<Rightarrow>
             if st \<noteq> EFI_SUCCESS then map_loop U Map (MapSize, MapKey, DescriptorSize) s
             else Some ((MapSize, MapKey, DescriptorSize), s)))"

text \<open>\<open>MapSize\<close> has no value when the firmware is asked the first time.\<close>

definition get_memory_map ::
    "'w uefi \<Rightarrow> (string \<Rightarrow> u64) \<Rightarrow> 'w boot \<Rightarrow> (u64 \<times> (u64 \<times> u64 \<times> u64) \<times> 'w boot) option" where
  "get_memory_map U junk s =
     (case GetMemoryMap U (junk ''MapSize'') 0 (junk ''MapKey'') (junk ''DescriptorSize'') s of
        (_, MapSize, MapKey, DescriptorSize, m, w) \<Rightarrow>
          (let (Map, w) = AllocatePool U MapSize 0 w
           in map_option (\<lambda>(v, s). (Map, v, s)) (map_loop U Map (MapSize, MapKey, DescriptorSize) (m, w))))"

section \<open>The configuration tables\<close>

text \<open>
  An entry has 24 bytes, the table's address at offset 16.  The GUID is looked up at \<open>configTable[i]\<close>
  although \<open>configTable\<close> itself is advanced, and the table at \<open>configTable[0]\<close>.
\<close>

definition find_rsdp :: "mem \<Rightarrow> u64 \<Rightarrow> u64 \<Rightarrow> u64 \<Rightarrow> u64 \<Rightarrow> u64" where
  "find_rsdp m guid lit configTable entries =
     snd (fold (\<lambda>i (configTable, RSDP).
       (configTable + 24,
        if CompareGuid m (configTable + of_nat i * 24) guid \<noteq> 0
        then fold (\<lambda>_ RSDP. if boot_strcmp m lit (load64 m (configTable + 16)) 8 \<noteq> 0
                            then load64 m (configTable + 16) else RSDP) [0..<8] RSDP
        else RSDP)) [0..<unat entries] (configTable, 0))"

fun find_smbios :: "mem \<Rightarrow> u64 \<Rightarrow> u64 \<Rightarrow> u64 \<Rightarrow> nat list \<Rightarrow> u64" where
  "find_smbios m guid lit configTable [] = 0"
| "find_smbios m guid lit configTable (i # is) =
     (if CompareGuid m (configTable + of_nat i * 24) guid \<noteq> 0 \<and>
         boot_strcmp m lit (load64 m (configTable + 16)) 4 \<noteq> 0
      then load64 m (configTable + 16)
      else find_smbios m guid lit (configTable + 24) is)"

section \<open>efi_main\<close>

record boot_info =
  bi_framebuffer :: u64
  bi_font :: u64
  bi_mMap :: u64
  bi_mMapSize :: u64
  bi_mMapDescSize :: u64
  bi_RSDP :: u64
  bi_SMBIOS :: u64
  bi_LLFS :: u64

text \<open>
  \<open>NumberOfTableEntries\<close> is at offset 104 of the system table, \<open>ConfigurationTable\<close> at 112.  The
  result is the entry point with what it is called with.
\<close>

definition hand_over ::
    "'w uefi \<Rightarrow> (string \<Rightarrow> u64) \<Rightarrow> u64 \<Rightarrow> u64 \<Rightarrow> u64 \<Rightarrow> u64 \<Rightarrow> u64 \<Rightarrow> u64 \<times> u64 \<times> u64 \<Rightarrow> 'w boot \<Rightarrow>
      u64 \<times> boot_info \<times> 'w boot" where
  "hand_over U loc IH ST finishedFont llfsBuffer Map v = (\<lambda>(m, w).
     let (MapSize, MapKey, DescriptorSize) = v;
         entries = load64 m (ST + 104); configTable = load64 m (ST + 112);
         m = put_guid (loc ''ACPITABLEGUID'') ACPI_20_TABLE_GUID m;
         rsdp = find_rsdp m (loc ''ACPITABLEGUID'') (loc ''RSD PTR '') configTable entries;
         m = put_guid (loc ''SMBIOSGUID'') SMBIOS_TABLE_GUID m;
         smbios = find_smbios m (loc ''SMBIOSGUID'') (loc ''_SM_'') configTable [0..<unat entries];
         binfo = \<lparr>bi_framebuffer = loc ''framebuffer'', bi_font = finishedFont, bi_mMap = Map, bi_mMapSize = MapSize,
                  bi_mMapDescSize = DescriptorSize, bi_RSDP = rsdp, bi_SMBIOS = smbios, bi_LLFS = llfsBuffer\<rparr>
     in (e_entry (read_ehdr m (loc ''header'')), binfo, m, ExitBootServices U IH MapKey w))"

definition efi_main ::
    "'w uefi \<Rightarrow> (string \<Rightarrow> u64) \<Rightarrow> (string \<Rightarrow> u64) \<Rightarrow> u64 \<Rightarrow> u64 \<Rightarrow> 'w boot \<Rightarrow> ('w boot + (u64 \<times> boot_info \<times> 'w boot)) option" where
  "efi_main U loc junk IH ST s =
     (case open_files U IH junk s of
        Inl s \<Rightarrow> Some (Inl s)
      | Inr (krnl, font, llfs, s) \<Rightarrow>
          (case load_kernel U loc junk krnl s of
             None \<Rightarrow> None
           | Some (Inl s) \<Rightarrow> Some (Inl s)
           | Some (Inr s) \<Rightarrow>
               (case load_font U junk font s of
                  Inl s \<Rightarrow> Some (Inl s)
                | Inr (finishedFont, s) \<Rightarrow>
                    (let (llfsBuffer, s) = load_llfs U junk llfs s
                     in case init_gop U loc junk s of
                          Inl s \<Rightarrow> Some (Inl s)
                        | Inr s \<Rightarrow>
                            map_option (\<lambda>(Map, v, s). Inr (hand_over U loc IH ST finishedFont llfsBuffer Map v s))
                              (get_memory_map U junk s)))))"

section \<open>The search\<close>

lemma boot_strcmp_first: "boot_strcmp m a b n = (if n = 0 \<or> m a = m b then 1 else 0)"
  by (induction n) auto

text \<open>The tables the loop takes, in order: the GUID of every other entry is not the one looked for.\<close>

definition takes :: "mem \<Rightarrow> u64 \<Rightarrow> u64 \<Rightarrow> u64 \<Rightarrow> nat \<Rightarrow> bool" where
  "takes m guid lit configTable i \<longleftrightarrow> bytes_at m (configTable + of_nat (48 * i)) 16 \<noteq> bytes_at m guid 16 \<and>
     m (load64 m (configTable + of_nat (24 * i) + 16)) = m lit"

lemma or_eq_0_iff: "(x :: i32) OR y = 0 \<longleftrightarrow> x = 0 \<and> y = 0"
  by (simp add: bit_eq_iff bit_simps) blast

lemma load32_eq_iff: "load32 m a = load32 m b \<longleftrightarrow> bytes_at m a 4 = bytes_at m b 4"
proof
  assume e: "load32 m a = load32 m b"
  have "m (a + of_nat i) = m (b + of_nat i)" if "i < 4" for i
  proof (rule bit_word_eqI)
    fix n assume n: "n < LENGTH(8)"
    have "bit (load32 m a) (8 * i + n) = bit (load32 m b) (8 * i + n)" by (simp only: e)
    moreover have "(8 * i + n) div 8 = i" "(8 * i + n) mod 8 = n" "8 * i + n < 32" using that n by simp_all
    ultimately show "bit (m (a + of_nat i)) n = bit (m (b + of_nat i)) n"
      using that by (simp add: load32_def bit_load_le)
  qed
  then show "bytes_at m a 4 = bytes_at m b 4" by (intro nth_equalityI) simp_all
next
  assume "bytes_at m a 4 = bytes_at m b 4"
  then have same: "m (a + of_nat i) = m (b + of_nat i)" if "i < 4" for i using that by (metis nth_bytes_at)
  show "load32 m a = load32 m b"
  proof (rule bit_word_eqI)
    fix n assume "n < LENGTH(32)"
    then have "n div 8 < 4" by simp
    then show "bit (load32 m a) n = bit (load32 m b) n" by (simp add: load32_def bit_load_le same)
  qed
qed

lemma CompareGuid_eq_0: "CompareGuid m a b = 0 \<longleftrightarrow> bytes_at m a 16 = bytes_at m b 16"
proof -
  have s: "bytes_at m x 16 = bytes_at m x 4 @ bytes_at m (x + 4) 4 @ bytes_at m (x + 8) 4 @ bytes_at m (x + 12) 4" for x
    by (simp add: bytes_at_Suc numeral_eq_Suc add.assoc)
  have "(ucast (sext x) :: i32) = x" for x by (rule bit_word_eqI) (simp add: sext_def bit_simps)
  then have "sext x = 0 \<longleftrightarrow> x = 0" for x by (metis sext_def scast_0 ucast_0)
  then show ?thesis
    by (simp add: CompareGuid_def RtCompareGuid_def or_eq_0_iff load32_eq_iff s)
qed

section \<open>Properties\<close>

text \<open>
  C38: the loader hands over as RSDP the last table \<open>i\<close> whose first byte is an \<open>R\<close> and for which
  the entry \<open>2 * i\<close> does not hold the GUID of ACPI, and null when there is none: the test of the
  GUID is inverted and made at the wrong entry, beyond the array for the second half of the tables,
  and seven of the eight characters of the signature are not looked at.
\<close>

theorem find_rsdp_takes:
  "find_rsdp m guid lit configTable entries =
     (case filter (takes m guid lit configTable) [0..<unat entries] of
        [] \<Rightarrow> 0
      | is \<Rightarrow> load64 m (configTable + of_nat (24 * last is) + 16))"
proof -
  let ?is = "\<lambda>n. filter (takes m guid lit configTable) [0..<n]"
  let ?r = "\<lambda>n. if ?is n = [] then 0 else load64 m (configTable + of_nat (24 * last (?is n)) + 16)"
  let ?f = "\<lambda>i (configTable, RSDP).
       (configTable + 24,
        if CompareGuid m (configTable + of_nat i * 24) guid \<noteq> 0
        then fold (\<lambda>_ RSDP. if boot_strcmp m lit (load64 m (configTable + 16)) 8 \<noteq> 0
                            then load64 m (configTable + 16) else RSDP) [0..<8] RSDP
        else RSDP)"
  have inner: "fold (\<lambda>_ r. if c then v else r) [0..<8] r = (if c then v else r)" for c and v r :: u64
    by (simp add: upt_rec)
  have step: "?f i (configTable + of_nat (24 * i), r) = (configTable + of_nat (24 * Suc i),
      if takes m guid lit configTable i then load64 m (configTable + of_nat (24 * i) + 16) else r)" for i r
  proof -
    have e: "configTable + of_nat (24 * i) + of_nat i * 24 = configTable + of_nat (48 * i)" by simp
    have "configTable + of_nat (24 * i) + 24 = configTable + of_nat (24 * Suc i)" by simp
    then show ?thesis
      unfolding prod.case e inner CompareGuid_eq_0 boot_strcmp_first takes_def by simp
  qed
  have "fold ?f [0..<n] (configTable, 0) = (configTable + of_nat (24 * n), ?r n)" for n
  proof (induction n)
    case (Suc n)
    have "fold ?f [0..<Suc n] (configTable, 0) = ?f n (configTable + of_nat (24 * n), ?r n)"
      by (simp only: upt_Suc_append [OF le0] fold_append fold_simps o_def Suc)
    also have "\<dots> = (configTable + of_nat (24 * Suc n), ?r (Suc n))"
      unfolding step by simp
    finally show ?case .
  qed simp
  then have "find_rsdp m guid lit configTable entries = ?r (unat entries)" unfolding find_rsdp_def by simp
  then show ?thesis by (cases "?is (unat entries)") simp_all
qed

end
