(* ===== verification/LoadKernel.thy ===== *)
theory LoadKernel
  imports Bootloader
begin

text \<open>
  How the boot loader brings the kernel into memory: the part of \<open>efi_main\<close> that reads the
  executable, over firmware that serves its file.
\<close>

section \<open>Firmware that serves a file\<close>

text \<open>
  What the loader relies on for the open file \<open>krnl\<close> with the bytes \<open>file\<close>: \<open>SetPosition\<close> sets the
  position, \<open>Read\<close> puts the bytes from there on into memory, as many as were asked for and the file
  has, and moves on, and the two services that allocate leave the position; pages are granted
  where they were asked for, and the pool hands out \<open>buf\<close>.
\<close>

definition serves :: "'w uefi \<Rightarrow> u64 \<Rightarrow> u8 list \<Rightarrow> ('w \<Rightarrow> nat) \<Rightarrow> u64 \<Rightarrow> bool" where
  "serves U krnl file fpos buf \<longleftrightarrow>
     (\<forall>p w. fpos (SetPosition U krnl p w) = unat p) \<and>
     (\<forall>n a m w. \<exists>cnt w'. Read U krnl n a (m, w) = (cnt, place a (take (unat n) (drop (fpos w) file)) m, w') \<and>
        fpos w' = fpos w + length (take (unat n) (drop (fpos w) file))) \<and>
     (\<forall>n a w. \<exists>w'. AllocatePages U n a w = (a, w') \<and> fpos w' = fpos w) \<and>
     (\<forall>n a w. \<exists>w'. AllocatePool U n a w = (buf, w') \<and> fpos w' = fpos w)"

section \<open>The headers of the file\<close>

definition file_at_0 :: "u8 list \<Rightarrow> mem" where
  "file_at_0 file = place 0 file (\<lambda>_. 0)"

definition ehdr_of :: "u8 list \<Rightarrow> elf64_ehdr" where
  "ehdr_of file = read_ehdr (file_at_0 file) 0"

definition phdr_of :: "u8 list \<Rightarrow> nat \<Rightarrow> elf64_phdr" where
  "phdr_of file i = read_phdr (file_at_0 file)
     (e_phoff (ehdr_of file) + of_nat (i * unat (e_phentsize (ehdr_of file))))"

definition phdrs_in :: "u8 list \<Rightarrow> elf64_phdr list" where
  "phdrs_in file = map (phdr_of file) [0..<unat (e_phnum (ehdr_of file))]"

definition table_size :: "u8 list \<Rightarrow> nat" where
  "table_size file = unat (e_phnum (ehdr_of file)) * unat (e_phentsize (ehdr_of file))"

text \<open>
  An executable in order: supported, its table of program headers inside the file, with entries that
  have the size of one at least, and the bytes of its segments inside the file.
\<close>

definition kernel_ok :: "u8 list \<Rightarrow> bool" where
  "kernel_ok file \<longleftrightarrow> 64 \<le> length file \<and> length file < 2147483648 \<and> header_supported (ehdr_of file) \<and>
     56 \<le> unat (e_phentsize (ehdr_of file)) \<and> unat (e_phoff (ehdr_of file)) + table_size file \<le> length file \<and>
     (\<forall>ph \<in> set (phdrs_in file). p_type ph = PT_LOAD \<longrightarrow> unat (p_offset ph) + unat (p_filesz ph) \<le> length file)"

section \<open>The loop over the segments\<close>

definition holds_segment :: "elf64_phdr \<Rightarrow> u64 \<Rightarrow> bool" where
  "holds_segment ph a \<longleftrightarrow> p_type ph = PT_LOAD \<and> unat (a - p_paddr ph) < unat (p_filesz ph)"

text \<open>The byte at \<open>a\<close> after the segments: that of the last one that holds \<open>a\<close>, and \<open>b\<close> if none does.\<close>

definition segment_byte :: "u8 list \<Rightarrow> elf64_phdr list \<Rightarrow> u64 \<Rightarrow> u8 \<Rightarrow> u8" where
  "segment_byte file phs a b =
     fold (\<lambda>ph b. if holds_segment ph a then file ! (unat (p_offset ph) + unat (a - p_paddr ph)) else b) phs b"

lemma segment_byte_none: "\<forall>ph \<in> set phs. \<not> holds_segment ph a \<Longrightarrow> segment_byte file phs a b = b"
  by (induction phs arbitrary: b) (auto simp: segment_byte_def)

lemma serves_Read:
  "serves U krnl file fpos buf \<Longrightarrow> \<exists>cnt w'. Read U krnl n a (m, w) = (cnt, place a (take (unat n) (drop (fpos w) file)) m, w') \<and>
     fpos w' = fpos w + length (take (unat n) (drop (fpos w) file))"
  unfolding serves_def by blast

lemma serves_AllocatePages: "serves U krnl file fpos buf \<Longrightarrow> \<exists>w'. AllocatePages U n a w = (a, w') \<and> fpos w' = fpos w"
  unfolding serves_def by blast

lemma serves_AllocatePool: "serves U krnl file fpos buf \<Longrightarrow> \<exists>w'. AllocatePool U n a w = (buf, w') \<and> fpos w' = fpos w"
  unfolding serves_def by blast

lemma serves_SetPosition: "serves U krnl file fpos buf \<Longrightarrow> fpos (SetPosition U krnl p w) = unat p"
  unfolding serves_def by blast

lemma load_segment_places:
  assumes s: "serves U krnl file fpos buf" and "p_type ph = PT_LOAD \<longrightarrow> unat (p_offset ph) + unat (p_filesz ph) \<le> length file"
  shows "fst (load_segment U krnl ph (m, w)) a =
    (if holds_segment ph a then file ! (unat (p_offset ph) + unat (a - p_paddr ph)) else m a)"
proof (cases "p_type ph = PT_LOAD")
  case True
  let ?n = "sext (ucast ((p_memsz ph + 0x1000 - 1) div 0x1000) :: i32) :: u64"
  obtain w1 where w1: "AllocatePages U ?n (p_paddr ph) w = (p_paddr ph, w1)"
    using serves_AllocatePages [OF s] by blast
  let ?w2 = "SetPosition U krnl (p_offset ph) w1"
  obtain cnt w3 where r: "Read U krnl (p_filesz ph) (p_paddr ph) (m, ?w2) =
      (cnt, place (p_paddr ph) (take (unat (p_filesz ph)) (drop (unat (p_offset ph)) file)) m, w3)"
    using serves_Read [OF s, of "p_filesz ph" "p_paddr ph" m ?w2] serves_SetPosition [OF s] by auto
  have "load_segment U krnl ph (m, w) = (place (p_paddr ph) (take (unat (p_filesz ph)) (drop (unat (p_offset ph)) file)) m, w3)"
    unfolding load_segment_def prod.case Let_def w1 r by (simp add: True)
  then show ?thesis using assms(2) True by (auto simp: place_def holds_segment_def)
qed (simp add: load_segment_def holds_segment_def)

text \<open>The header, in the variable at \<open>H\<close>, and the table of program headers, in the buffer at \<open>P\<close>, stay as they were read.\<close>

definition headers_at :: "u8 list \<Rightarrow> u64 \<Rightarrow> u64 \<Rightarrow> mem \<Rightarrow> bool" where
  "headers_at file H P m \<longleftrightarrow> loaded m H (take 64 file) \<and>
     loaded m P (take (table_size file) (drop (unat (e_phoff (ehdr_of file))) file))"

definition off_headers :: "u8 list \<Rightarrow> u64 \<Rightarrow> u64 \<Rightarrow> bool" where
  "off_headers file H P \<longleftrightarrow> unat P + table_size file < 18446744073709551616 \<and>
     (\<forall>ph \<in> set (phdrs_in file). (\<forall>x < table_size file. \<not> holds_segment ph (P + of_nat x)) \<and>
        (\<forall>x < 64. \<not> holds_segment ph (H + of_nat x)))"

lemma load_le_moved:
  assumes "\<And>i. i < k \<Longrightarrow> m (a + of_nat i) = m' (b + of_nat i)"
  shows "load_le k m a = (load_le k m' b :: 'w::len word)"
proof (rule bit_word_eqI)
  fix n assume "n < LENGTH('w)"
  have "n < 8 * k \<Longrightarrow> m (a + of_nat (n div 8)) = m' (b + of_nat (n div 8))" by (intro assms) (simp add: div_less_iff_less_mult)
  then show "bit (load_le k m a :: 'w word) n = bit (load_le k m' b :: 'w word) n" by (auto simp: bit_load_le)
qed

lemma load_le_field:
  assumes "\<And>i. i < len \<Longrightarrow> m (a + of_nat i) = m' (b + of_nat i)" and "y + k \<le> len"
  shows "load_le k m (a + of_nat y) = (load_le k m' (b + of_nat y) :: 'w::len word)"
proof (rule load_le_moved)
  fix i assume "i < k"
  then have "m (a + of_nat (y + i)) = m' (b + of_nat (y + i))" using assms(2) by (intro assms(1)) simp
  then show "m (a + of_nat y + of_nat i) = m' (b + of_nat y + of_nat i)" by (simp add: add.assoc)
qed

lemma read_phdr_moved:
  assumes "\<And>i. i < 56 \<Longrightarrow> m (a + of_nat i) = m' (b + of_nat i)"
  shows "read_phdr m a = read_phdr m' b"
proof -
  note lf = load_le_field [where m = m and a = a and m' = m' and b = b and len = 56, OF assms]
  show ?thesis using lf [of 0 4] lf [of 4 4] lf [of 8 8]
    lf [of 16 8] lf [of 24 8] lf [of 32 8]
    lf [of 40 8] lf [of 48 8]
    by (simp add: read_phdr_def load32_def load64_def)
qed

lemma read_ehdr_moved:
  assumes "\<And>i. i < 64 \<Longrightarrow> m (a + of_nat i) = m' (b + of_nat i)"
  shows "read_ehdr m a = read_ehdr m' b"
proof -
  note lf = load_le_field [where m = m and a = a and m' = m' and b = b and len = 64, OF assms]
  have "bytes_at m a 16 = bytes_at m' b 16" by (rule nth_equalityI) (use assms in auto)
  then show ?thesis
    using lf [of 16 2] lf [of 18 2] lf [of 20 4]
      lf [of 24 8] lf [of 32 8] lf [of 40 8]
      lf [of 48 4] lf [of 52 2] lf [of 54 2]
      lf [of 56 2] lf [of 58 2] lf [of 60 2]
      lf [of 62 2]
    by (simp add: read_ehdr_def load16_def load32_def load64_def)
qed

lemma file_byte:
  assumes "x < length file" and "length file < 2147483648"
  shows "file_at_0 file (of_nat x) = file ! x"
proof -
  have "unat (of_nat x :: u64) = x" using assms by (intro unat_of_nat64) simp
  then show ?thesis using assms by (simp add: file_at_0_def place_def)
qed

lemma table_entry:
  assumes ok: "kernel_ok file" and t: "headers_at file H P m" and i: "i < unat (e_phnum (ehdr_of file))"
  shows "read_phdr m (P + of_nat (i * unat (e_phentsize (ehdr_of file)))) = phdr_of file i"
  unfolding phdr_of_def
proof (rule read_phdr_moved)
  fix j :: nat assume j: "j < 56"
  define po es n where "po = unat (e_phoff (ehdr_of file))" and "es = unat (e_phentsize (ehdr_of file))"
    and "n = unat (e_phnum (ehdr_of file))"
  have f: "length file < 2147483648" "56 \<le> es" "po + n * es \<le> length file"
    using ok by (simp_all add: kernel_ok_def po_def es_def n_def table_size_def)
  have "Suc i * es \<le> n * es" using i by (intro mult_le_mono1) (simp add: n_def)
  then have lt: "i * es + j < n * es" using j f(2) by simp
  have "m (P + of_nat (i * es + j)) = take (n * es) (drop po file) ! (i * es + j)"
    using t lt f(3) by (intro loaded_nth) (simp_all add: headers_at_def po_def n_def es_def table_size_def)
  also have "\<dots> = file ! (po + (i * es + j))" using lt f(3) by simp
  also have "\<dots> = file_at_0 file (of_nat (po + (i * es + j)))" using lt f(1,3) by (intro file_byte [symmetric]) simp_all
  also have "of_nat (po + (i * es + j)) = e_phoff (ehdr_of file) + of_nat (i * es) + (of_nat j :: u64)"
    by (simp add: po_def)
  finally show "m (P + of_nat (i * unat (e_phentsize (ehdr_of file))) + of_nat j) =
      file_at_0 file (e_phoff (ehdr_of file) + of_nat (i * unat (e_phentsize (ehdr_of file))) + of_nat j)"
    by (simp add: es_def add.assoc)
qed

lemma header_read:
  assumes ok: "kernel_ok file" and t: "loaded m H (take 64 file)"
  shows "read_ehdr m H = ehdr_of file"
  unfolding ehdr_of_def
proof (rule read_ehdr_moved)
  fix i :: nat assume i: "i < 64"
  have f: "64 \<le> length file" "length file < 2147483648" using ok by (simp_all add: kernel_ok_def)
  then have "m (H + of_nat i) = file ! i" using loaded_nth [OF t, of i] i by simp
  then show "m (H + of_nat i) = file_at_0 file (0 + of_nat i)" using file_byte [of i "file"] f i by simp
qed

lemma headers_segment:
  assumes "headers_at file H P m" and "off_headers file H P" and "ph \<in> set (phdrs_in file)"
    and "\<And>a. \<not> holds_segment ph a \<Longrightarrow> m' a = m a"
  shows "headers_at file H P m'"
  unfolding headers_at_def
proof
  show "loaded m' H (take 64 file)"
    using assms(1) by (intro loaded_cong [of _ m' _ m]) (use assms(2,3,4) in \<open>auto simp: off_headers_def headers_at_def\<close>)
  show "loaded m' P (take (table_size file) (drop (unat (e_phoff (ehdr_of file))) file))"
    using assms(1) by (intro loaded_cong [of _ m' _ m]) (use assms(2,3,4) in \<open>auto simp: off_headers_def headers_at_def\<close>)
qed

lemma phdrs_size_table:
  assumes "kernel_ok file"
  shows "phdrs_size (ehdr_of file) = of_nat (table_size file)"
proof -
  let ?n = "e_phnum (ehdr_of file)" and ?s = "e_phentsize (ehdr_of file)"
  have t: "table_size file < 2147483648" using assms by (simp add: kernel_ok_def)
  have "(ucast ?n :: i32) * ucast ?s = of_nat (table_size file)"
    by (simp add: table_size_def)
  then show ?thesis using t by (simp add: phdrs_size_def sext_of_nat)
qed

lemma load_phdrs_loads:
  assumes s: "serves U krnl file fpos buf" and ok: "kernel_ok file" and off: "off_headers file H P"
  defines "es \<equiv> unat (e_phentsize (ehdr_of file))"
  shows "k \<le> unat (e_phnum (ehdr_of file)) \<Longrightarrow> headers_at file H P m \<Longrightarrow>
    \<exists>m' w'. load_phdrs U krnl H P (P + of_nat (k * es)) (m, w) = Some (m', w') \<and>
      (\<forall>a. m' a = segment_byte file (drop k (phdrs_in file)) a (m a))"
proof (induction "unat (e_phnum (ehdr_of file)) - k" arbitrary: k m w)
  case 0
  then have k: "k * es = table_size file" by (simp add: table_size_def es_def)
  have "read_ehdr m H = ehdr_of file" using header_read [OF ok] 0(3) by (simp add: headers_at_def)
  then have "load_phdrs U krnl H P (P + of_nat (k * es)) (m, w) = Some (m, w)"
    by (subst load_phdrs.simps) (simp only: fst_conv phdrs_size_table [OF ok] k less_irrefl if_False)
  then show ?case using 0 by (simp add: segment_byte_def phdrs_in_def)
next
  case (Suc d)
  let ?n = "unat (e_phnum (ehdr_of file))"
  have k: "k < ?n" using Suc.hyps(2) by simp
  have es: "56 \<le> es" "(ucast (e_phentsize (ehdr_of file)) :: u64) = of_nat es"
    using ok by (simp_all add: es_def kernel_ok_def)
  have "Suc k * es \<le> ?n * es" using k by (intro mult_le_mono1) simp
  then have lt: "k * es < table_size file" using es(1) unfolding table_size_def es_def [symmetric] mult_Suc by linarith
  have room: "unat P + table_size file < 18446744073709551616" using off by (simp add: off_headers_def)
  have "unat (P + of_nat x) = unat P + x" if "x \<le> table_size file" for x
  proof -
    have "unat (of_nat x :: u64) = x" using that room by (intro unat_of_nat64) simp
    then show ?thesis using that room by (subst unat_add_small) simp_all
  qed
  then have c: "P + of_nat (k * es) < P + of_nat (table_size file)" using lt by (simp only: word_less_nat_alt le_refl less_imp_le)
  define ph where "ph = phdr_of file k"
  have "k < length (phdrs_in file)" "phdrs_in file ! k = ph" using k by (simp_all add: phdrs_in_def ph_def)
  then have ph: "ph \<in> set (phdrs_in file)" "drop k (phdrs_in file) = ph # drop (Suc k) (phdrs_in file)"
    by (auto simp: Cons_nth_drop_Suc [symmetric])
  have r: "read_phdr m (P + of_nat (k * es)) = ph"
    unfolding ph_def es_def using table_entry [OF ok Suc.prems(2) k] .
  obtain m1 w1 where l: "load_segment U krnl ph (m, w) = (m1, w1)" by (cases "load_segment U krnl ph (m, w)")
  have m1: "m1 a = (if holds_segment ph a then file ! (unat (p_offset ph) + unat (a - p_paddr ph)) else m a)" for a
    using load_segment_places [OF s, of ph m w a] ok ph(1) by (simp add: l kernel_ok_def)
  have h1: "headers_at file H P m1" by (rule headers_segment [OF Suc.prems(2) off ph(1)]) (simp add: m1)
  have e: "read_ehdr m H = ehdr_of file" "read_ehdr m1 H = ehdr_of file"
    using header_read [OF ok] h1 Suc.prems(2) by (simp_all add: headers_at_def)
  have "d = ?n - Suc k" "Suc k \<le> ?n" using Suc.hyps(2) by simp_all
  from Suc.hyps(1) [OF this h1, of w1] obtain m' w' where IH: "load_phdrs U krnl H P (P + of_nat (Suc k * es)) (m1, w1) = Some (m', w')"
    "\<forall>a. m' a = segment_byte file (drop (Suc k) (phdrs_in file)) a (m1 a)"
    by blast
  have nx: "P + of_nat (k * es) + of_nat es = P + of_nat (Suc k * es)" by simp
  have "load_phdrs U krnl H P (P + of_nat (k * es)) (m, w) = Some (m', w')"
    by (subst load_phdrs.simps) (simp only: phdrs_size_table [OF ok] c if_True fst_conv r l e es(2) nx Let_def IH(1))
  moreover have "\<forall>a. m' a = segment_byte file (drop k (phdrs_in file)) a (m a)"
    using IH(2) by (simp add: ph(2) segment_byte_def m1)
  ultimately show ?case by blast
qed

section \<open>Properties\<close>

text \<open>
  C16: over firmware that serves the file, the loader brings an executable in order into memory and
  returns: every byte is the byte of the last segment that holds its physical address or, outside
  all segments, what it was, but for the header in its variable and the table of program headers in
  its buffer.  The header in memory is that of the file, so that its entry point is the one called.
\<close>

theorem load_kernel_loads:
  fixes loc :: "string \<Rightarrow> u64" and P :: u64
  defines "H \<equiv> loc ''header''"
  assumes "serves U krnl file fpos P" and "kernel_ok file" and "off_headers file H P" and "fpos w = 0"
    and "\<forall>x < table_size file. 64 \<le> unat (P + of_nat x - H)" and "\<forall>x < 64. table_size file \<le> unat (H + of_nat x - P)"
  shows "\<exists>m' w'. load_kernel U loc junk krnl (m, w) = Some (Inr (m', w')) \<and> read_ehdr m' H = ehdr_of file \<and>
    (\<forall>a. 64 \<le> unat (a - H) \<longrightarrow> table_size file \<le> unat (a - P) \<longrightarrow> m' a = segment_byte file (phdrs_in file) a (m a))"
proof -
  note s = assms(2) and ok = assms(3)
  have f: "64 \<le> length file" "length file < 2147483648" "unat (e_phoff (ehdr_of file)) + table_size file \<le> length file"
    using ok by (simp_all add: kernel_ok_def)
  let ?t = "take (table_size file) (drop (unat (e_phoff (ehdr_of file))) file)"
  define m1 where "m1 = place H (take 64 file) m"
  define m2 where "m2 = place P ?t m1"
  obtain c1 w1 where r1: "Read U krnl 64 H (m, w) = (c1, m1, w1)"
    using serves_Read [OF s, of 64 H m w] assms(5) by (auto simp: m1_def)
  have h1: "loaded m1 H (take 64 file)" unfolding m1_def by (rule loaded_place) simp
  then have e1: "read_ehdr m1 H = ehdr_of file" by (rule header_read [OF ok])
  let ?w2 = "SetPosition U krnl (e_phoff (ehdr_of file)) w1"
  obtain w3 where w3: "AllocatePool U (phdrs_size (ehdr_of file)) (junk ''phdrs'') ?w2 = (P, w3)" "fpos w3 = unat (e_phoff (ehdr_of file))"
    using serves_AllocatePool [OF s, of "phdrs_size (ehdr_of file)" "junk ''phdrs''" ?w2] serves_SetPosition [OF s] by auto
  have "unat (of_nat (table_size file) :: u64) = table_size file" using f by (intro unat_of_nat64) simp
  then obtain c4 w4 where r4: "Read U krnl (phdrs_size (ehdr_of file)) P (m1, w3) = (c4, m2, w4)"
    using serves_Read [OF s, of "phdrs_size (ehdr_of file)" P m1 w3] w3(2) by (auto simp: m2_def phdrs_size_table [OF ok])
  have "loaded m2 H (take 64 file)"
  proof (rule loaded_cong [OF _ h1])
    fix i assume "i < length (take 64 file)"
    then have "\<not> unat (H + of_nat i - P) < table_size file" using assms(7) by (simp add: not_less)
    then show "m2 (H + of_nat i) = m1 (H + of_nat i)" by (simp add: m2_def place_def)
  qed
  moreover have "loaded m2 P ?t" unfolding m2_def by (rule loaded_place) (use f in simp)
  ultimately have h2: "headers_at file H P m2" by (simp add: headers_at_def)
  obtain m' w' where l: "load_phdrs U krnl H P P (m2, w4) = Some (m', w')"
    and m': "\<forall>a. m' a = segment_byte file (phdrs_in file) a (m2 a)"
    using load_phdrs_loads [OF s ok assms(4) _ h2, of 0 w4] by auto
  have "load_kernel U loc junk krnl (m, w) = Some (Inr (m', w'))"
    using ok unfolding load_kernel_def prod.case H_def [symmetric] r1 Let_def e1 w3(1) r4 l by (simp add: kernel_ok_def)
  moreover have "read_ehdr m' H = ehdr_of file"
  proof (rule header_read [OF ok], rule loaded_cong)
    show "loaded m2 H (take 64 file)" using h2 by (simp add: headers_at_def)
    fix i assume "i < length (take 64 file)"
    then have "\<forall>ph \<in> set (phdrs_in file). \<not> holds_segment ph (H + of_nat i)" using assms(4) by (auto simp: off_headers_def)
    then show "m' (H + of_nat i) = m2 (H + of_nat i)" using m' by (simp add: segment_byte_none)
  qed
  moreover have "m2 a = m a" if "64 \<le> unat (a - H)" "table_size file \<le> unat (a - P)" for a
    using that by (simp add: m2_def m1_def place_def not_less)
  ultimately show ?thesis using m' by auto
qed

text \<open>A kernel of two bytes, at physical address 1 MiB, on firmware whose state is the position in the file.\<close>

definition small_byte :: "nat \<Rightarrow> u8" where
  "small_byte i =
     (if i < 64 then ((\<lambda>_. 0)(0 := 0x7f, 1 := 0x45, 2 := 0x4c, 3 := 0x46, 4 := 2, 5 := 1, 6 := 1, 16 := 2, 18 := 0x3e, 20 := 1, 26 := 0x10, 32 := 0x40, 52 := 0x40, 54 := 0x38, 56 := 1)) i
      else ((\<lambda>_. 0)(64 := 1, 68 := 5, 72 := 0x78, 82 := 0x10, 90 := 0x10, 96 := 2, 104 := 2, 113 := 0x10, 120 := 0xeb, 121 := 0xfe)) i)"

definition small_kernel :: "u8 list" where
  "small_kernel = map small_byte [0..<122]"

definition small_firmware :: "nat uefi" where
  "small_firmware =
     \<lparr>HandleProtocol = \<lambda>_ _ x w. (x, w), OpenVolume = \<lambda>_ x w. (x, w), OpenAt = \<lambda>_ _ _ w. (0, 1, w),
      Read = \<lambda>_ n a (m, w). let bs = take (unat n) (drop w small_kernel) in (of_nat (length bs), place a bs m, w + length bs),
      SetPosition = \<lambda>_ p _. unat p, AllocatePool = \<lambda>_ _ w. (0x9000, w), AllocatePages = \<lambda>_ a w. (a, w),
      LocateProtocol = \<lambda>_ x w. (0, x, w), GetMemoryMap = \<lambda>s _ k d (m, w). (0, s, k, d, m, w),
      ExitBootServices = \<lambda>_ _ w. w, Print = \<lambda>_ w. w\<rparr>"

lemma small_firmware_serves: "serves small_firmware krnl small_kernel (\<lambda>w. w) 0x9000"
  by (simp add: serves_def small_firmware_def Let_def)

lemma small_at: "file_at_0 small_kernel a = (if unat a < 122 then small_byte (unat a) else 0)"
  by (simp add: file_at_0_def place_def small_kernel_def)

lemma small_ehdr:
  "e_type (ehdr_of small_kernel) = 2" "e_machine (ehdr_of small_kernel) = 62" "e_entry (ehdr_of small_kernel) = 0x100000"
  "e_phoff (ehdr_of small_kernel) = 64" "e_phnum (ehdr_of small_kernel) = 1" "e_phentsize (ehdr_of small_kernel) = 56"
  "e_ident (ehdr_of small_kernel) ! 4 = 2" "e_ident (ehdr_of small_kernel) ! 5 = 1"
  by (simp_all add: ehdr_of_def read_ehdr_def load_bytes small_at small_byte_def)

lemma small_phdr:
  "p_type (phdr_of small_kernel 0) = 1" "p_offset (phdr_of small_kernel 0) = 120"
  "p_paddr (phdr_of small_kernel 0) = 0x100000" "p_filesz (phdr_of small_kernel 0) = 2"
  by (simp_all add: phdr_of_def small_ehdr) (simp_all add: read_phdr_def load_bytes small_at small_byte_def)

lemma small_phdrs: "phdrs_in small_kernel = [phdr_of small_kernel 0]" "table_size small_kernel = 56"
  by (simp_all add: phdrs_in_def table_size_def small_ehdr)

lemma small_kernel_ok: "kernel_ok small_kernel"
  by (simp add: kernel_ok_def small_phdrs small_phdr small_ehdr header_supported_def EI_CLASS_def EI_DATA_def
    ELFCLASS64_def ELFDATA2LSB_def ET_EXEC_def EM_X86_64_def) (simp add: small_kernel_def)

lemma small_kernel_byte: "segment_byte small_kernel (phdrs_in small_kernel) 0x100001 b = 0xFE"
  by (simp add: segment_byte_def small_phdrs holds_segment_def small_phdr PT_LOAD_def)
    (simp add: small_kernel_def small_byte_def)

lemma small_off:
  assumes "x < 64"
  shows "2 \<le> unat (0x9000 + of_nat x - 0x100000 :: u64)" "2 \<le> unat (0x8000 + of_nat x - 0x100000 :: u64)"
    "64 \<le> unat (0x9000 + of_nat x - 0x8000 :: u64)" "56 \<le> unat (0x8000 + of_nat x - 0x9000 :: u64)"
proof -
  have "0x9000 + of_nat x - 0x100000 = (of_nat (18446744073708539904 + x) :: u64)"
    "0x8000 + of_nat x - 0x100000 = (of_nat (18446744073708535808 + x) :: u64)"
    "0x9000 + of_nat x - 0x8000 = (of_nat (4096 + x) :: u64)"
    "0x8000 + of_nat x - 0x9000 = (of_nat (18446744073709547520 + x) :: u64)" by simp_all
  then show "2 \<le> unat (0x9000 + of_nat x - 0x100000 :: u64)" "2 \<le> unat (0x8000 + of_nat x - 0x100000 :: u64)"
    "64 \<le> unat (0x9000 + of_nat x - 0x8000 :: u64)" "56 \<le> unat (0x8000 + of_nat x - 0x9000 :: u64)"
    using assms by (simp_all only: unat_of_nat64)
qed

lemma load_kernel_loads_witness:
  "\<exists>m' w'. load_kernel small_firmware (\<lambda>_. 0x8000) (\<lambda>_. 0) 1 ((\<lambda>_. 0xCC), 0) = Some (Inr (m', w')) \<and>
     e_entry (read_ehdr m' 0x8000) = 0x100000 \<and> m' 0x100001 = 0xFE"
proof -
  have "off_headers small_kernel 0x8000 0x9000"
    using small_off by (auto simp: off_headers_def small_phdrs holds_segment_def small_phdr not_less)
  then obtain m' w' where "load_kernel small_firmware (\<lambda>_. 0x8000) (\<lambda>_. 0) 1 ((\<lambda>_. 0xCC), 0) = Some (Inr (m', w'))"
    "read_ehdr m' 0x8000 = ehdr_of small_kernel"
    "\<forall>a. 64 \<le> unat (a - 0x8000) \<longrightarrow> 56 \<le> unat (a - 0x9000) \<longrightarrow> m' a = segment_byte small_kernel (phdrs_in small_kernel) a 0xCC"
    using load_kernel_loads [where loc = "\<lambda>_. 0x8000" and m = "\<lambda>_. 0xCC" and w = 0 and junk = "\<lambda>_. 0",
        OF small_firmware_serves [of 1] small_kernel_ok]
      small_off unfolding small_phdrs(2) by auto
  then show ?thesis using small_kernel_byte small_ehdr(3) by simp
qed

end
