(* ===== verification/Confinement.thy ===== *)
theory Confinement
  imports Syscalls UserFiles
begin

text \<open>
  What system calls can do to the kernel: whatever a user program asks for, in any order, the page
  tables stay in order, no address is translated differently, and of the memory in use only the
  terminals, the buffers of \<open>printf\<close> and the destinations of its reads change.
\<close>

section \<open>Page tables\<close>

definition tables_kept :: "u64 set \<Rightarrow> u64 \<Rightarrow> mem \<Rightarrow> mem \<Rightarrow> bool" where
  "tables_kept U root m m' \<longleftrightarrow> tables_ok U m' root \<and> (\<forall>a. translate m' root a = translate m root a) \<and>
     (\<forall>a. translate m root a \<noteq> None \<longrightarrow> all_user m root (path_of a) \<longrightarrow> all_user m' root (path_of a))"

lemma tables_kept_trans: "tables_kept U root m m' \<Longrightarrow> tables_kept U root m' m'' \<Longrightarrow> tables_kept U root m m''"
  by (simp add: tables_kept_def)

lemma opened_tables_kept: "opened U root m A m' \<Longrightarrow> tables_kept U root m m'"
  by (simp add: opened_def tables_kept_def)

lemma quad_in_page:
  assumes "page_aligned t" and "unat i < 512" and "j < 8"
  shows "(t + i * 8 + of_nat j) div 4096 = t div 4096"
proof (rule word_unat_eq_iff [THEN iffD2])
  obtain q where q: "unat t = 4096 * q"
    using assms(1) by (metis page_aligned_def mod_0_imp_dvd dvdE)
  have "unat (t + i * 8 + of_nat j) = 4096 * q + (8 * unat i + j)"
    using quad_byte [OF entry_addr_8 [OF assms(1,2)] assms(3)] entry_addr [OF assms(1,2)] q by simp
  moreover have "(4096 * q + (8 * unat i + j)) div 4096 = q" using assms(2,3) by simp
  ultimately show "unat ((t + i * 8 + of_nat j) div 4096) = unat (t div 4096)"
    using q by (simp add: unat_div)
qed

text \<open>Memory outside the tables may change.\<close>

lemma tables_kept_outside:
  assumes ok: "tables_ok U m root" and same: "\<And>x. x div 4096 \<in> U \<Longrightarrow> m' x = m x"
  shows "tables_kept U root m m'"
proof -
  have e: "load64 m' (t + i * 8) = load64 m (t + i * 8)" if "page_aligned t" "t div 4096 \<in> U" "unat i < 512" for t i
    using that by (intro load64_cong same) (simp add: quad_in_page)
  have w: "length q \<le> 4 \<Longrightarrow> idx_ok q \<Longrightarrow> walk m' root q = walk m root q" for q
    using e by (rule walk_cong [OF ok])
  have u: "all_user m root q \<longrightarrow> all_user m' root q" if "length q \<le> 4" "idx_ok q" "walk m root q \<noteq> None" for q
    using that
  proof (induction q rule: rev_induct)
    case (snoc i q)
    then obtain t where t: "walk m root q = Some t" by (auto simp: walk_snoc split: Option.bind_splits)
    have "load64 m' (t + i * 8) = load64 m (t + i * 8)"
      using tables_okD [OF ok t] snoc.prems by (intro e) simp_all
    moreover have "walk m' root q = Some t" using w [of q] t snoc.prems by simp
    ultimately show ?case using snoc t by (simp add: all_user_snoc raw_walk)
  qed simp
  have "tables_ok U m' root" using w by (intro tables_ok_walk_cong [OF ok]) simp
  then show ?thesis using w u path_of_ok by (simp add: tables_kept_def translate_def)
qed

section \<open>The kernel around the calls\<close>

definition call_formats :: "string list" where
  "call_formats = [''%c'', ''\<newline>Program exit code: %co%u%co\<newline>'', warn_format, ''Unknown syscall!'']"

abbreviation own_terminal :: "'d kernel \<Rightarrow> u32" where
  "own_terminal k \<equiv> terminal (CurrentTask k)"

text \<open>The bytes the calls print to, and the bytes they rely on.\<close>

definition console_area :: "nat \<Rightarrow> 'd env \<Rightarrow> 'd kernel \<Rightarrow> u64 set" where
  "console_area K E k = statics (env_buffers E) \<union> vt_span K (k_vts k 0) \<union> vt_span K (k_vts k (own_terminal k))"

definition format_area :: "'d env \<Rightarrow> u64 set" where
  "format_area E = (\<Union>s \<in> set call_formats. span (env_lit E s) (Suc (length (bytes_of s))))"

text \<open>
  The kernel in order: page tables in pages in use, free pages mapped, the terminals that calls
  print to and the formats of the kernel in pages in use that hold no table, and clear of each other.
\<close>

definition guarded :: "u64 set \<Rightarrow> nat \<Rightarrow> 'd env \<Rightarrow> 'd kernel \<Rightarrow> bool" where
  "guarded U K E k \<longleftrightarrow>
     tables_ok U (k_mem k) (k_root k) \<and> U \<subseteq> taken (k_pfa k) \<and> addressable (k_pfa k) \<and>
     (\<forall>a. a div 4096 < last_index (k_pfa k) \<longrightarrow> a div 4096 \<notin> taken (k_pfa k) \<longrightarrow> translate (k_mem k) (k_root k) a \<noteq> None) \<and>
     (\<forall>n \<in> {0, own_terminal k}. console_ok K (env_buffers E) (k_vts k n)) \<and>
     hex_buffer (env_buffers E) \<inter> (char_buffer (env_buffers E) \<union> dec_buffer (env_buffers E)) = {} \<and>
     (\<forall>s \<in> set call_formats. cstr (k_mem k) (env_lit E s) (bytes_of s)) \<and>
     format_area E \<inter> console_area K E k = {} \<and>
     (\<forall>x \<in> format_area E \<union> console_area K E k. x div 4096 \<in> taken (k_pfa k) - U)"

text \<open>
  What calls change: memory in the pages granted, in the tables and in \<open>W\<close>; pages become used; the
  indexes of the terminals printed to; the memory and the state of the current task; the trace.
\<close>

definition confined :: "u64 set \<Rightarrow> u64 set \<Rightarrow> 'd kernel \<Rightarrow> 'd kernel \<Rightarrow> bool" where
  "confined U W k k' \<longleftrightarrow>
     (\<exists>m tr p vts tm. k' = k\<lparr>k_mem := m, k_trace := tr, k_pfa := p, k_vts := vts, k_tasks := tm\<rparr>) \<and>
     tables_kept U (k_root k) (k_mem k) (k_mem k') \<and>
     taken (k_pfa k) \<subseteq> taken (k_pfa k') \<and> Size (PageBitmap (k_pfa k')) = Size (PageBitmap (k_pfa k)) \<and>
     (\<exists>u st. k_tasks k' = (k_tasks k)\<lparr>tasks := (tasks (k_tasks k))(currentTask (k_tasks k) := (CurrentTask k)\<lparr>memoryUse := u, tstate := st\<rparr>)\<rparr>) \<and>
     (\<forall>n. \<exists>i. k_vts k' n = (k_vts k n)\<lparr>vt_index := i\<rparr> \<and> (n \<notin> {0, own_terminal k} \<longrightarrow> k_vts k' n = k_vts k n)) \<and>
     (\<forall>x. x div 4096 \<in> taken (k_pfa k) \<longrightarrow> x div 4096 \<notin> U \<longrightarrow> x \<notin> W \<longrightarrow> k_mem k' x = k_mem k x)"

lemma confined_parts:
  assumes "confined U W k k'"
  shows "k_root k' = k_root k" "currentTask (k_tasks k') = currentTask (k_tasks k)" "own_terminal k' = own_terminal k"
    "vt_span K (k_vts k' n) = vt_span K (k_vts k n)" "console_ok K b (k_vts k' n) = console_ok K b (k_vts k n)"
    "console_area K E k' = console_area K E k" "last_index (k_pfa k') = last_index (k_pfa k)"
proof -
  show "k_root k' = k_root k" using assms by (auto simp: confined_def)
  from assms obtain u st where t: "k_tasks k' = (k_tasks k)\<lparr>tasks := (tasks (k_tasks k))(currentTask (k_tasks k) := (CurrentTask k)\<lparr>memoryUse := u, tstate := st\<rparr>)\<rparr>"
    unfolding confined_def by blast
  show "currentTask (k_tasks k') = currentTask (k_tasks k)" "own_terminal k' = own_terminal k"
    by (simp_all add: t CurrentTask_def)
  moreover have "\<exists>i. k_vts k' n = (k_vts k n)\<lparr>vt_index := i\<rparr>" for n using assms unfolding confined_def by blast
  then have v: "vt_span K (k_vts k' n) = vt_span K (k_vts k n)" "console_ok K b (k_vts k' n) = console_ok K b (k_vts k n)" for K n
    by (metis vt_span_index, metis console_ok_index)
  ultimately show "vt_span K (k_vts k' n) = vt_span K (k_vts k n)" "console_ok K b (k_vts k' n) = console_ok K b (k_vts k n)"
    "console_area K E k' = console_area K E k"
    by (simp_all add: console_area_def)
  show "last_index (k_pfa k') = last_index (k_pfa k)" using assms by (simp add: confined_def)
qed

lemma confined_trans:
  assumes c: "confined U W k k'" "confined U W' k' k''"
  shows "confined U (W \<union> W') k k''"
proof -
  note p = confined_parts [OF c(1)]
  obtain u st u' st' where t: "k_tasks k' = (k_tasks k)\<lparr>tasks := (tasks (k_tasks k))(currentTask (k_tasks k) := (CurrentTask k)\<lparr>memoryUse := u, tstate := st\<rparr>)\<rparr>"
    "k_tasks k'' = (k_tasks k')\<lparr>tasks := (tasks (k_tasks k'))(currentTask (k_tasks k') := (CurrentTask k')\<lparr>memoryUse := u', tstate := st'\<rparr>)\<rparr>"
    using c unfolding confined_def by blast
  have "k_tasks k'' = (k_tasks k)\<lparr>tasks := (tasks (k_tasks k))(currentTask (k_tasks k) := (CurrentTask k)\<lparr>memoryUse := u', tstate := st'\<rparr>)\<rparr>"
    by (simp add: t CurrentTask_def)
  then have "\<exists>u st. k_tasks k'' = (k_tasks k)\<lparr>tasks := (tasks (k_tasks k))(currentTask (k_tasks k) := (CurrentTask k)\<lparr>memoryUse := u, tstate := st\<rparr>)\<rparr>"
    by blast
  moreover have "\<exists>m tr p vts tm. k'' = k\<lparr>k_mem := m, k_trace := tr, k_pfa := p, k_vts := vts, k_tasks := tm\<rparr>"
  proof -
    obtain m tr p vts tm m' tr' p' vts' tm' where "k' = k\<lparr>k_mem := m, k_trace := tr, k_pfa := p, k_vts := vts, k_tasks := tm\<rparr>"
      "k'' = k'\<lparr>k_mem := m', k_trace := tr', k_pfa := p', k_vts := vts', k_tasks := tm'\<rparr>"
      using c unfolding confined_def by blast
    then have "k'' = k\<lparr>k_mem := m', k_trace := tr', k_pfa := p', k_vts := vts', k_tasks := tm'\<rparr>" by simp
    then show ?thesis by blast
  qed
  moreover have "\<exists>i. k_vts k'' n = (k_vts k n)\<lparr>vt_index := i\<rparr> \<and> (n \<notin> {0, own_terminal k} \<longrightarrow> k_vts k'' n = k_vts k n)" for n
  proof -
    obtain i j where "k_vts k' n = (k_vts k n)\<lparr>vt_index := i\<rparr>" "k_vts k'' n = (k_vts k' n)\<lparr>vt_index := j\<rparr>"
      "n \<notin> {0, own_terminal k} \<longrightarrow> k_vts k'' n = k_vts k n"
      using c p(3) unfolding confined_def by metis
    then show ?thesis by (intro exI [of _ j]) simp
  qed
  moreover have "tables_kept U (k_root k) (k_mem k) (k_mem k'')"
    using c p(1) by (auto simp: confined_def intro: tables_kept_trans)
  ultimately show ?thesis using c unfolding confined_def by (simp add: subset_iff)
qed


text \<open>The kernel stays in order.\<close>

lemma guarded_confined:
  assumes g: "guarded U K E k" and c: "confined U (console_area K E k \<union> R) k k'" and R: "R \<inter> format_area E = {}"
  shows "guarded U K E k'"
proof -
  note p = confined_parts [OF c]
  have t: "taken (k_pfa k) \<subseteq> taken (k_pfa k')" "tables_kept U (k_root k) (k_mem k) (k_mem k')"
    "Size (PageBitmap (k_pfa k')) = Size (PageBitmap (k_pfa k))"
    using c by (simp_all add: confined_def)
  have m: "k_mem k' x = k_mem k x" if "x \<in> format_area E" for x
    using that g c R unfolding guarded_def confined_def by blast
  have "cstr (k_mem k') (env_lit E s) (bytes_of s)" if s: "s \<in> set call_formats" for s
  proof (rule cstr_span)
    show "cstr (k_mem k) (env_lit E s) (bytes_of s)" using g s by (simp add: guarded_def)
    show "length (bytes_of s) < 18446744073709551615" using s by (auto simp: call_formats_def bytes_of_def)
    show "k_mem k' a = k_mem k a" if "a \<in> span (env_lit E s) (Suc (length (bytes_of s)))" for a
      using that s by (intro m) (auto simp: format_area_def)
  qed
  then show ?thesis
    using g t p unfolding guarded_def tables_kept_def addressable_def by (simp add: subset_iff) blast
qed

section \<open>What single steps change\<close>

lemma confined_simple:
  assumes ok: "tables_ok U (k_mem k) (k_root k)"
    and k': "k' = k\<lparr>k_mem := m, k_trace := tr, k_pfa := p, k_vts := vts, k_tasks := tm\<rparr>"
    and p: "taken (k_pfa k) \<subseteq> taken p" "Size (PageBitmap p) = Size (PageBitmap (k_pfa k))"
    and tm: "tm = (k_tasks k)\<lparr>tasks := (tasks (k_tasks k))(currentTask (k_tasks k) := (CurrentTask k)\<lparr>memoryUse := u, tstate := st\<rparr>)\<rparr>"
    and vts: "\<And>n. \<exists>i. vts n = (k_vts k n)\<lparr>vt_index := i\<rparr> \<and> (n \<notin> {0, own_terminal k} \<longrightarrow> vts n = k_vts k n)"
    and tab: "tables_kept U (k_root k) (k_mem k) m"
    and m: "\<And>x. x div 4096 \<in> taken (k_pfa k) \<Longrightarrow> x div 4096 \<notin> U \<Longrightarrow> x \<notin> W \<Longrightarrow> m x = k_mem k x"
  shows "confined U W k k'"
  unfolding confined_def
proof (intro conjI)
  show "\<exists>m tr p vts tm. k' = k\<lparr>k_mem := m, k_trace := tr, k_pfa := p, k_vts := vts, k_tasks := tm\<rparr>"
    using k' by blast
  show "\<exists>u st. k_tasks k' = (k_tasks k)\<lparr>tasks := (tasks (k_tasks k))(currentTask (k_tasks k) := (CurrentTask k)\<lparr>memoryUse := u, tstate := st\<rparr>)\<rparr>"
    unfolding k' tm by (intro exI [of _ u] exI [of _ st]) simp
qed (use k' p vts tab m in simp_all)

lemma tables_kept_refl: "tables_ok U m root \<Longrightarrow> tables_kept U root m m"
  by (simp add: tables_kept_def)

text \<open>Memory, the trace and the allocator.\<close>

lemma confined_pages:
  assumes ok: "tables_ok U (k_mem k) (k_root k)"
    and p: "taken (k_pfa k) \<subseteq> taken p" "Size (PageBitmap p) = Size (PageBitmap (k_pfa k))"
    and tab: "tables_kept U (k_root k) (k_mem k) m"
    and m: "\<And>x. x div 4096 \<in> taken (k_pfa k) \<Longrightarrow> x div 4096 \<notin> U \<Longrightarrow> x \<notin> W \<Longrightarrow> m x = k_mem k x"
  shows "confined U W k (k\<lparr>k_mem := m, k_trace := tr, k_pfa := p\<rparr>)"
proof (rule confined_simple [OF ok _ p _ _ tab m])
  show "k\<lparr>k_mem := m, k_trace := tr, k_pfa := p\<rparr> =
      k\<lparr>k_mem := m, k_trace := tr, k_pfa := p, k_vts := k_vts k, k_tasks := k_tasks k\<rparr>" by simp
  show "k_tasks k = (k_tasks k)\<lparr>tasks := (tasks (k_tasks k))(currentTask (k_tasks k) :=
     (CurrentTask k)\<lparr>memoryUse := memoryUse (CurrentTask k), tstate := tstate (CurrentTask k)\<rparr>)\<rparr>"
    by (simp add: CurrentTask_def)
  show "\<exists>i. k_vts k n = (k_vts k n)\<lparr>vt_index := i\<rparr> \<and> (n \<notin> {0, own_terminal k} \<longrightarrow> k_vts k n = k_vts k n)" for n
    by (intro exI [of _ "vt_index (k_vts k n)"]) simp
qed

lemma confined_memory:
  assumes ok: "tables_ok U (k_mem k) (k_root k)" and U: "U \<subseteq> taken (k_pfa k)"
    and m: "\<And>x. x div 4096 \<in> taken (k_pfa k) \<Longrightarrow> x \<notin> W \<Longrightarrow> m x = k_mem k x"
    and W: "\<And>x. x \<in> W \<Longrightarrow> x div 4096 \<notin> U"
  shows "confined U W k (k\<lparr>k_mem := m, k_trace := tr\<rparr>)"
proof -
  have "tables_kept U (k_root k) (k_mem k) m" using ok U W by (intro tables_kept_outside m) blast+
  then show ?thesis using confined_pages [OF ok _ _ _ m, where p = "k_pfa k" and tr = tr] by simp
qed

lemma confined_trace:
  assumes "tables_ok U (k_mem k) (k_root k)" and "U \<subseteq> taken (k_pfa k)"
  shows "confined U {} k (k\<lparr>k_trace := tr\<rparr>)"
  using confined_memory [OF assms, where m = "k_mem k" and W = "{}" and tr = tr] by simp

lemma confined_task:
  assumes "tables_ok U (k_mem k) (k_root k)"
    and "tm = (k_tasks k)\<lparr>tasks := (tasks (k_tasks k))(currentTask (k_tasks k) := (CurrentTask k)\<lparr>memoryUse := u, tstate := st\<rparr>)\<rparr>"
  shows "confined U {} k (k\<lparr>k_tasks := tm\<rparr>)"
proof (rule confined_simple [OF assms(1) _ _ _ assms(2)])
  show "k\<lparr>k_tasks := tm\<rparr> = k\<lparr>k_mem := k_mem k, k_trace := k_trace k, k_pfa := k_pfa k, k_vts := k_vts k, k_tasks := tm\<rparr>" by simp
  show "\<exists>i. k_vts k n = (k_vts k n)\<lparr>vt_index := i\<rparr> \<and> (n \<notin> {0, own_terminal k} \<longrightarrow> k_vts k n = k_vts k n)" for n
    by (intro exI [of _ "vt_index (k_vts k n)"]) simp
qed (simp_all add: tables_kept_refl assms(1))

text \<open>Printing to terminal 0 or to the terminal of the current task.\<close>

lemma confined_appends:
  assumes g: "guarded U K E k" and a: "appends K S n strs k k'" and S: "S \<subseteq> statics (env_buffers E)" and n: "n \<in> {0, own_terminal k}"
  shows "confined U (console_area K E k) k k'"
proof -
  from a obtain i m where k': "k' = k\<lparr>k_vts := (k_vts k)(n := (k_vts k n)\<lparr>vt_index := i\<rparr>), k_mem := m\<rparr>"
    and m: "\<And>x. x \<notin> S \<union> vt_span K (k_vts k n) \<Longrightarrow> m x = k_mem k x" by (rule appendsE) blast
  have sub: "S \<union> vt_span K (k_vts k n) \<subseteq> console_area K E k" using S n by (auto simp: console_area_def)
  have ok: "tables_ok U (k_mem k) (k_root k)" using g by (simp add: guarded_def)
  have same: "m x = k_mem k x" if "x \<notin> console_area K E k" for x using that sub by (intro m) blast
  show ?thesis
  proof (rule confined_simple [OF ok])
    show "k' = k\<lparr>k_mem := m, k_trace := k_trace k, k_pfa := k_pfa k,
        k_vts := (k_vts k)(n := (k_vts k n)\<lparr>vt_index := i\<rparr>), k_tasks := k_tasks k\<rparr>" by (simp add: k')
    show "\<exists>i'. ((k_vts k)(n := (k_vts k n)\<lparr>vt_index := i\<rparr>)) n' = (k_vts k n')\<lparr>vt_index := i'\<rparr> \<and>
        (n' \<notin> {0, own_terminal k} \<longrightarrow> ((k_vts k)(n := (k_vts k n)\<lparr>vt_index := i\<rparr>)) n' = k_vts k n')" for n'
      using n by (intro exI [of _ "if n' = n then i else vt_index (k_vts k n')"]) auto
    show "tables_kept U (k_root k) (k_mem k) m"
      using ok g by (intro tables_kept_outside same) (auto simp: guarded_def)
    show "k_tasks k = (k_tasks k)\<lparr>tasks := (tasks (k_tasks k))(currentTask (k_tasks k) :=
        (CurrentTask k)\<lparr>memoryUse := memoryUse (CurrentTask k), tstate := tstate (CurrentTask k)\<rparr>)\<rparr>"
      by (simp add: CurrentTask_def)
  qed (use same in simp_all)
qed

section \<open>The calls\<close>

text \<open>The number of a call and its five arguments, in the order of the registers.\<close>

type_synonym call = "u64 \<times> u64 \<times> u64 \<times> u64 \<times> u64 \<times> u64"

fun do_call :: "'d env \<Rightarrow> call \<Rightarrow> 'd kernel \<Rightarrow> (u64 \<times> 'd kernel) result option" where
  "do_call E (n, a1, a2, d, a3, a4) k = SyscallHandler E n a1 a2 d a3 a4 k"

text \<open>What a read writes to.\<close>

fun destination :: "call \<Rightarrow> u64 set" where
  "destination (n, a1, a2, d, a3, a4) = (if n = SYSCALL_READ then span a1 (unat a3) else {})"

text \<open>
  The kernel does not check its arguments.  A read must not go to the page tables or the formats of
  the kernel, and a request for memory must fit below an unmapped page.
\<close>

fun allowed :: "u64 set \<Rightarrow> 'd env \<Rightarrow> 'd kernel \<Rightarrow> call \<Rightarrow> bool" where
  "allowed U E k (n, a1, a2, d, a3, a4) \<longleftrightarrow>
     (\<forall>x \<in> destination (n, a1, a2, d, a3, a4). x div 4096 \<notin> U \<and> x \<notin> format_area E) \<and>
     (n = SYSCALL_ALLOCATEMEMORY \<longrightarrow> unat a1 < 524288 \<and>
        (\<forall>a. unat a \<le> 4096 * (unat (Size (PageBitmap (k_pfa k))) + unat a1) \<longrightarrow> translate (k_mem k) (k_root k) a \<noteq> None))"

text \<open>The calls that may wait for ever: for the NUL of a string, or for the clock.\<close>

fun may_wait :: "call \<Rightarrow> bool" where
  "may_wait (n, a1, a2, d, a3, a4) \<longleftrightarrow> n \<notin> {SYSCALL_WRITE, SYSCALL_EXIT, SYSCALL_ALLOCATEMEMORY,
     SYSCALL_GETTERMINALOUTPUT, SYSCALL_GETPROCESSTERMINAL, SYSCALL_GETPID, SYSCALL_GETTERMINALBYPID}"

text \<open>One call: where it may wait, that only an open can find memory exhausted, and what it changes.\<close>

definition behaves :: "u64 set \<Rightarrow> nat \<Rightarrow> 'd env \<Rightarrow> call \<Rightarrow> 'd kernel \<Rightarrow> (u64 \<times> 'd kernel) result option \<Rightarrow> bool" where
  "behaves U K E c k r \<longleftrightarrow>
     (case r of
        None \<Rightarrow> may_wait c
      | Some (Inl e) \<Rightarrow> fst c = SYSCALL_OPEN \<and> e = OutOfMemory
      | Some (Inr (_, k')) \<Rightarrow> confined U (console_area K E k \<union> destination c) k k')"

lemma guardedD:
  assumes "guarded U K E k"
  shows "tables_ok U (k_mem k) (k_root k)" "U \<subseteq> taken (k_pfa k)" "addressable (k_pfa k)"
    "n \<in> {0, own_terminal k} \<Longrightarrow> console_ok K (env_buffers E) (k_vts k n)"
    "s \<in> set call_formats \<Longrightarrow> cstr (k_mem k) (env_lit E s) (bytes_of s)"
    "s \<in> set call_formats \<Longrightarrow> span (env_lit E s) (Suc (length (bytes_of s))) \<inter> console_area K E k = {}"
    "x \<in> format_area E \<union> console_area K E k \<Longrightarrow> x div 4096 \<in> taken (k_pfa k) \<and> x div 4096 \<notin> U"
proof -
  show "tables_ok U (k_mem k) (k_root k)" "U \<subseteq> taken (k_pfa k)" "addressable (k_pfa k)"
    "n \<in> {0, own_terminal k} \<Longrightarrow> console_ok K (env_buffers E) (k_vts k n)"
    "s \<in> set call_formats \<Longrightarrow> cstr (k_mem k) (env_lit E s) (bytes_of s)"
    using assms unfolding guarded_def by blast+
  have "format_area E \<inter> console_area K E k = {}" "\<forall>x \<in> format_area E \<union> console_area K E k. x div 4096 \<in> taken (k_pfa k) - U"
    using assms unfolding guarded_def by - (elim conjE, assumption)+
  then show "s \<in> set call_formats \<Longrightarrow> span (env_lit E s) (Suc (length (bytes_of s))) \<inter> console_area K E k = {}"
    "x \<in> format_area E \<union> console_area K E k \<Longrightarrow> x div 4096 \<in> taken (k_pfa k) \<and> x div 4096 \<notin> U"
    unfolding format_area_def by blast+
qed

lemma confined_refl: "guarded U K E k \<Longrightarrow> confined U {} k k"
  using confined_trace [of U k "k_trace k"] guardedD(1,2) by fastforce

lemma confined_mono: "confined U W k k' \<Longrightarrow> W \<subseteq> W' \<Longrightarrow> confined U W' k k'"
  unfolding confined_def by blast

text \<open>A format of the kernel, printed to terminal 0 or the one of the current task.\<close>

lemma call_printf:
  assumes g: "guarded U K E k" and n: "n \<in> {0, own_terminal k}"
    and fmt: "fmt \<in> set call_formats" "format ps = bytes_of fmt"
    and ps: "\<And>W. pieces_ok K W (k_mem k) ps" "args = concat (map piece_args ps)"
  shows "\<exists>k'. k_printf_to E n fmt args k = Some k' \<and> confined U (console_area K E k) k k'"
proof -
  let ?S = "buffers_used (env_buffers E) ps"
  have S: "?S \<subseteq> statics (env_buffers E)" by (rule buffers_used_statics)
  then have sub: "?S \<union> vt_span K (k_vts k n) \<subseteq> console_area K E k" using n by (auto simp: console_area_def)
  have "\<exists>k'. k_printf_to E n fmt args k = Some k' \<and> appends K ?S n (concat (map printed ps)) k k'"
  proof (rule k_printf_to_appends [OF _ HOL.refl _ _ _ ps], unfold fmt(2))
    show "length (bytes_of fmt) < 2147483648" using fmt(1) by (auto simp: call_formats_def bytes_of_def)
    show "span (env_lit E fmt) (Suc (length (bytes_of fmt))) \<inter> (?S \<union> vt_span K (k_vts k n)) = {}"
      using guardedD(6) [OF g fmt(1)] sub by blast
  qed (use guardedD(4,5) [OF g] n fmt(1) in auto)
  then show ?thesis using confined_appends [OF g _ S n] by blast
qed

lemma write_behaves:
  assumes g: "guarded U K E k"
  shows "\<exists>k'. SysConsoleWrite E c k = Some k' \<and> confined U (console_area K E k) k k'"
  unfolding SysConsoleWrite_def
  by (rule call_printf [OF g, where ps = "[Character (sext (scast c))]"])
    (simp_all add: call_formats_def format_def bytes_of_def)

lemma exit_behaves:
  assumes g: "guarded U K E k"
  shows "\<exists>k'. k_exit E code k = Some k' \<and> confined U (console_area K E k) k k'"
proof -
  let ?ps = "map Plain (bytes_of ''\<newline>Program exit code: '') @ [Colour YELLOW, Unsigned code, Colour WHITE, Plain 10]"
  have "\<exists>k'. k_printf_to E (own_terminal k) ''\<newline>Program exit code: %co%u%co\<newline>'' [YELLOW, code, WHITE] k = Some k' \<and>
      confined U (console_area K E k) k k'"
    by (rule call_printf [OF g, where ps = ?ps]) (simp_all add: call_formats_def format_def bytes_of_def)
  then obtain k1 where k1: "k_printf_to E (own_terminal k) ''\<newline>Program exit code: %co%u%co\<newline>'' [YELLOW, code, WHITE] k = Some k1"
    "confined U (console_area K E k) k k1" by blast
  have "tables_ok U (k_mem k1) (k_root k1)" using k1(2) confined_parts(1) [OF k1(2)] by (simp add: confined_def tables_kept_def)
  then have "confined U {} k1 (k1\<lparr>k_tasks := ExitCurrentTask (k_tasks k1)\<rparr>)"
    by (rule confined_task [where u = "memoryUse (CurrentTask k1)" and st = STATE_HALTED])
      (simp add: ExitCurrentTask_def CurrentTask_def)
  from confined_trans [OF k1(2) this] show ?thesis using k1(1) by (simp add: k_exit_def)
qed

lemma open_behaves:
  assumes g: "guarded U K E k"
  shows "case sys_open a1 k of None \<Rightarrow> True | Some (Inl e) \<Rightarrow> e = OutOfMemory | Some (Inr (_, k')) \<Rightarrow> confined U W k k'"
proof (cases "RequestPage (k_pfa k)")
  case (Inl e)
  then show ?thesis using RequestPage_Inl [of "k_pfa k" e] by (simp add: sys_open_def)
next
  case (Inr r)
  obtain desc p where r: "RequestPage (k_pfa k) = Inr (desc, p)" using Inr by (cases r) simp
  note G = guardedD [OF g]
  note f = RequestPage_fresh [OF G(3) r]
  have al: "page_aligned desc" using f(2) by (simp add: page_aligned_def)
  let ?cleared = "memset desc 0 4096 (k_mem k)" and ?m = "k_mem k" and ?root = "k_root k"
  define m1 where "m1 = MapUserspaceMemory ?root desc ?cleared"
  have m0: "?cleared x = ?m x" if "x div 4096 \<noteq> desc div 4096" for x
    using that by (simp add: memset_eq same_page_iff [OF al])
  have k0: "tables_kept U ?root ?m ?cleared"
    using f(1) G(2) by (intro tables_kept_outside [OF G(1)] m0) auto
  have mapped: "translate ?m ?root desc \<noteq> None" using g f(1,3) by (simp add: guarded_def)
  then have "opened U ?root ?cleared {desc} m1"
    unfolding m1_def using opened_step [OF opened_refl, of U ?cleared ?root desc] k0 by (simp add: tables_kept_def)
  then have k1: "tables_kept U ?root ?m m1" and m1: "\<And>x. x div 4096 \<notin> U \<Longrightarrow> m1 x = ?cleared x"
    using tables_kept_trans [OF k0 opened_tables_kept] by (auto simp: opened_def)
  have m2: "memcpy desc fl 369 m1 x = m1 x" if "x div 4096 \<noteq> desc div 4096" for fl x
    using that same_page_iff [OF al, of x] by (intro memcpy_frame) (simp add: word_less_nat_alt)
  have "tables_ok U m1 ?root" using k1 by (simp add: tables_kept_def)
  then have "tables_kept U ?root m1 (memcpy desc fl 369 m1)" for fl
    using f(1) G(2) by (intro tables_kept_outside m2) auto
  then have "tables_kept U ?root ?m (memcpy desc fl 369 m1)" for fl by (rule tables_kept_trans [OF k1])
  moreover have "memcpy desc fl 369 m1 x = ?m x" if "x div 4096 \<in> taken (k_pfa k)" "x div 4096 \<notin> U" for x fl
  proof -
    have "x div 4096 \<noteq> desc div 4096" using that(1) f(1) by auto
    then show ?thesis using m2 m1 m0 that(2) by simp
  qed
  moreover have "Size (PageBitmap p) = Size (PageBitmap (k_pfa k))" using RequestPage_Inr [OF r] by auto
  ultimately have "confined U W k (k\<lparr>k_mem := memcpy desc fl 369 m1, k_trace := k_trace k, k_pfa := p\<rparr>)" for fl
    using f(4) by (intro confined_pages [OF G(1)]) auto
  moreover have "k\<lparr>k_pfa := p, k_mem := m\<rparr> = k\<lparr>k_mem := m, k_trace := k_trace k, k_pfa := p\<rparr>" for m by simp
  ultimately have c: "confined U W k (k\<lparr>k_pfa := p, k_mem := memcpy desc fl 369 m1\<rparr>)" for fl by (simp only:)
  have "sys_open a1 k = map_option (\<lambda>fl. Inr (desc, k\<lparr>k_pfa := p, k_mem := memcpy desc fl 369 m1\<rparr>)) (VFSOpenFile (k_files k) a1 m1)"
    by (simp add: sys_open_def r k_map_user_def Let_def m1_def)
  then show ?thesis using c by (cases "VFSOpenFile (k_files k) a1 m1") simp_all
qed

lemma allocate_behaves:
  assumes g: "guarded U K E k" and n: "unat n < 524288"
    and mapped: "\<forall>a. unat a \<le> 4096 * (unat (Size (PageBitmap (k_pfa k))) + unat n) \<longrightarrow> translate (k_mem k) (k_root k) a \<noteq> None"
  shows "\<exists>b k'. sys_allocate n k = Some (b, k') \<and> confined U W k k'"
proof (cases "n = 0")
  case True
  then show ?thesis using confined_mono [OF confined_refl [OF g], of W] by (simp add: sys_allocate_def)
next
  case False
  then have n0: "0 < n" by (simp add: word_gt_0)
  note G = guardedD [OF g]
  obtain b p where r: "RequestPages n (k_pfa k) = Some (b, p)" "pages_spec n (k_pfa k) (b, p)"
    using RequestPages_spec [OF G(3), of n] n by auto
  note run = pages_run [OF G(3) r(2)]
  let ?m = "fold (\<lambda>j. MapUserspaceMemory (k_root k) (b + sext (of_nat j :: i32))) [0..<4096 * unat n + 1] (k_mem k)"
  have "translate (k_mem k) (k_root k) (b + of_nat j) \<noteq> None" if "j < 4096 * unat n + 1" for j
  proof -
    have "unat (of_nat j :: u64) = j" using that n by (intro unat_of_nat64) simp
    then have "unat (b + of_nat j) = unat b + j"
      using that run(1) G(3) n by (subst unat_add_small) (simp_all add: addressable_def)
    then show ?thesis using mapped that run(1) by simp
  qed
  then have o: "opened U (k_root k) (k_mem k) ((\<lambda>j. b + of_nat j) ` {..<4096 * unat n + 1}) ?m"
    using G(1) n by (intro opened_range) simp_all
  have "int_range b n"
    using run(1) G(3) n by (simp add: int_range_def addressable_def)
  then have "taken (k_pfa k) \<subseteq> taken p"
    using r(2) taken_LockPages [of b n] by (auto simp: pages_spec_def)
  then have c: "confined U W k (k\<lparr>k_mem := ?m, k_trace := k_trace k, k_pfa := p\<rparr>)"
    using o run(3) by (intro confined_pages [OF G(1)] opened_tables_kept) (auto simp: opened_def)
  let ?k = "k\<lparr>k_mem := ?m, k_trace := k_trace k, k_pfa := p\<rparr>"
  let ?tm = "(k_tasks k)\<lparr>tasks := (tasks (k_tasks k))(currentTask (k_tasks k) :=
      (CurrentTask k)\<lparr>memoryUse := memoryUse (CurrentTask k) + n * 4096\<rparr>)\<rparr>"
  have "confined U {} ?k (?k\<lparr>k_tasks := ?tm\<rparr>)"
  proof (rule confined_task)
    show "tables_ok U (k_mem ?k) (k_root ?k)" using o by (simp add: opened_def)
    show "?tm = (k_tasks ?k)\<lparr>tasks := (tasks (k_tasks ?k))(currentTask (k_tasks ?k) := (CurrentTask ?k)
        \<lparr>memoryUse := memoryUse (CurrentTask k) + n * 4096, tstate := tstate (CurrentTask k)\<rparr>)\<rparr>"
      by (simp add: CurrentTask_def)
  qed
  from confined_trans [OF c this] have "confined U W k (?k\<lparr>k_tasks := ?tm\<rparr>)" by simp
  moreover have "?k\<lparr>k_tasks := ?tm\<rparr> = k\<lparr>k_tasks := ?tm, k_pfa := p, k_mem := ?m\<rparr>" by simp
  ultimately have "confined U W k (k\<lparr>k_tasks := ?tm, k_pfa := p, k_mem := ?m\<rparr>)" by (simp only:)
  then show ?thesis using sys_allocate_eq [OF n0 n r(1)] by blast
qed

text \<open>A warning, and the answer to an unknown number.\<close>

lemma warn_behaves:
  assumes g: "guarded U K E k" and str: "cstr (k_mem k) p txt" "length txt \<le> K"
    and p: "span p (Suc (length txt)) \<inter> (char_buffer (env_buffers E) \<union> dec_buffer (env_buffers E) \<union> vt_span K (k_vts k 0)) = {}"
  shows "k_LogWarn E p k = None \<or> (\<exists>k'. k_LogWarn E p k = Some k' \<and> confined U (console_area K E k) k k')"
proof -
  let ?S = "char_buffer (env_buffers E) \<union> dec_buffer (env_buffers E)"
  have S: "?S \<subseteq> statics (env_buffers E)" "?S \<union> vt_span K (k_vts k 0) \<subseteq> console_area K E k"
    by (auto simp: console_area_def statics_def)
  have f: "warn_format \<in> set call_formats" by (simp add: call_formats_def)
  have "Suc (length (bytes_of warn_format)) = 26" by (simp add: bytes_of_def)
  then have "span (env_lit E warn_format) 26 \<inter> console_area K E k = {}"
    using guardedD(6) [OF g f] by (simp only:)
  then have "span (env_lit E warn_format) 26 \<inter> (?S \<union> vt_span K (k_vts k 0)) = {}" using S(2) by blast
  then have w: "k_LogWarn E p k = None \<or> (\<exists>k' strs. k_LogWarn E p k = Some k' \<and> appends K ?S 0 strs k (k'\<lparr>k_trace := k_trace k\<rparr>))"
    using guardedD(4) [OF g, of 0] guardedD(5) [OF g f] str p by (intro k_LogWarn_appends [OF _ HOL.refl]) simp_all
  have "confined U (console_area K E k) k k'" if a: "appends K ?S 0 strs k (k'\<lparr>k_trace := k_trace k\<rparr>)" for k' strs
  proof -
    let ?k = "k'\<lparr>k_trace := k_trace k\<rparr>"
    have c: "confined U (console_area K E k) k ?k" by (rule confined_appends [OF g a S(1)]) simp
    then have "confined U (console_area K E k \<union> {}) k ?k" by simp
    from guardedD(1,2) [OF guarded_confined [OF g this]]
    have "confined U {} ?k (?k\<lparr>k_trace := k_trace k'\<rparr>)" by (intro confined_trace) simp_all
    from confined_trans [OF c this] show ?thesis by simp
  qed
  then show ?thesis using w by blast
qed

lemma unknown_behaves:
  fixes E :: "'d env" and k :: "'d kernel"
  defines "b \<equiv> hexTo_StringOutput (env_buffers E)"
  assumes g: "guarded U K E k"
  shows "case do { k \<leftarrow> k_LogWarn E b (k\<lparr>k_mem := inttohstr64 b (stack (env_buffers E)) n (k_mem k)\<rparr>);
      k_LogWarn E (env_lit E ''Unknown syscall!'') k } of None \<Rightarrow> True | Some k' \<Rightarrow> confined U (console_area K E k) k k'"
proof -
  define k1 where "k1 = k\<lparr>k_mem := inttohstr64 b (stack (env_buffers E)) n (k_mem k)\<rparr>"
  have ok: "console_ok K (env_buffers E) (k_vts k 0)" using guardedD(4) [OF g] by simp
  have "confined U (console_area K E k) k (k\<lparr>k_mem := k_mem k1, k_trace := k_trace k\<rparr>)"
  proof (rule confined_memory [OF guardedD(1,2) [OF g]])
    show "k_mem k1 x = k_mem k x" if "x \<notin> console_area K E k" for x
      using that statics_frame(3) [of x "env_buffers E"] by (simp add: k1_def b_def console_area_def statics_def)
    show "x div 4096 \<notin> U" if "x \<in> console_area K E k" for x using guardedD(7) [OF g, of x] that by simp
  qed
  then have c1: "confined U (console_area K E k) k k1" by (simp add: k1_def)
  then have g1: "guarded U K E k1" using guarded_confined [OF g, of "{}"] by simp
  have c: "cstr (k_mem k1) b (hex_digits 16 n)" by (simp add: k1_def inttohstr64_cstr)
  have "span b 17 \<subseteq> hex_buffer (env_buffers E)"
    using span_part [of 14 17 142 "b - 14"] by (simp add: hex_buffer_def b_def)
  then have "span b 17 \<inter> (char_buffer (env_buffers E) \<union> dec_buffer (env_buffers E) \<union> vt_span K (k_vts k1 0)) = {}"
    using g ok by (auto simp: guarded_def console_ok_def statics_def k1_def)
  then have w: "k_LogWarn E b k1 = None \<or> (\<exists>k2. k_LogWarn E b k1 = Some k2 \<and> confined U (console_area K E k1) k1 k2)"
    using ok by (intro warn_behaves [OF g1 c]) (simp_all add: console_ok_def)
  have second: "k_LogWarn E (env_lit E ''Unknown syscall!'') k2 = None \<or>
      (\<exists>k3. k_LogWarn E (env_lit E ''Unknown syscall!'') k2 = Some k3 \<and> confined U (console_area K E k) k k3)"
    if c2: "confined U (console_area K E k1) k1 k2" for k2
  proof -
    have a: "console_area K E k1 = console_area K E k" "console_area K E k2 = console_area K E k"
      using confined_parts(6) [OF c1] confined_parts(6) [OF c2] by simp_all
    have g2: "guarded U K E k2" using guarded_confined [OF g1, of "{}"] c2 by simp
    have f: "''Unknown syscall!'' \<in> set call_formats" by (simp add: call_formats_def)
    have K: "20 \<le> K" using ok by (simp add: console_ok_def)
    have "k_LogWarn E (env_lit E ''Unknown syscall!'') k2 = None \<or>
      (\<exists>k3. k_LogWarn E (env_lit E ''Unknown syscall!'') k2 = Some k3 \<and> confined U (console_area K E k2) k2 k3)"
    proof (rule warn_behaves [OF g2 guardedD(5) [OF g2 f]])
      show "length (bytes_of ''Unknown syscall!'') \<le> K" using K by (simp add: bytes_of_def)
      show "span (env_lit E ''Unknown syscall!'') (Suc (length (bytes_of ''Unknown syscall!''))) \<inter>
          (char_buffer (env_buffers E) \<union> dec_buffer (env_buffers E) \<union> vt_span K (k_vts k2 0)) = {}"
        using guardedD(6) [OF g2 f] unfolding console_area_def statics_def by blast
    qed
    moreover have "confined U (console_area K E k) k k3" if "confined U (console_area K E k) k2 k3" for k3
      using confined_trans [OF confined_trans [OF c1 c2] ] that a by fastforce
    ultimately show ?thesis using a by auto
  qed
  show ?thesis
  proof (cases "k_LogWarn E b k1")
    case None
    then show ?thesis by (simp add: k1_def)
  next
    case (Some k2)
    then have "confined U (console_area K E k1) k1 k2" using w by simp
    from second [OF this] show ?thesis unfolding k1_def [symmetric] Some by auto
  qed
qed

lemma read_behaves:
  assumes g: "guarded U K E k" and d: "\<forall>x \<in> span a1 (unat a3). x div 4096 \<notin> U"
  shows "confined U (span a1 (unat a3)) k (k\<lparr>k_mem := memcpy a1 f a3 (k_mem k)\<rparr>)"
proof -
  have "confined U (span a1 (unat a3)) k (k\<lparr>k_mem := memcpy a1 f a3 (k_mem k), k_trace := k_trace k\<rparr>)"
    using d by (intro confined_memory [OF guardedD(1,2) [OF g]] memcpy_frame) (auto simp: span_def)
  then show ?thesis by simp
qed

text \<open>Every call behaves.\<close>

lemma call_behaves:
  assumes g: "guarded U K E k" and al: "allowed U E k (n, a1, a2, d, a3, a4)"
  shows "behaves U K E (n, a1, a2, d, a3, a4) k (do_call E (n, a1, a2, d, a3, a4) k)"
proof -
  have same: "confined U W k k" for W
    by (rule confined_mono [OF confined_refl [OF g]]) simp
  have area: "confined U (console_area K E k) k k' \<Longrightarrow> confined U (console_area K E k \<union> destination c) k k'" for k' c
    by (erule confined_mono) blast
  consider "n = SYSCALL_WRITE" | "n = SYSCALL_EXIT" | "n = SYSCALL_OPEN" | "n = SYSCALL_ALLOCATEMEMORY" | "n = SYSCALL_READ"
    | "n = SYSCALL_GETPIDBYNAME"
    | "n \<in> {SYSCALL_GETTERMINALOUTPUT, SYSCALL_GETPROCESSTERMINAL, SYSCALL_GETPID, SYSCALL_GETTERMINALBYPID}"
    | "n \<notin> {SYSCALL_WRITE, SYSCALL_EXIT, SYSCALL_OPEN, SYSCALL_ALLOCATEMEMORY, SYSCALL_READ, SYSCALL_GETPIDBYNAME,
        SYSCALL_GETTERMINALOUTPUT, SYSCALL_GETPROCESSTERMINAL, SYSCALL_GETPID, SYSCALL_GETTERMINALBYPID}" by blast
  then show ?thesis
  proof cases
    case 1
    then show ?thesis using write_behaves [OF g, of "ucast a1"] area
      confined_mono [OF confined_trace [OF guardedD(1,2) [OF g]]]
      by (auto simp: behaves_def SyscallHandler_def SysSerialWrite_def k_io_def split: prod.split)
  next
    case 2
    then show ?thesis using exit_behaves [OF g, of a1] area
      by (auto simp: behaves_def SyscallHandler_def syscall_defs)
  next
    case 3
    then show ?thesis using open_behaves [OF g, where ?a1.0 = a1 and W = "console_area K E k \<union> destination (n, a1, a2, d, a3, a4)"]
      by (auto simp: behaves_def SyscallHandler_def syscall_defs split: option.splits sum.splits)
  next
    case 4
    then show ?thesis using allocate_behaves [OF g, where n = a1 and W = "console_area K E k \<union> destination (n, a1, a2, d, a3, a4)"] al
      by (auto simp: behaves_def SyscallHandler_def syscall_defs)
  next
    case 5
    then have "confined U (console_area K E k \<union> destination (n, a1, a2, d, a3, a4)) k (k\<lparr>k_mem := memcpy a1 fl a3 (k_mem k)\<rparr>)" for fl
      using al by (intro confined_mono [OF read_behaves [OF g]]) auto
    then show ?thesis using 5
      by (auto simp: behaves_def SyscallHandler_def syscall_defs split: option.split)
  next
    case 6
    then show ?thesis using same
      by (auto simp: behaves_def SyscallHandler_def syscall_defs split: option.split)
  next
    case 7
    then show ?thesis using same by (auto simp: behaves_def SyscallHandler_def syscall_defs)
  next
    case 8
    have "Option.bind x (\<lambda>k. Option.bind (y k) (\<lambda>k. Some (h k))) = map_option h (Option.bind x y)"
      for x :: "'a kernel option" and y and h :: "'a kernel \<Rightarrow> (u64 \<times> 'a kernel) result"
      by (cases x) (simp_all add: map_conv_bind_option o_def)
    then show ?thesis using 8 unknown_behaves [OF g, of n] area
      by (auto simp: behaves_def SyscallHandler_def Let_def split: option.splits)
  qed
qed

section \<open>Sequences of calls\<close>

text \<open>
  Steps that keep an invariant and an effect that adds up: what holds of one step holds of a run.
\<close>

inductive run :: "('c \<Rightarrow> 's \<Rightarrow> 's \<Rightarrow> bool) \<Rightarrow> 's \<Rightarrow> 'c list \<Rightarrow> 's \<Rightarrow> bool" for step where
  run_Nil: "run step s [] s"
| run_Cons: "step c s s' \<Longrightarrow> run step s' xs s'' \<Longrightarrow> run step s (c # xs) s''"

inductive_cases run_ConsE: "run step s (c # xs) s''"

locale confining_steps =
  fixes step :: "'c \<Rightarrow> 's \<Rightarrow> 's \<Rightarrow> bool" and ok :: "'s \<Rightarrow> bool" and may :: "'s \<Rightarrow> 'c \<Rightarrow> bool"
    and eff :: "'c list \<Rightarrow> 's \<Rightarrow> 's \<Rightarrow> bool"
  assumes start: "ok s \<Longrightarrow> eff [] s s"
    and one: "ok s \<Longrightarrow> may s c \<Longrightarrow> step c s s' \<Longrightarrow> ok s' \<and> eff [c] s s'"
    and add: "eff xs s s' \<Longrightarrow> eff ys s' s'' \<Longrightarrow> eff (xs @ ys) s s''"
    and still: "eff xs s s' \<Longrightarrow> may s c \<Longrightarrow> may s' c"
begin

lemma run_confined: "run step s xs s' \<Longrightarrow> ok s \<Longrightarrow> list_all (may s) xs \<Longrightarrow> ok s' \<and> eff xs s s'"
proof (induction rule: run.induct)
  case (run_Nil s)
  then show ?case by (simp add: start)
next
  case (run_Cons c s s' xs s'')
  then have s': "ok s'" "eff [c] s s'" using one [of s c s'] by simp_all
  have "list_all (may s') xs"
    using run_Cons.prems(2) still [OF s'(2)] by (auto simp: list_all_iff)
  with run_Cons.IH s'(1) have "ok s''" "eff xs s' s''" by simp_all
  then show ?case using add [OF s'(2), of xs s''] by simp
qed

lemma run_allowed: "run step s xs s' \<Longrightarrow> ok s \<Longrightarrow> list_all (may s) xs \<Longrightarrow> may s c \<Longrightarrow> may s' c"
  using run_confined still by blast

end

definition returns :: "'d env \<Rightarrow> call \<Rightarrow> 'd kernel \<Rightarrow> 'd kernel \<Rightarrow> bool" where
  "returns E c k k' \<longleftrightarrow> (\<exists>r. do_call E c k = Some (Inr (r, k')))"

definition destinations :: "call list \<Rightarrow> u64 set" where
  "destinations xs = (\<Union>c \<in> set xs. destination c)"

lemma destinations_simps [simp]: "destinations [] = {}" "destinations [c] = destination c"
  "destinations (xs @ ys) = destinations xs \<union> destinations ys"
  by (auto simp: destinations_def)

interpretation calls: confining_steps "returns E" "guarded U K E" "allowed U E"
  "\<lambda>xs k k'. confined U (console_area K E k \<union> destinations xs) k k'" for U K E
proof
  fix k :: "'a kernel" and k' c
  assume g: "guarded U K E k" and al: "allowed U E k c" and r: "returns E c k k'"
  obtain n a1 a2 d a3 a4 where c: "c = (n, a1, a2, d, a3, a4)" by (cases c)
  have c': "confined U (console_area K E k \<union> destination c) k k'"
    using call_behaves [OF g al [unfolded c]] r unfolding c by (auto simp: returns_def behaves_def)
  moreover have "destination c \<inter> format_area E = {}" using al by (auto simp: c)
  ultimately show "guarded U K E k' \<and> confined U (console_area K E k \<union> destinations [c]) k k'"
    using guarded_confined [OF g] by simp
next
  fix xs ys and k k' k'' :: "'a kernel"
  assume "confined U (console_area K E k \<union> destinations xs) k k'" "confined U (console_area K E k' \<union> destinations ys) k' k''"
  from confined_trans [OF this] confined_parts(6) [OF this(1)]
  show "confined U (console_area K E k \<union> destinations (xs @ ys)) k k''"
    by (simp add: Un_ac)
next
  fix xs c and k k' :: "'a kernel"
  assume "confined U (console_area K E k \<union> destinations xs) k k'" and "allowed U E k c"
  then show "allowed U E k' c"
    by (cases c) (auto simp: confined_def tables_kept_def)
qed (use confined_mono [OF confined_refl] in simp)

section \<open>Properties\<close>


text \<open>Page tables in the pages 1 to 4, the formats in page 0x30, the static buffers in 0x31, the terminals from 0x20 on.\<close>

definition calls_env :: "unit env \<Rightarrow> unit env" where
  "calls_env E = E\<lparr>env_lit := (\<lambda>s. if s = ''%c'' then 0x30000 else if s = warn_format then 0x30100
      else if s = ''Unknown syscall!'' then 0x30200 else 0x30300),
     env_buffers := \<lparr>chartostrOutput = 0x31000, uintTo_StringOutput = 0x31100, intTo_StringOutput = 0x31200,
       doubleTo_StringOutput = 0x31300, hexTo_StringOutput = 0x31400, size0 = 0, stack = (\<lambda>_. 0)\<rparr>\<rparr>"

definition calls_memory :: mem where
  "calls_memory = place 0x30300 (bytes_of ''\<newline>Program exit code: %co%u%co\<newline>'' @ [0])
     (place 0x30200 (bytes_of ''Unknown syscall!'' @ [0])
     (place 0x30100 (bytes_of warn_format @ [0]) (place 0x30000 (bytes_of ''%c'' @ [0]) four_tables)))"

definition calls_kernel :: "unit kernel \<Rightarrow> unit kernel" where
  "calls_kernel k = k\<lparr>k_mem := calls_memory, k_root := 0x1000,
     k_vts := (\<lambda>_. \<lparr>vt_buffer = 0x20000, maxLen = 0x1000, vt_index = 0, initialized = True\<rparr>),
     k_pfa := some_pages\<lparr>PageBitmap := \<lparr>Size = 64, Buffer = (\<lambda>_. 0xFF)\<rparr>\<rparr>\<rparr>"

lemma length_bytes_of [simp]: "length (bytes_of s) = length s"
  by (simp add: bytes_of_def)

lemma calls_memory_ok:
  "s \<in> set call_formats \<Longrightarrow> cstr calls_memory (env_lit (calls_env E) s) (bytes_of s)"
  "tables_ok {1, 2, 3, 4} calls_memory 0x1000"
proof -
  let ?c = "bytes_of ''%c'' @ [0]" and ?w = "bytes_of warn_format @ [0]" and ?u = "bytes_of ''Unknown syscall!'' @ [0]"
  let ?m1 = "place 0x30000 ?c four_tables"
  let ?m2 = "place 0x30100 ?w ?m1"
  let ?m3 = "place 0x30200 ?u ?m2"
  have 1: "loaded ?m1 0x30000 ?c" by (rule loaded_place) simp
  have 2: "loaded ?m2 0x30000 ?c" "loaded ?m2 0x30100 ?w"
    by (rule loaded_below [OF 1]; simp) (rule loaded_place; simp)
  have 3: "loaded ?m3 0x30000 ?c" "loaded ?m3 0x30100 ?w" "loaded ?m3 0x30200 ?u"
    by (rule 2 [THEN loaded_below]; simp)+ (rule loaded_place; simp)
  have "loaded calls_memory 0x30000 ?c" "loaded calls_memory 0x30100 ?w" "loaded calls_memory 0x30200 ?u"
    "loaded calls_memory 0x30300 (bytes_of ''\<newline>Program exit code: %co%u%co\<newline>'' @ [0])"
    unfolding calls_memory_def by (rule 3 [THEN loaded_below]; simp)+ (rule loaded_place; simp)
  from this [THEN loaded_cstr]
  have "cstr calls_memory 0x30000 (bytes_of ''%c'')" "cstr calls_memory 0x30100 (bytes_of warn_format)"
    "cstr calls_memory 0x30200 (bytes_of ''Unknown syscall!'')"
    "cstr calls_memory 0x30300 (bytes_of ''\<newline>Program exit code: %co%u%co\<newline>'')"
    by (simp_all add: bytes_of_def)
  then show "s \<in> set call_formats \<Longrightarrow> cstr calls_memory (env_lit (calls_env E) s) (bytes_of s)"
    by (auto simp: call_formats_def calls_env_def)
  have "calls_memory x = four_tables x" if "x div 4096 \<in> {1, 2, 3, 4}" for x
  proof -
    have "unat (x div 4096) \<le> 4" using that by auto
    then have "unat x < 0x30000" by (simp add: unat_div)
    then show ?thesis by (simp add: calls_memory_def place_below)
  qed
  then show "tables_ok {1, 2, 3, 4} calls_memory 0x1000"
    using tables_kept_outside [OF four_tables_ok, of calls_memory] by (simp add: tables_kept_def)
qed

text \<open>The terminals with what they may write, the static buffers and the formats lie one after the other.\<close>

lemma calls_areas:
  fixes E :: "unit env"
  shows "console_ok 20 (env_buffers (calls_env E)) (k_vts (calls_kernel k) n)"
    and "hex_buffer (env_buffers (calls_env E)) \<inter> (char_buffer (env_buffers (calls_env E)) \<union> dec_buffer (env_buffers (calls_env E))) = {}"
    and "format_area (calls_env E) \<inter> console_area 20 (calls_env E) (calls_kernel k) = {}"
    and "x \<in> format_area (calls_env E) \<union> console_area 20 (calls_env E) (calls_kernel k) \<Longrightarrow> x \<in> span 0x20000 0x12000"
proof -
  let ?b = "env_buffers (calls_env E)"
  have b: "char_buffer ?b = span 0x31000 2" "dec_buffer ?b = span 0x31100 128" "hex_buffer ?b = span 0x313F2 142"
    by (simp_all add: calls_env_def static_defs)
  have v: "vt_span 20 (k_vts (calls_kernel k) n) = span 0x20000 0x1014" for n
    by (simp add: calls_kernel_def vt_span_def)
  have f: "format_area (calls_env E) \<subseteq> span 0x30000 0x400"
    using span_part [of 0 3 "0x400" "0x30000"] span_part [of "0x100" "Suc (length warn_format)" "0x400" "0x30000"]
      span_part [of "0x200" "Suc (length ''Unknown syscall!'')" "0x400" "0x30000"] span_part [of "0x300" "Suc (length ''\<newline>Program exit code: %co%u%co\<newline>'')" "0x400" "0x30000"]
    by (auto simp: format_area_def call_formats_def calls_env_def bytes_of_def numeral_3_eq_3)
  have d: "span 0x31000 2 \<inter> span 0x313F2 142 = {}" "span 0x31100 128 \<inter> span 0x313F2 142 = {}"
    "span 0x20000 0x1014 \<inter> span (0x31000 :: u64) 0x1000 = {}" "span 0x30000 0x400 \<inter> span (0x31000 :: u64) 0x1000 = {}"
    "span 0x20000 0x1014 \<inter> span (0x30000 :: u64) 0x400 = {}"
    by (rule span_disjoint; simp)+
  have st: "statics ?b \<subseteq> span 0x31000 0x1000"
    using span_part [of "0" "2" "0x1000" "0x31000"] span_part [of "0x100" "128" "0x1000" "0x31000"] span_part [of "0x3F2" "142" "0x1000" "0x31000"]
    by (auto simp: statics_def b)
  show "console_ok 20 ?b (k_vts (calls_kernel k) n)"
    using st d(3) unfolding console_ok_def v by (auto simp: calls_kernel_def calls_env_def)
  show "hex_buffer ?b \<inter> (char_buffer ?b \<union> dec_buffer ?b) = {}" using d(1,2) unfolding b by blast
  show "format_area (calls_env E) \<inter> console_area 20 (calls_env E) (calls_kernel k) = {}"
    using f st d(4,5) unfolding console_area_def v by blast
  have "span (0x20000 :: u64) 0x1014 \<subseteq> span 0x20000 0x12000" "span (0x30000 :: u64) 0x400 \<subseteq> span 0x20000 0x12000"
    "span (0x31000 :: u64) 0x1000 \<subseteq> span 0x20000 0x12000"
    using span_part [of "0" "0x1014" "0x12000" "0x20000"] span_part [of "0x10000" "0x400" "0x12000" "0x20000"]
      span_part [of "0x11000" "0x1000" "0x12000" "0x20000"] by simp_all
  then show "x \<in> format_area (calls_env E) \<union> console_area 20 (calls_env E) (calls_kernel k) \<Longrightarrow> x \<in> span 0x20000 0x12000"
    using f st unfolding console_area_def v by blast
qed

lemma calls_taken: "i \<in> taken (k_pfa (calls_kernel k)) \<longleftrightarrow> unat i \<le> 512"
proof -
  have "(0xFF :: u8) = -1" by simp
  then have "bit (0xFF :: u8) (7 - j)" for j by (simp only: bit_minus_1_iff) simp
  then show ?thesis
    unfolding Get_taken [symmetric] Get_page_bit
    by (simp add: calls_kernel_def page_bit_def word_le_nat_alt)
qed

lemma calls_guarded:
  fixes E :: "unit env"
  shows "guarded {1, 2, 3, 4} 20 (calls_env E) (calls_kernel k)"
proof -
  have p: "32 \<le> unat (x div 4096) \<and> unat (x div 4096) < 50" if "x \<in> span 0x20000 0x12000" for x
  proof -
    have "unat (x - 0x20000) < 0x12000" using that by (simp add: span_def)
    then have "0x20000 \<le> unat x \<and> unat x < 0x32000" using unat_diff64 [of x "0x20000"] unat_less_2p64 [of x] by (auto split: if_splits)
    then show ?thesis by (simp add: unat_div) linarith
  qed
  have "x div 4096 \<in> taken (k_pfa (calls_kernel k)) - {1, 2, 3, 4}"
    if "x \<in> format_area (calls_env E) \<union> console_area 20 (calls_env E) (calls_kernel k)" for x
  proof -
    have "32 \<le> unat (x div 4096)" "unat (x div 4096) < 50" using p [OF calls_areas(4) [OF that]] by simp_all
    moreover from this have "x div 4096 \<noteq> 1" "x div 4096 \<noteq> 2" "x div 4096 \<noteq> 3" "x div 4096 \<noteq> 4" by auto
    ultimately show ?thesis by (simp add: calls_taken)
  qed
  moreover have "addressable (k_pfa (calls_kernel k))" "k_mem (calls_kernel k) = calls_memory" "k_root (calls_kernel k) = 0x1000"
    "Size (PageBitmap (k_pfa (calls_kernel k))) = 64"
    by (simp_all add: calls_kernel_def addressable_def)
  ultimately show ?thesis
    unfolding guarded_def using calls_memory_ok calls_areas by (simp add: calls_taken word_less_nat_alt)
qed


end
