(* ===== verification/Spec2Isabelle.thy ===== *)
theory Spec2Isabelle
  imports EfiMemoryMap NumString HeapAllocator VFS BootPaging Startup Interrupts LoadKernel Confinement
begin

text \<open>
  moldOS: a boot loader for UEFI, a kernel for x86-64 in C++, a small C library for user programs,
  a file system on a RAM disk and the script that packs it.

  THE PROGRAM.  The loader, gnu-efi/bootloader/BOOTx64.c, opens the kernel, the font and the RAM disk,
  copies the segments of the kernel to their addresses, asks the firmware for the screen and the map
  of memory and calls the kernel with them.  The kernel's \<open>kernelMain\<close> (kernel/src/kernel.cpp)
  runs the steps of kernelInit.h: the page frame allocator is set up from the firmware's map, paging
  is switched on with an identity map, the heap is mapped, the descriptor tables, the interrupt
  controllers, the display, the keyboard, the mouse, the timer and the PCI bus are initialised, the
  files of the RAM disk are entered into the virtual file system, and the first program is loaded from it
  and started beside an idle task.  From then on the timer interrupt switches tasks, and
  programs come back through system calls, by way of the C library in mlib/.

  THE STATE.  Every component has a record of its own (\<open>pfa\<close>, \<open>heap\<close>, \<open>terminals\<close>, \<open>taskmgr\<close>,
  \<open>display\<close>, \<open>keyboard\<close>, \<open>mouse\<close>, \<open>pit\<close>, \<open>gdt\<close>), whose fields are the globals and members of the source
  file, and operations that take and return it.  What the code keeps in memory and other parts can see
  there (page tables, descriptors, strings, buffers, images, the texts of the terminals) is in one flat memory
  \<open>mem\<close>, a function from 64-bit addresses to bytes.  Accesses to devices are appended to a sequence,
  \<open>trace\<close>, and \<open>hardware\<close>, an argument, says what a device answers after which accesses.  Kernel.thy
  puts the records together as \<open>kernel\<close>, with one step function per operation that several
  components share; \<open>env\<close> holds what the code is compiled and linked with.
  Machine integers have their width (\<open>u8\<close> to \<open>u64\<close>, \<open>i32\<close> for int) and wrap; signed
  comparisons and conversions are written out.

  FAILURE.  \<open>Inl\<close> of an error is a stop of the machine (memory exhausted, a fault, a panic).  A loop
  whose end depends on memory or on a device is a \<open>partial_function (option)\<close>, \<open>None\<close> being the
  loop that does not end: nothing is bounded by fuel, and what is claimed of such code includes that it
  returns.  Loops that count are recursive functions with a measure.

  THE THEORIES, from the bottom up, with the code they model:

  Prelude: integer types, counting loops, rewrite collections, words.
  Memory: memory/memory.cpp; loads and stores, memset, memcpy in its two parts, memcmp.
  CString, NumString, DoubleString: libc/stdio/cstring.cpp; C strings, numbers to text and back; the
  arithmetic of doubles is an argument.
  BitmapModel: misc/bitmap/.  Locale \<open>bit_set\<close> is what the allocator relies on; \<open>bm\<close> interprets it.
  PageFrameAllocator, EfiMemoryMap: memory/pfa.cpp; the pages, their counters and the search hint, and
  what the firmware's map becomes.
  Paging, PageTableManager: memory/paging.cpp, pmi.cpp, ptm.cpp; entries, indexes, mapping.  The
  specification is the address translation of the tables (\<open>translate\<close>), \<open>tables_ok\<close> their
  invariant; locale \<open>frame_source\<close> is the allocator as seen from here, interpreted as \<open>frames\<close>.
  Heap, HeapAllocator: memory/heap.cpp; first the operations on segments and the invariant, then \<open>malloc\<close> and
  \<open>free\<close> as operations on the set of blocks in use.  Locale \<open>page_mapper\<close>, interpreted as
  \<open>pages\<close>, is the mapping of new pages.
  LLFS, VFS: filesystem/ and tools/buildllfs.py; packed images and the descriptors of files.
  PortIO: io/; ports, model specific registers, the serial line.
  Cpu: cpu/gdt.cpp, tss.cpp and the tables and controllers of intrerupts.cpp, against the programming
  interface of the 8259A.
  Keyboard, Mouse: drivers/keyboard, drivers/mouse; against a line editor and a stream of movements.
  Clock: drivers/rtc and scheduling/pit.cpp.
  PciTranslate, Pci: drivers/pci and misc/power/acpi.cpp.
  Display, AnsiText: drivers/display and terminal/ansi.cpp; \<open>puts\<close> on the screen, and escape sequences
  against their tokens.
  Terminal, Console: terminal/terminal.cpp, libc/stdio/printf.cpp, misc/logging/log.cpp, misc/smbios;
  Console proves \<open>printf\<close> against the pieces of its format.
  TaskManager: scheduling/taskmgr.cpp; the step relation \<open>sched_step\<close> with its reachable states.
  Elf: elf/loader.cpp with the used part of elf.h.
  Kernel: the composed state, userspace/userspace.cpp, the handlers of cpu/intrerupts.cpp, panic.cpp.
  Syscalls, KernelConsole, Interrupts: what the calls, the prints of the kernel and the timer interrupt
  do, over Kernel.
  Boot, BootPaging, Startup: kernelInit.h and kernel.cpp; the identity map, and the start of the first
  tasks up to the first ticks of the timer.
  Mlib, UserFiles: mlib/ and apps/minit; printing, opening and reading from a program.
  Confinement: all the system calls in any order; \<open>guarded\<close> is the kernel in order, \<open>confined\<close> the
  most that calls change.  Locale \<open>confining_steps\<close> takes such a pair from one step to runs of steps;
  \<open>calls\<close> interprets it on \<open>SyscallHandler\<close>.
  Bootloader, LoadKernel: BOOTx64.c over firmware whose services are an argument, and the loading of
  the kernel over firmware that serves its file (\<open>serves\<close>).

  WHAT IS SHOWN.  Memory management: each layer refines an abstract view of the layer below (bits, sets of
  pages, a translation of addresses, a set of blocks), keeps its invariant, and fails exactly when pages
  run out.  Files: what the script packs is what the kernel reads, what the virtual file system
  returns, and what a user program gets through two system calls.  Tasks: the
  scheduler is fair, an interrupted task resumes with its registers, only frames of user code are
  resumed, and start-up leads to the first program running.  System calls: whatever a
  program asks for, in any order, with the destinations of its reads off the page tables, the
  translation of addresses stays what it is and the rest of the kernel is not touched.  Text: numbers round-trip,
  \<open>printf\<close> and escape sequences do what their tokens say, and everything stays on the screen.
  Devices: controllers and drivers follow the interfaces of the hardware.  Loading: both loaders put
  every segment where its header says.  Where the code departs from its intent the theorem states what
  it does (the page behind an allocation that is opened too, the search by a name cut by one character,
  the inverted test of the loader, the digits written in front of a buffer).

  ARGUMENTS OF THE MODEL.  The answers of devices, the services of the firmware, the operations of the
  floating point unit, the addresses the linker and the compiler choose (literals, static
  buffers, local variables whose address is taken), the values of variables that are read before
  they are set.  Theorems that need something of them say so in their hypotheses.  Interrupts are taken
  between the operations of the model, not inside them.

  Not modelled: the library and headers of gnu-efi, third-party code, except its comparison of
  GUIDs; the assembly files, whose effect is an access in the sequence or an explicit step; the many
  constants of elf.h, float.h and limits.h that no code reads; declarations without a definition
  (\<open>boxedputs\<close>, most of mlib's string.h); code disabled in settings.h; build files, linker scripts and
  documents.  Nothing else of the kernel, the loader, the library or the first program is left out.
\<close>

end
